(* ===== verification/Prelude.thy ===== *)
theory Prelude
  imports
    Main
    "HOL-Library.Word"
    "HOL-Library.Signed_Division"
    "HOL-Library.Char_ord"
    "HOL-Library.List_Lexorder"
begin

text \<open>
  Shared vocabulary of the development.

  \<^item> \<open>outcome\<close>: what a piece of C code can do. \<open>Ok\<close> is a normal return, \<open>Fatal\<close> is a call
    of \<open>fatal\<close> (the process prints the message and exits with status 1), \<open>UB\<close> is a step the C
    standard leaves undefined or that depends on the allocator's addresses, \<open>Diverge\<close> is an
    unbounded recursion.
  \<^item> \<open>obind\<close>, \<open>ofold\<close>, \<open>omap\<close>: sequencing, a loop over a list, a loop that collects results.
  \<^item> C strings (NUL-terminated views of byte strings), \<open>strcmp\<close>, decimal printing.
  \<^item> The range of \<open>int64_t\<close>.
\<close>

section \<open>Outcomes\<close>

datatype ub =
    StackUnderflow      \<comment> \<open>a read or write below \<open>stack[0]\<close>\<close>
  | StackRange          \<comment> \<open>a read or write at or above \<open>stack[65536]\<close>\<close>
  | LocalsRange         \<comment> \<open>an access outside \<open>locals_stack\<close>\<close>
  | FuncRange           \<comment> \<open>an access outside the function table\<close>
  | FrameRange          \<comment> \<open>an access outside \<open>frames\<close>\<close>
  | CodeRange           \<comment> \<open>a read outside the code section\<close>
  | DataRange           \<comment> \<open>a read outside the loaded file\<close>
  | StringRange         \<comment> \<open>a read outside a C string\<close>
  | BufferOverflow      \<comment> \<open>a write past the end of a fixed-size buffer\<close>
  | ArgRange            \<comment> \<open>a native reads an argument it was not given\<close>
  | DanglingPtr         \<comment> \<open>an access to a freed object, or a double free\<close>
  | PtrBits             \<comment> \<open>a pointer read as an integer: depends on the allocator\<close>
  | SignedOverflow      \<comment> \<open>signed overflow\<close>
  | BadShift            \<comment> \<open>a shift count outside the width\<close>
  | DivTrap             \<comment> \<open>an integer division that traps\<close>
  | FloatRange          \<comment> \<open>a double outside the range of the integer it is converted to\<close>

datatype 'a outcome = Ok 'a | Fatal string | UB ub | Diverge

primrec obind :: "'a outcome \<Rightarrow> ('a \<Rightarrow> 'b outcome) \<Rightarrow> 'b outcome" where
  "obind (Ok x) f = f x"
| "obind (Fatal m) f = Fatal m"
| "obind (UB u) f = UB u"
| "obind Diverge f = Diverge"

text \<open>A \<open>for\<close> loop over the elements of a list that threads a state.\<close>

primrec ofold :: "('a \<Rightarrow> 's \<Rightarrow> 's outcome) \<Rightarrow> 'a list \<Rightarrow> 's \<Rightarrow> 's outcome" where
  "ofold f [] s = Ok s"
| "ofold f (x # xs) s = obind (f x s) (\<lambda>s'. ofold f xs s')"

text \<open>A loop that collects the results of a computation that changes no state.\<close>

primrec omap :: "('a \<Rightarrow> 'b outcome) \<Rightarrow> 'a list \<Rightarrow> 'b list outcome" where
  "omap f [] = Ok []"
| "omap f (x # xs) = obind (f x) (\<lambda>y. obind (omap f xs) (\<lambda>ys. Ok (y # ys)))"

definition oguard :: "bool \<Rightarrow> ub \<Rightarrow> unit outcome" where
  "oguard b u = (if b then Ok () else UB u)"

definition ofail :: "bool \<Rightarrow> string \<Rightarrow> unit outcome" where
  \<comment> \<open>\<open>if (b) fatal(m);\<close>\<close>
  "ofail b m = (if b then Fatal m else Ok ())"

text \<open>\<open>defined m\<close>: the code runs without undefined behaviour.\<close>

primrec defined :: "'a outcome \<Rightarrow> bool" where
  "defined (Ok x) = True"
| "defined (Fatal m) = True"
| "defined (UB u) = False"
| "defined Diverge = True"

named_theorems defined_intros \<open>rules that show a computation free of undefined behaviour\<close>
named_theorems outcome_simps \<open>inversion of computations that returned\<close>

text \<open>Evaluation does not look into the continuation of a computation that is not done.\<close>

lemma obind_case [code_unfold]:
  "obind m f = (case m of Ok x \<Rightarrow> f x | Fatal e \<Rightarrow> Fatal e | UB u \<Rightarrow> UB u | Diverge \<Rightarrow> Diverge)"
  by (cases m) auto

lemma obind_Ok_iff [outcome_simps]:
  "obind m f = Ok y \<longleftrightarrow> (\<exists>x. m = Ok x \<and> f x = Ok y)"
  by (cases m) auto

lemma obind_UB_iff [outcome_simps]:
  "obind m f = UB u \<longleftrightarrow> m = UB u \<or> (\<exists>x. m = Ok x \<and> f x = UB u)"
  by (cases m) auto

lemma obind_Fatal_iff [outcome_simps]:
  "obind m f = Fatal e \<longleftrightarrow> m = Fatal e \<or> (\<exists>x. m = Ok x \<and> f x = Fatal e)"
  by (cases m) auto

lemma obind_Diverge_iff [outcome_simps]:
  "obind m f = Diverge \<longleftrightarrow> m = Diverge \<or> (\<exists>x. m = Ok x \<and> f x = Diverge)"
  by (cases m) auto

lemma obind_assoc [simp]: "obind (obind m f) g = obind m (\<lambda>x. obind (f x) g)"
  by (cases m) auto

lemma obind_Ok_right [simp]: "obind m Ok = m"
  by (cases m) auto

lemma obind_cong [fundef_cong]:
  "m = m' \<Longrightarrow> (\<And>x. m' = Ok x \<Longrightarrow> f x = f' x) \<Longrightarrow> obind m f = obind m' f'"
  by (cases m') auto

lemma oguard_simps [simp]:
  "oguard True u = Ok ()"
  "oguard False u = UB u"
  "oguard b u = Ok x \<longleftrightarrow> b"
  "oguard b u = UB w \<longleftrightarrow> \<not> b \<and> u = w"
  "oguard b u \<noteq> Fatal e"
  "oguard b u \<noteq> Diverge"
  by (auto simp: oguard_def)

lemma ofail_simps [simp]:
  "ofail True m = Fatal m"
  "ofail False m = Ok ()"
  "ofail b m = Ok x \<longleftrightarrow> \<not> b"
  "ofail b m = Fatal e \<longleftrightarrow> b \<and> m = e"
  "ofail b m \<noteq> UB u"
  "ofail b m \<noteq> Diverge"
  by (auto simp: ofail_def)

lemma defined_iff: "defined m \<longleftrightarrow> (\<forall>u. m \<noteq> UB u)"
  by (cases m) auto

lemma defined_obind [defined_intros]:
  "defined m \<Longrightarrow> (\<And>x. m = Ok x \<Longrightarrow> defined (f x)) \<Longrightarrow> defined (obind m f)"
  by (cases m) auto

lemma defined_oguard [simp]: "defined (oguard b u) \<longleftrightarrow> b"
  by (simp add: oguard_def)

lemma defined_ofail [simp]: "defined (ofail b m)"
  by (simp add: ofail_def)

lemma ofold_append [simp]:
  "ofold f (xs @ ys) s = obind (ofold f xs s) (\<lambda>s'. ofold f ys s')"
  by (induction xs arbitrary: s) auto

lemma ofold_cong [fundef_cong]:
  "xs = ys \<Longrightarrow> s = t \<Longrightarrow> (\<And>x u. x \<in> set ys \<Longrightarrow> f x u = g x u) \<Longrightarrow> ofold f xs s = ofold g ys t"
proof (induction xs arbitrary: ys s t)
  case (Cons x xs)
  then show ?case by (cases "g x t") (auto intro!: obind_cong)
qed auto

lemma omap_cong [fundef_cong]:
  "xs = ys \<Longrightarrow> (\<And>x. x \<in> set ys \<Longrightarrow> f x = g x) \<Longrightarrow> omap f xs = omap g ys"
  by (induction xs arbitrary: ys) auto

lemma omap_Ok_iff [outcome_simps]:
  "omap f xs = Ok ys \<longleftrightarrow> list_all2 (\<lambda>x y. f x = Ok y) xs ys"
proof (induction xs arbitrary: ys)
  case (Cons x xs)
  then show ?case by (cases ys) (auto simp: obind_Ok_iff list_all2_Cons1)
qed (auto)

lemma omap_total: "(\<And>x. x \<in> set xs \<Longrightarrow> f x = Ok (g x)) \<Longrightarrow> omap f xs = Ok (map g xs)"
  by (induction xs) auto

lemma omap_Ok_map:
  assumes "omap f xs = Ok ys"
  obtains g where "ys = map g xs" "\<And>x. x \<in> set xs \<Longrightarrow> f x = Ok (g x)"
proof -
  let ?g = "\<lambda>x. case f x of Ok y \<Rightarrow> y | _ \<Rightarrow> hd ys"
  have "ys = map ?g xs \<and> (\<forall>x \<in> set xs. f x = Ok (?g x))"
    if "list_all2 (\<lambda>x y. f x = Ok y) xs ys" for ys
    using that by (induction rule: list_all2_induct) auto
  with assms that show ?thesis by (auto simp: omap_Ok_iff)
qed

lemma omap_exists:
  assumes "\<And>x. x \<in> set xs \<Longrightarrow> \<exists>y. f x = Ok y \<and> P y"
  shows "\<exists>ys. omap f xs = Ok ys \<and> (\<forall>y \<in> set ys. P y)"
  using assms
proof (induction xs)
  case (Cons x xs)
  from Cons.prems obtain y where y: "f x = Ok y" "P y" by auto
  from Cons obtain ys where ys: "omap f xs = Ok ys" "\<forall>y \<in> set ys. P y" by auto
  from y ys show ?case by simp
qed simp

lemma omap_not_UB: "(\<And>x. x \<in> set xs \<Longrightarrow> defined (f x)) \<Longrightarrow> defined (omap f xs)"
  by (induction xs) (auto intro!: defined_intros)

lemma ofold_invariant:
  assumes "ofold f xs s = Ok t" "P s"
    and "\<And>x s t. x \<in> set xs \<Longrightarrow> P s \<Longrightarrow> f x s = Ok t \<Longrightarrow> P t"
  shows "P t"
  using assms
proof (induction xs arbitrary: s)
  case (Cons x xs)
  then obtain u where u: "f x s = Ok u" "ofold f xs u = Ok t"
    by (auto simp: outcome_simps)
  show ?case
    by (rule Cons.IH [OF u(2)]) (use Cons.prems u(1) in auto)
qed simp

lemma list_induct_snoc: "P [] \<Longrightarrow> (\<And>x xs. P xs \<Longrightarrow> P (xs @ [x])) \<Longrightarrow> P xs"
  by (rule rev_induct)

section \<open>Machine integers\<close>

type_synonym u8 = "8 word"
type_synonym i64 = "64 word"

definition in_i64 :: "int \<Rightarrow> bool" where
  "in_i64 i \<longleftrightarrow> -(2 ^ 63) \<le> i \<and> i < 2 ^ 63"

definition in_i32 :: "int \<Rightarrow> bool" where
  "in_i32 i \<longleftrightarrow> -(2 ^ 31) \<le> i \<and> i < 2 ^ 31"

lemma sint_in_i64 [simp]: "in_i64 (sint (x :: i64))"
  using sint_range_size [of x] by (simp add: in_i64_def word_size)

lemma sint_word_of_int_i64 [simp]: "in_i64 i \<Longrightarrow> sint (word_of_int i :: i64) = i"
  by (simp add: in_i64_def sint_sbintrunc' signed_take_bit_int_eq_self)

lemma sint_word_of_int_i32: "in_i32 i \<Longrightarrow> sint (word_of_int i :: 32 word) = i"
  by (simp add: in_i32_def sint_sbintrunc' signed_take_bit_int_eq_self)

lemma word_of_int_eq_iff_i64: "in_i64 i \<Longrightarrow> in_i64 j \<Longrightarrow> (word_of_int i :: i64) = word_of_int j \<longleftrightarrow> i = j"
  by (metis sint_word_of_int_i64)

section \<open>C strings\<close>

definition nul :: char where
  "nul = CHR 0x00"

definition c_str :: "string \<Rightarrow> string" where
  \<comment> \<open>the bytes a C string function sees: up to the first NUL\<close>
  "c_str s = takeWhile (\<lambda>c. c \<noteq> nul) s"

lemma nul_not_in_literal [simp]: "nul \<noteq> CHR ''-''" "nul \<noteq> CHR ''0''" "nul \<noteq> CHR ''.''"
    "nul \<noteq> CHR '' ''" "nul \<noteq> CHR '',''" "nul \<noteq> CHR ''e''" "nul \<noteq> CHR ''+''" "nul \<noteq> CHR '':''"
  by (simp_all add: nul_def)

lemma nul_not_in_c_str [simp]: "nul \<notin> set (c_str s)"
  by (auto simp: c_str_def dest: set_takeWhileD)

lemma c_str_id: "nul \<notin> set s \<Longrightarrow> c_str s = s"
  by (simp add: c_str_def takeWhile_eq_all_conv) blast

lemma c_str_c_str [simp]: "c_str (c_str s) = c_str s"
  by (simp add: c_str_id)

lemma c_str_Nil [simp]: "c_str [] = []"
  by (simp add: c_str_def)

lemma length_c_str_le: "length (c_str s) \<le> length s"
  by (simp add: c_str_def length_takeWhile_le)

fun strcmp :: "string \<Rightarrow> string \<Rightarrow> int" where
  \<comment> \<open>on NUL-free strings; bytes compare as \<open>unsigned char\<close>\<close>
  "strcmp [] [] = 0"
| "strcmp [] (b # bs) = -1"
| "strcmp (a # as) [] = 1"
| "strcmp (a # as) (b # bs) =
     (if a < b then -1 else if b < a then 1 else strcmp as bs)"

lemma strcmp_eq_0 [simp]: "strcmp a b = 0 \<longleftrightarrow> a = b"
  by (induction a b rule: strcmp.induct) auto

lemma strcmp_less: "strcmp a b < 0 \<longleftrightarrow> a < b"
  by (induction a b rule: strcmp.induct) auto

lemma strcmp_greater: "strcmp a b > 0 \<longleftrightarrow> b < a"
  by (induction a b rule: strcmp.induct) auto

text \<open>Decimal digits, as \<open>printf\<close> writes them.\<close>

definition digit_char :: "nat \<Rightarrow> char" where
  "digit_char d = char_of (48 + d)"

function show_pos :: "int \<Rightarrow> string" where
  "show_pos n =
     (if n < 10 then [digit_char (nat n)] else show_pos (n div 10) @ [digit_char (nat (n mod 10))])"
  by pat_completeness auto
termination
  by (relation "measure nat") auto

declare show_pos.simps [simp del]

definition show_int :: "int \<Rightarrow> string" where
  "show_int i = (if i < 0 then CHR ''-'' # show_pos (- i) else show_pos i)"

lemma show_pos_not_Nil [simp]: "show_pos n \<noteq> []"
  by (subst show_pos.simps) simp

lemma of_char_digit_char: "d < 10 \<Longrightarrow> of_char (digit_char d) = (48 + d :: nat)"
  by (simp add: digit_char_def of_char_of)

lemma digit_char_not_nul: "d < 10 \<Longrightarrow> digit_char d \<noteq> nul"
  using of_char_digit_char [of d] by (auto simp: nul_def)

lemma show_pos_not_nul: "nul \<notin> set (show_pos n)"
proof (induction n rule: show_pos.induct)
  case (1 n)
  have "nul \<noteq> digit_char (nat (n mod 10))" "n < 10 \<Longrightarrow> nul \<noteq> digit_char (nat n)"
    by (rule digit_char_not_nul [symmetric], linarith)+
  with 1 show ?case by (subst show_pos.simps) auto
qed

lemma show_int_not_nul: "nul \<notin> set (show_int i)"
  by (simp add: show_int_def show_pos_not_nul)

primrec join_with :: "string \<Rightarrow> string list \<Rightarrow> string" where
  "join_with sep [] = []"
| "join_with sep (x # xs) = (if xs = [] then x else x @ sep @ join_with sep xs)"

lemma join_with_not_nul:
  "nul \<notin> set sep \<Longrightarrow> \<forall>x \<in> set xs. nul \<notin> set x \<Longrightarrow> nul \<notin> set (join_with sep xs)"
  by (induction xs) auto

end
