(* ===== verification/Doubles.thy ===== *)
theory Doubles
  imports Prelude
begin

text \<open>
  C \<open>double\<close> values as IEEE 754 binary64 bit patterns (\<open>64 word\<close>), with the operations the runtime
  uses, computed exactly on integers and rounded once to nearest, ties to even: \<open>+ - * /\<close>,
  \<open>fmod\<close>, \<open>sqrt\<close>, \<open>floor\<close>, \<open>ceil\<close>, \<open>round\<close>, the comparisons, the conversions from and to
  \<open>int64_t\<close>, and \<open>printf("%.14g")\<close>. A NaN result is the quiet NaN with an empty payload.
  Magnitudes are ordered as their bit patterns, which gives the comparisons; a finite value is
  \<open>f_man x * 2 ^ f_ex x\<close> up to its sign.
\<close>

section \<open>Representation\<close>

type_synonym f64 = "64 word"

definition f_sign :: "f64 \<Rightarrow> bool" where
  "f_sign x \<longleftrightarrow> 2 ^ 63 \<le> uint x"

definition f_mag :: "f64 \<Rightarrow> int" where
  "f_mag x = uint x mod 2 ^ 63"

definition f_inf_mag :: int where
  "f_inf_mag = 0x7FF0000000000000"

definition f_pack :: "bool \<Rightarrow> int \<Rightarrow> f64" where
  "f_pack s m = word_of_int (if s then 2 ^ 63 + m else m)"

definition f_nan :: f64 where
  "f_nan = 0x7FF8000000000000"

definition f_inf :: "bool \<Rightarrow> f64" where
  "f_inf s = f_pack s f_inf_mag"

definition f_isnan :: "f64 \<Rightarrow> bool" where
  "f_isnan x \<longleftrightarrow> f_mag x > f_inf_mag"

definition f_isinf :: "f64 \<Rightarrow> bool" where
  "f_isinf x \<longleftrightarrow> f_mag x = f_inf_mag"

definition f_iszero :: "f64 \<Rightarrow> bool" where
  "f_iszero x \<longleftrightarrow> f_mag x = 0"

definition f_man :: "f64 \<Rightarrow> int" where
  "f_man x = (let e = f_mag x div 2 ^ 52; f = f_mag x mod 2 ^ 52 in if e = 0 then f else f + 2 ^ 52)"

definition f_ex :: "f64 \<Rightarrow> int" where
  "f_ex x = max 1 (f_mag x div 2 ^ 52) - 1075"

definition f_neg :: "f64 \<Rightarrow> f64" where
  "f_neg x = f_pack (\<not> f_sign x) (f_mag x)"

definition f_abs :: "f64 \<Rightarrow> f64" where
  "f_abs x = f_pack False (f_mag x)"

section \<open>Comparison\<close>

definition f_key :: "f64 \<Rightarrow> int" where
  "f_key x = (if f_sign x then - f_mag x else f_mag x)"

definition f_eq :: "f64 \<Rightarrow> f64 \<Rightarrow> bool" where
  "f_eq x y \<longleftrightarrow> \<not> f_isnan x \<and> \<not> f_isnan y \<and> f_key x = f_key y"

definition f_lt :: "f64 \<Rightarrow> f64 \<Rightarrow> bool" where
  "f_lt x y \<longleftrightarrow> \<not> f_isnan x \<and> \<not> f_isnan y \<and> f_key x < f_key y"

definition f_le :: "f64 \<Rightarrow> f64 \<Rightarrow> bool" where
  "f_le x y \<longleftrightarrow> \<not> f_isnan x \<and> \<not> f_isnan y \<and> f_key x \<le> f_key y"

section \<open>Rounding\<close>

function nbits :: "int \<Rightarrow> int" where
  "nbits n = (if n \<le> 0 then 0 else 1 + nbits (n div 2))"
  by pat_completeness auto
termination
  by (relation "measure nat") auto

declare nbits.simps [simp del]

definition shift_ratio :: "int \<Rightarrow> int \<Rightarrow> int \<Rightarrow> int \<times> int" where
  \<comment> \<open>the ratio \<open>n / d * 2 ^ k\<close>\<close>
  "shift_ratio n d k = (if 0 \<le> k then (n * 2 ^ nat k, d) else (n, d * 2 ^ nat (- k)))"

definition floor_log2 :: "int \<Rightarrow> int \<Rightarrow> int" where
  "floor_log2 n d =
     (let l = nbits n - nbits d; (n', d') = shift_ratio n d (- l)
      in if d' \<le> n' then l else l - 1)"

definition div_even :: "int \<Rightarrow> int \<Rightarrow> int" where
  \<comment> \<open>\<open>n / d\<close> to the nearest integer, ties to even\<close>
  "div_even n d =
     (let q = n div d; r = n mod d
      in if 2 * r < d then q else if d < 2 * r then q + 1 else if even q then q else q + 1)"

definition f_of_ratio :: "bool \<Rightarrow> int \<Rightarrow> int \<Rightarrow> f64" where
  "f_of_ratio s n d =
     (if n = 0 then f_pack s 0
      else let e = max (floor_log2 n d - 52) (-1074);
               (n', d') = shift_ratio n d (- e);
               m = (e + 1074) * 2 ^ 52 + div_even n' d'
           in f_pack s (min m f_inf_mag))"

definition f_of_dyadic :: "bool \<Rightarrow> int \<Rightarrow> int \<Rightarrow> f64" where
  "f_of_dyadic s m e =
     (if 0 \<le> e then f_of_ratio s (m * 2 ^ nat e) 1 else f_of_ratio s m (2 ^ nat (- e)))"

definition f_of_int :: "int \<Rightarrow> f64" where
  \<comment> \<open>\<open>(double)i\<close>\<close>
  "f_of_int i = f_of_ratio (i < 0) \<bar>i\<bar> 1"

section \<open>Arithmetic\<close>

definition f_smag :: "f64 \<Rightarrow> int \<Rightarrow> int" where
  \<comment> \<open>the signed mantissa of a finite value at exponent \<open>e \<le> f_ex x\<close>\<close>
  "f_smag x e = (if f_sign x then -1 else 1) * f_man x * 2 ^ nat (f_ex x - e)"

definition f_add :: "f64 \<Rightarrow> f64 \<Rightarrow> f64" where
  "f_add x y =
     (if f_isnan x \<or> f_isnan y then f_nan
      else if f_isinf x then (if f_isinf y \<and> f_sign x \<noteq> f_sign y then f_nan else x)
      else if f_isinf y then y
      else let e = min (f_ex x) (f_ex y); t = f_smag x e + f_smag y e
           in if t = 0 then f_pack (f_sign x \<and> f_sign y) 0 else f_of_dyadic (t < 0) \<bar>t\<bar> e)"

definition f_sub :: "f64 \<Rightarrow> f64 \<Rightarrow> f64" where
  "f_sub x y = f_add x (f_neg y)"

definition f_mul :: "f64 \<Rightarrow> f64 \<Rightarrow> f64" where
  "f_mul x y =
     (let s = (f_sign x \<noteq> f_sign y)
      in if f_isnan x \<or> f_isnan y then f_nan
         else if f_isinf x then (if f_iszero y then f_nan else f_inf s)
         else if f_isinf y then (if f_iszero x then f_nan else f_inf s)
         else f_of_dyadic s (f_man x * f_man y) (f_ex x + f_ex y))"

definition f_div :: "f64 \<Rightarrow> f64 \<Rightarrow> f64" where
  "f_div x y =
     (let s = (f_sign x \<noteq> f_sign y)
      in if f_isnan x \<or> f_isnan y then f_nan
         else if f_isinf x then (if f_isinf y then f_nan else f_inf s)
         else if f_isinf y then f_pack s 0
         else if f_iszero y then (if f_iszero x then f_nan else f_inf s)
         else let (n, d) = shift_ratio (f_man x) (f_man y) (f_ex x - f_ex y) in f_of_ratio s n d)"

definition f_fmod :: "f64 \<Rightarrow> f64 \<Rightarrow> f64" where
  "f_fmod x y =
     (if f_isnan x \<or> f_isnan y \<or> f_isinf x \<or> f_iszero y then f_nan
      else if f_isinf y then x
      else let e = min (f_ex x) (f_ex y);
               r = (f_man x * 2 ^ nat (f_ex x - e)) mod (f_man y * 2 ^ nat (f_ex y - e))
           in f_of_dyadic (f_sign x) r e)"

section \<open>Conversion to integers\<close>

definition f_trunc_mag :: "f64 \<Rightarrow> int" where
  "f_trunc_mag x =
     (if 0 \<le> f_ex x then f_man x * 2 ^ nat (f_ex x) else f_man x div 2 ^ nat (- f_ex x))"

definition f_has_frac :: "f64 \<Rightarrow> bool" where
  "f_has_frac x \<longleftrightarrow> f_ex x < 0 \<and> f_man x mod 2 ^ nat (- f_ex x) \<noteq> 0"

definition f_to_int :: "f64 \<Rightarrow> i64 outcome" where
  \<comment> \<open>\<open>(int64_t)f\<close>: undefined when the truncated value does not fit\<close>
  "f_to_int x =
     (if f_isnan x \<or> f_isinf x then UB FloatRange
      else let i = (if f_sign x then - f_trunc_mag x else f_trunc_mag x)
           in if in_i64 i then Ok (word_of_int i) else UB FloatRange)"

definition f_floor :: "f64 \<Rightarrow> f64" where
  "f_floor x =
     (if f_isnan x then f_nan else if f_isinf x then x
      else f_of_ratio (f_sign x) (f_trunc_mag x + (if f_sign x \<and> f_has_frac x then 1 else 0)) 1)"

definition f_ceil :: "f64 \<Rightarrow> f64" where
  "f_ceil x =
     (if f_isnan x then f_nan else if f_isinf x then x
      else f_of_ratio (f_sign x) (f_trunc_mag x + (if \<not> f_sign x \<and> f_has_frac x then 1 else 0)) 1)"

definition f_round :: "f64 \<Rightarrow> f64" where
  \<comment> \<open>\<open>round\<close>: half-way cases away from zero\<close>
  "f_round x =
     (if f_isnan x then f_nan else if f_isinf x then x
      else if 0 \<le> f_ex x then x
      else f_of_ratio (f_sign x) ((2 * f_man x + 2 ^ nat (- f_ex x)) div 2 ^ nat (1 - f_ex x)) 1)"

function isqrt_bits :: "int \<Rightarrow> int \<Rightarrow> int \<Rightarrow> int" where
  \<comment> \<open>adds the bits of weight \<open>b\<close> and below to the root found so far\<close>
  "isqrt_bits m r b =
     (if b \<le> 0 then r
      else isqrt_bits m (if (r + b) * (r + b) \<le> m then r + b else r) (b div 2))"
  by pat_completeness auto
termination
  by (relation "measure (\<lambda>(m, r, b). nat b)") auto

declare isqrt_bits.simps [simp del]

definition f_sqrt :: "f64 \<Rightarrow> f64" where
  "f_sqrt x =
     (if f_isnan x then f_nan
      else if f_iszero x then x
      else if f_sign x then f_nan
      else if f_isinf x then x
      else let k = 110 - nbits (f_man x);
               k' = (if even (f_ex x - k) then k else k + 1);
               m = f_man x * 2 ^ nat k';
               r = isqrt_bits m 0 (2 ^ 56);
               t = 2 * r + (if r * r = m then 0 else 1)
           in f_of_dyadic False t ((f_ex x - k') div 2 - 1))"

section \<open>Printing with \<open>%.14g\<close>\<close>

function ndigits :: "int \<Rightarrow> int" where
  "ndigits n = (if n \<le> 0 then 0 else 1 + ndigits (n div 10))"
  by pat_completeness auto
termination
  by (relation "measure nat") auto

declare ndigits.simps [simp del]

definition scale10 :: "int \<Rightarrow> int \<Rightarrow> int \<Rightarrow> int \<times> int" where
  "scale10 n d k = (if 0 \<le> k then (n * 10 ^ nat k, d) else (n, d * 10 ^ nat (- k)))"

definition floor_log10 :: "int \<Rightarrow> int \<Rightarrow> int" where
  "floor_log10 n d =
     (let l = ndigits n - ndigits d; (n', d') = scale10 n d (- l)
      in if d' \<le> n' then l else l - 1)"

definition strip_zeros :: "string \<Rightarrow> string" where
  "strip_zeros s = rev (dropWhile (\<lambda>c. c = CHR ''0'') (rev s))"

definition fmt_frac :: "string \<Rightarrow> string \<Rightarrow> string" where
  \<comment> \<open>integer part and fraction, the fraction without its trailing zeros\<close>
  "fmt_frac i f = (let g = strip_zeros f in if g = [] then i else i @ ''.'' @ g)"

definition fmt_digits :: "int \<Rightarrow> int \<Rightarrow> string" where
  \<comment> \<open>14 significant digits \<open>D\<close> of a number whose decimal exponent is \<open>X\<close>\<close>
  "fmt_digits D X =
     (let ds = show_int D in
      if -4 \<le> X \<and> X < 14
      then if 0 \<le> X then fmt_frac (take (nat X + 1) ds) (drop (nat X + 1) ds)
           else fmt_frac ''0'' (replicate (nat (- X) - 1) CHR ''0'' @ ds)
      else fmt_frac (take 1 ds) (drop 1 ds) @ ''e'' @ (if X < 0 then ''-'' else ''+'') @
           (if \<bar>X\<bar> < 10 then ''0'' else '''') @ show_int \<bar>X\<bar>)"

definition fmt_ratio :: "int \<Rightarrow> int \<Rightarrow> string" where
  "fmt_ratio n d =
     (let X = floor_log10 n d; (n', d') = scale10 n d (13 - X); D = div_even n' d'
      in if D = 10 ^ 14 then fmt_digits (10 ^ 13) (X + 1) else fmt_digits D X)"

definition f_show :: "f64 \<Rightarrow> string" where
  \<comment> \<open>\<open>sprintf(buf, "%.14g", f)\<close> on a finite value\<close>
  "f_show x =
     (if f_sign x then ''-'' else '''') @
     (if f_iszero x then ''0''
      else if 0 \<le> f_ex x then fmt_ratio (f_man x * 2 ^ nat (f_ex x)) 1
      else fmt_ratio (f_man x) (2 ^ nat (- f_ex x)))"

lemma strip_zeros_subset: "set (strip_zeros s) \<subseteq> set s"
  by (auto simp: strip_zeros_def dest: set_dropWhileD)

lemma fmt_frac_not_nul: "nul \<notin> set i \<Longrightarrow> nul \<notin> set f \<Longrightarrow> nul \<notin> set (fmt_frac i f)"
  using strip_zeros_subset [of f] by (auto simp: fmt_frac_def Let_def)

lemma fmt_digits_not_nul: "nul \<notin> set (fmt_digits D X)"
proof -
  have "nul \<notin> set (take k (show_int i))" "nul \<notin> set (drop k (show_int i))" for k i
    using show_int_not_nul set_take_subset set_drop_subset by (metis subsetD)+
  then show ?thesis
    by (simp add: fmt_digits_def Let_def show_int_not_nul fmt_frac_not_nul set_replicate_conv_if)
qed

lemma f_show_not_nul: "nul \<notin> set (f_show x)"
  by (auto simp: f_show_def fmt_ratio_def fmt_digits_not_nul Let_def split: prod.splits)

end
