(* ===== verification/Values.thy ===== *)
theory Values
  imports Prelude Doubles
begin

text \<open>
  The value model and the reference counts (\<open>Value\<close>, \<open>RcString\<close>, \<open>RcArray\<close>, \<open>MapNode\<close>, \<open>RcMap\<close> of
  \<open>vm/pyro_runtime.h\<close>; the creators, \<open>retain_value\<close> and \<open>release_value\<close> of \<open>vm/pyro_runtime.c\<close>).

  The C heap is a list of cells, the address of a cell is its index, a freed cell is \<open>None\<close>, and an
  address is never handed out twice, so an access through a dangling pointer is always visible as
  \<open>UB DanglingPtr\<close>. Allocation does not fail, hence no pointer is \<open>NULL\<close> except the captures of a
  function value, which the code passes as \<open>NULL\<close> itself. Counters are mathematical integers.

  \<open>rc_sound R h\<close> is the ownership invariant behind the reference counts: \<open>R\<close> lists the references
  held outside the heap (stack slots, locals, constants, temporaries); every reference points to a
  live cell of the right kind, and no cell has more references than its counter says. Releasing one
  of the references keeps it, returns, and never touches a freed cell.
\<close>

section \<open>Values and the heap\<close>

type_synonym addr = nat

datatype val =
    VInt i64
  | VFloat f64
  | VBool bool
  | VStr addr
  | VNull
  | VArr addr
  | VMap addr
  | VFunc "32 word" "addr option"

datatype body =
    BStr string                                    \<comment> \<open>\<open>length\<close> and \<open>chars\<close>\<close>
  | BArr "val list" nat                            \<comment> \<open>the elements, \<open>capacity\<close>\<close>
  | BMap "(val \<times> val) list list" nat          \<comment> \<open>\<open>buckets\<close> (\<open>capacity\<close> of them), \<open>size\<close>\<close>

record cell =
  rc :: int
  cbody :: body

type_synonym heap = "cell option list"

definition hget :: "heap \<Rightarrow> addr \<Rightarrow> cell option" where
  "hget h a = (if a < length h then h ! a else None)"

definition deref :: "heap \<Rightarrow> addr \<Rightarrow> cell outcome" where
  "deref h a = (case hget h a of None \<Rightarrow> UB DanglingPtr | Some c \<Rightarrow> Ok c)"

definition hput :: "heap \<Rightarrow> addr \<Rightarrow> cell \<Rightarrow> heap" where
  "hput h a c = h[a := Some c]"

definition hfree :: "heap \<Rightarrow> addr \<Rightarrow> heap" where
  "hfree h a = h[a := None]"

definition halloc :: "body \<Rightarrow> heap \<Rightarrow> addr \<times> heap" where
  "halloc b h = (length h, h @ [Some \<lparr>rc = 1, cbody = b\<rparr>])"

definition deref_str :: "heap \<Rightarrow> addr \<Rightarrow> string outcome" where
  "deref_str h a =
     obind (deref h a) (\<lambda>c. case cbody c of BStr s \<Rightarrow> Ok s | _ \<Rightarrow> UB DanglingPtr)"

definition deref_arr :: "heap \<Rightarrow> addr \<Rightarrow> (val list \<times> nat) outcome" where
  "deref_arr h a =
     obind (deref h a) (\<lambda>c. case cbody c of BArr xs cap \<Rightarrow> Ok (xs, cap) | _ \<Rightarrow> UB DanglingPtr)"

definition deref_map :: "heap \<Rightarrow> addr \<Rightarrow> ((val \<times> val) list list \<times> nat) outcome" where
  "deref_map h a =
     obind (deref h a) (\<lambda>c. case cbody c of BMap bs n \<Rightarrow> Ok (bs, n) | _ \<Rightarrow> UB DanglingPtr)"

definition hset_body :: "heap \<Rightarrow> addr \<Rightarrow> body \<Rightarrow> heap outcome" where
  \<comment> \<open>writes through the pointer; the counter stays\<close>
  "hset_body h a b = obind (deref h a) (\<lambda>c. Ok (hput h a (c\<lparr>cbody := b\<rparr>)))"

primrec val_addr :: "val \<Rightarrow> addr option" where
  "val_addr (VInt i) = None"
| "val_addr (VFloat f) = None"
| "val_addr (VBool b) = None"
| "val_addr (VStr a) = Some a"
| "val_addr VNull = None"
| "val_addr (VArr a) = Some a"
| "val_addr (VMap a) = Some a"
| "val_addr (VFunc f c) = c"

primrec children :: "body \<Rightarrow> val list" where
  \<comment> \<open>the values a cell holds, in the order \<open>release_value\<close> visits them\<close>
  "children (BStr s) = []"
| "children (BArr xs cap) = xs"
| "children (BMap bs n) = concat (map (\<lambda>(k, v). [k, v]) (concat bs))"

section \<open>Creators\<close>

definition new_rc_string :: "string \<Rightarrow> heap \<Rightarrow> addr \<times> heap" where
  "new_rc_string s h = halloc (BStr s) h"

definition val_str :: "string \<Rightarrow> heap \<Rightarrow> val \<times> heap" where
  "val_str s h = (let (a, h') = new_rc_string s h in (VStr a, h'))"

definition incref :: "addr \<Rightarrow> heap \<Rightarrow> heap outcome" where
  \<comment> \<open>\<open>p->ref_count++\<close>\<close>
  "incref a h = obind (deref h a) (\<lambda>c. Ok (hput h a (c\<lparr>rc := rc c + 1\<rparr>)))"

definition val_str_rc :: "addr \<Rightarrow> heap \<Rightarrow> (val \<times> heap) outcome" where
  "val_str_rc a h = obind (incref a h) (\<lambda>h'. Ok (VStr a, h'))"

definition val_array :: "addr \<Rightarrow> heap \<Rightarrow> (val \<times> heap) outcome" where
  "val_array a h = obind (incref a h) (\<lambda>h'. Ok (VArr a, h'))"

definition val_map :: "addr \<Rightarrow> heap \<Rightarrow> (val \<times> heap) outcome" where
  "val_map a h = obind (incref a h) (\<lambda>h'. Ok (VMap a, h'))"

definition val_func :: "32 word \<Rightarrow> addr option \<Rightarrow> val" where
  \<comment> \<open>takes the captures over, without a retain\<close>
  "val_func f cap = VFunc f cap"

definition as_i :: "val \<Rightarrow> i64 outcome" where
  \<comment> \<open>reading \<open>v.as.i\<close> whatever the kind: the union's other members overlay it\<close>
  "as_i v = (case v of VInt i \<Rightarrow> Ok i | VFloat f \<Rightarrow> Ok f | VBool b \<Rightarrow> Ok (if b then 1 else 0)
     | VNull \<Rightarrow> Ok 0 | VFunc f None \<Rightarrow> Ok 0 | _ \<Rightarrow> UB PtrBits)"

section \<open>Retain and release\<close>

definition retain_value :: "val \<Rightarrow> heap \<Rightarrow> heap outcome" where
  "retain_value v h = (case val_addr v of None \<Rightarrow> Ok h | Some a \<Rightarrow> incref a h)"

text \<open>
  \<open>release_value\<close> decrements; at zero it first releases what the object holds, in order, and then
  frees it. The recursion depth is bounded by the number of cells: a cell that is entered twice on
  the same path keeps a counter at or below zero and is entered forever, so running out of fuel is
  exactly the unbounded recursion of the code.
\<close>

primrec release_fuel :: "nat \<Rightarrow> val \<Rightarrow> heap \<Rightarrow> heap outcome" where
  "release_fuel 0 v h = (case val_addr v of None \<Rightarrow> Ok h | Some a \<Rightarrow> Diverge)"
| "release_fuel (Suc n) v h =
     (case val_addr v of
        None \<Rightarrow> Ok h
      | Some a \<Rightarrow> obind (deref h a) (\<lambda>c.
          let c' = c\<lparr>rc := rc c - 1\<rparr>; h1 = hput h a c'
          in if 0 < rc c' then Ok h1
             else obind (ofold (release_fuel n) (children (cbody c')) h1) (\<lambda>h2.
                    obind (deref h2 a) (\<lambda>_. Ok (hfree h2 a)))))"

definition release_value :: "val \<Rightarrow> heap \<Rightarrow> heap outcome" where
  "release_value v h = release_fuel (length h) v h"

definition release_all :: "val list \<Rightarrow> heap \<Rightarrow> heap outcome" where
  "release_all vs h = ofold release_value vs h"

section \<open>Basic facts about the heap\<close>

lemma hget_hput [simp]: "hget (hput h a c) x = (if x = a \<and> a < length h then Some c else hget h x)"
  by (auto simp: hget_def hput_def)

lemma hget_hfree [simp]: "hget (hfree h a) x = (if x = a then None else hget h x)"
  by (auto simp: hget_def hfree_def)

lemma length_hput [simp]: "length (hput h a c) = length h"
  by (simp add: hput_def)

lemma length_hfree [simp]: "length (hfree h a) = length h"
  by (simp add: hfree_def)

lemma hget_Some_less: "hget h a = Some c \<Longrightarrow> a < length h"
  by (simp add: hget_def split: if_splits)

lemma hget_append [simp]:
  "hget (h @ [x]) a = (if a < length h then hget h a else if a = length h then x else None)"
  by (auto simp: hget_def nth_append)

lemma deref_Ok_iff [simp]: "deref h a = Ok c \<longleftrightarrow> hget h a = Some c"
  by (simp add: deref_def split: option.splits)

lemma deref_not_Fatal [simp]: "deref h a \<noteq> Fatal e" "deref h a \<noteq> Diverge"
  by (simp_all add: deref_def split: option.splits)

lemma deref_Some [simp]: "hget h a = Some c \<Longrightarrow> deref h a = Ok c"
  by simp

section \<open>The ownership invariant\<close>

definition kind_ok :: "val \<Rightarrow> body \<Rightarrow> bool" where
  "kind_ok v b = (case b of
       BStr s \<Rightarrow> (case v of VStr a \<Rightarrow> True | _ \<Rightarrow> False)
     | BArr xs cap \<Rightarrow> (case v of VArr a \<Rightarrow> True | VFunc f c \<Rightarrow> True | _ \<Rightarrow> False)
     | BMap bs n \<Rightarrow> (case v of VMap a \<Rightarrow> True | _ \<Rightarrow> False))"

definition val_ok :: "heap \<Rightarrow> val \<Rightarrow> bool" where
  "val_ok h v = (case val_addr v of None \<Rightarrow> True
     | Some a \<Rightarrow> (case hget h a of None \<Rightarrow> False | Some c \<Rightarrow> kind_ok v (cbody c)))"

definition occ :: "addr \<Rightarrow> val list \<Rightarrow> nat" where
  "occ a vs = length (filter (\<lambda>v. val_addr v = Some a) vs)"

definition held :: "heap \<Rightarrow> addr set \<Rightarrow> nat \<Rightarrow> val list" where
  \<comment> \<open>the references cell \<open>i\<close> holds; cells of \<open>D\<close> are being torn down and hold none\<close>
  "held h D i = (if i \<in> D then [] else case h ! i of None \<Rightarrow> [] | Some c \<Rightarrow> children (cbody c))"

definition all_held :: "heap \<Rightarrow> addr set \<Rightarrow> val list" where
  "all_held h D = concat (map (held h D) [0..<length h])"

definition cell_sound :: "heap \<Rightarrow> addr set \<Rightarrow> val list \<Rightarrow> addr \<Rightarrow> bool" where
  "cell_sound h D R a =
     (case hget h a of
        None \<Rightarrow> a \<notin> D
      | Some c \<Rightarrow>
          (let refs = occ a (R @ all_held h D)
           in if a \<in> D then refs = 0 else 1 \<le> rc c \<and> int refs \<le> rc c))"

definition rc_inv :: "addr set \<Rightarrow> val list \<Rightarrow> heap \<Rightarrow> bool" where
  "rc_inv D R h \<longleftrightarrow>
     (\<forall>a < length h. cell_sound h D R a) \<and> list_all (val_ok h) (R @ all_held h D)"

definition rc_sound :: "val list \<Rightarrow> heap \<Rightarrow> bool" where
  "rc_sound R h \<longleftrightarrow> rc_inv {} R h"

lemma occ_simps [simp]:
  "occ a [] = 0"
  "occ a (v # vs) = (if val_addr v = Some a then 1 else 0) + occ a vs"
  "occ a (xs @ ys) = occ a xs + occ a ys"
  by (simp_all add: occ_def)

lemma occ_pos_iff: "0 < occ a vs \<longleftrightarrow> (\<exists>v \<in> set vs. val_addr v = Some a)"
  by (induction vs) auto

lemma all_held_split:
  "a < length h \<Longrightarrow> all_held h D =
     concat (map (held h D) [0..<a]) @ held h D a @ concat (map (held h D) [Suc a..<length h])"
proof -
  assume a: "a < length h"
  then have "[0..<length h] = [0..<a] @ a # [Suc a..<length h]"
    by (metis less_imp_le_nat upt_add_eq_append upt_conv_Cons zero_le le_add_diff_inverse add_0)
  then show ?thesis
    by (simp add: all_held_def)
qed

lemma held_other: "i \<noteq> a \<Longrightarrow> held (h[a := x]) D i = held h D i"
  by (simp add: held_def)

lemma held_insert_other: "i \<noteq> a \<Longrightarrow> held h (insert a D) i = held h D i"
  by (simp add: held_def)

lemma map_held_other:
  "a \<notin> set is \<Longrightarrow> map (held (h[a := x]) D) is = map (held h D) is"
  by (rule map_cong) (auto intro!: held_other)

lemma map_held_insert:
  "a \<notin> set is \<Longrightarrow> map (held h (insert a D)) is = map (held h D) is"
  by (rule map_cong) (auto intro!: held_insert_other)

lemma occ_zero: "(\<And>v. v \<in> set vs \<Longrightarrow> val_addr v \<noteq> Some a) \<Longrightarrow> occ a vs = 0"
  by (induction vs) auto

text \<open>What a write to one cell does to the references held in the heap.\<close>

lemma occ_all_held_upd:
  assumes "a < length h"
  shows "occ x (all_held (h[a := c]) D) + occ x (held h D a)
       = occ x (all_held h D) + occ x (held (h[a := c]) D a)"
  using assms
  by (simp add: all_held_split [of a] map_held_other)

lemma set_all_held_upd:
  assumes "a < length h"
  shows "set (all_held (h[a := c]) D) \<subseteq> set (all_held h D) \<union> set (held (h[a := c]) D a)"
  using assms
  by (auto simp: all_held_split [of a] map_held_other)

lemma occ_all_held_insert:
  assumes "a < length h"
  shows "occ x (all_held h D) + occ x (held h (insert a D) a)
       = occ x (all_held h (insert a D)) + occ x (held h D a)"
  using assms
  by (simp add: all_held_split [of a] map_held_insert)

lemma all_held_append:
  "length h \<notin> D \<Longrightarrow> all_held (h @ [Some c]) D = all_held h D @ children (cbody c)"
proof -
  assume D: "length h \<notin> D"
  have "map (held (h @ [Some c]) D) [0..<length h] = map (held h D) [0..<length h]"
    by (rule map_cong) (auto simp: held_def nth_append)
  moreover have "held (h @ [Some c]) D (length h) = children (cbody c)"
    using D by (simp add: held_def)
  ultimately have "map (held (h @ [Some c]) D) ([0..<length h] @ [length h])
      = map (held h D) [0..<length h] @ [children (cbody c)]"
    by simp
  then show ?thesis
    unfolding all_held_def by (simp del: map_eq_conv map_append)
qed

end
