(* ===== verification/RefCount.thy ===== *)
theory RefCount
  imports Values "HOL-Library.Multiset"
begin

text \<open>
  The ownership invariant \<open>rc_inv D R h\<close> is kept by \<open>retain_value\<close>, by \<open>release_value\<close> and by
  allocation. \<open>D\<close> is the set of cells that are being torn down: their counters reached zero, what
  they hold is being released, and nothing else points to them. The main result is that
  \<open>release_value\<close> on an owned reference terminates within the fuel it is given, frees only cells
  without remaining references, and never touches a freed cell.
\<close>

section \<open>Reading the invariant\<close>

lemma rc_inv_cells: "rc_inv D R h \<Longrightarrow> a < length h \<Longrightarrow> cell_sound h D R a"
  by (simp add: rc_inv_def)

lemma rc_inv_val_ok: "rc_inv D R h \<Longrightarrow> v \<in> set R \<union> set (all_held h D) \<Longrightarrow> val_ok h v"
  by (auto simp: rc_inv_def list_all_iff)

lemma rc_invI:
  assumes "\<And>a. a < length h \<Longrightarrow> cell_sound h D R a"
    and "\<And>v. v \<in> set R \<union> set (all_held h D) \<Longrightarrow> val_ok h v"
  shows "rc_inv D R h"
  using assms by (auto simp: rc_inv_def list_all_iff)

lemma rc_inv_live:
  assumes "rc_inv D R h" "v \<in> set R \<union> set (all_held h D)" "val_addr v = Some a"
  obtains c where "hget h a = Some c" "kind_ok v (cbody c)" "a \<notin> D" "1 \<le> rc c"
    "int (occ a (R @ all_held h D)) \<le> rc c"
proof -
  from rc_inv_val_ok [OF assms(1,2)] assms(3) obtain c where c: "hget h a = Some c" "kind_ok v (cbody c)"
    by (auto simp: val_ok_def split: option.splits)
  from assms(2,3) have "0 < occ a (R @ all_held h D)"
    unfolding occ_pos_iff by auto
  with rc_inv_cells [OF assms(1) hget_Some_less [OF c(1)]] c that show ?thesis
    by (auto simp: cell_sound_def Let_def split: if_splits)
qed

section \<open>Changing a counter\<close>

lemma held_rc_upd [simp]:
  "hget h a = Some c \<Longrightarrow> held (hput h a (c\<lparr>rc := k\<rparr>)) D = held h D"
  by (auto simp: fun_eq_iff held_def hput_def hget_def nth_list_update split: if_splits)

lemma all_held_rc_upd [simp]:
  "hget h a = Some c \<Longrightarrow> all_held (hput h a (c\<lparr>rc := k\<rparr>)) D = all_held h D"
  by (simp add: all_held_def)

lemma val_ok_rc_upd [simp]:
  "hget h a = Some c \<Longrightarrow> val_ok (hput h a (c\<lparr>rc := k\<rparr>)) v = val_ok h v"
  by (auto simp: val_ok_def hget_Some_less split: option.splits)

lemma rc_inv_perm: "rc_inv D R h \<Longrightarrow> mset R = mset R' \<Longrightarrow> rc_inv D R' h"
proof -
  assume inv: "rc_inv D R h" and R: "mset R = mset R'"
  have occ: "occ a R = occ a R'" for a
    using arg_cong [OF R, of "\<lambda>M. size (filter_mset (\<lambda>v. val_addr v = Some a) M)"]
    by (simp add: occ_def flip: size_mset)
  have "set R = set R'"
    using R by (rule mset_eq_setD)
  moreover have "cell_sound h D R a = cell_sound h D R' a" for a
    by (simp add: cell_sound_def occ Let_def split: option.splits)
  ultimately show ?thesis
    using inv by (simp add: rc_inv_def list_all_iff)
qed

lemma rc_inv_Cons_None: "val_addr v = None \<Longrightarrow> rc_inv D (v # R) h = rc_inv D R h"
  by (simp add: rc_inv_def cell_sound_def val_ok_def Let_def split: option.splits)

lemma rc_inv_subset:
  assumes "rc_inv D (X @ R) h" shows "rc_inv D R h"
proof (rule rc_invI)
  fix a assume "a < length h"
  with assms have "cell_sound h D (X @ R) a" by (rule rc_inv_cells)
  then show "cell_sound h D R a"
    by (auto simp: cell_sound_def Let_def split: option.splits if_splits)
qed (use rc_inv_val_ok [OF assms] in auto)

lemma rc_inv_incr:
  assumes "rc_inv D R h" "hget h a = Some c" "a \<notin> D" "val_ok h v" "val_addr v = Some a"
  shows "rc_inv D (v # R) (hput h a (c\<lparr>rc := rc c + 1\<rparr>))"
proof (rule rc_invI)
  fix x assume "x < length (hput h a (c\<lparr>rc := rc c + 1\<rparr>))"
  then have "cell_sound h D R x" using assms(1) by (simp add: rc_inv_cells)
  then show "cell_sound (hput h a (c\<lparr>rc := rc c + 1\<rparr>)) D (v # R) x"
    using assms(2-) by (auto simp: cell_sound_def Let_def hget_Some_less split: option.splits if_splits)
qed (use assms rc_inv_val_ok [OF assms(1)] in auto)

lemma rc_inv_decr:
  assumes "rc_inv D (v # R) h" "val_addr v = Some a" "hget h a = Some c" "1 < rc c"
  shows "rc_inv D R (hput h a (c\<lparr>rc := rc c - 1\<rparr>))"
proof (rule rc_invI)
  fix x assume "x < length (hput h a (c\<lparr>rc := rc c - 1\<rparr>))"
  then have "cell_sound h D (v # R) x" using assms(1) by (simp add: rc_inv_cells)
  then show "cell_sound (hput h a (c\<lparr>rc := rc c - 1\<rparr>)) D R x"
    using assms(2-) by (auto simp: cell_sound_def Let_def hget_Some_less split: option.splits if_splits)
qed (use assms rc_inv_val_ok [OF assms(1)] in auto)

text \<open>Entering and leaving the teardown of a cell.\<close>

lemma rc_inv_enter:
  assumes inv: "rc_inv D (v # R) h" and a: "val_addr v = Some a" "hget h a = Some c" and one: "rc c \<le> 1"
  shows "rc_inv (insert a D) (children (cbody c) @ R) (hput h a (c\<lparr>rc := rc c - 1\<rparr>))" "a \<notin> D"
proof -
  let ?h = "hput h a (c\<lparr>rc := rc c - 1\<rparr>)"
  have len: "a < length h" using a(2) by (rule hget_Some_less)
  obtain c' where "hget h a = Some c'" "a \<notin> D" "int (occ a ((v # R) @ all_held h D)) \<le> rc c'"
    by (rule rc_inv_live [OF inv, of v a]) (auto simp: a(1))
  with a have aD: "a \<notin> D" and zero: "occ a R = 0" "occ a (all_held h D) = 0"
    using one by auto
  show "a \<notin> D" by (rule aD)
  have heldD: "held h D a = children (cbody c)" "held h (insert a D) a = []"
    using aD a(2) len by (simp_all add: held_def hget_def)
  have moved: "occ x (all_held h D) = occ x (all_held h (insert a D)) + occ x (children (cbody c))" for x
    using occ_all_held_insert [OF len, of x D] heldD by simp
  have sub: "set (all_held h (insert a D)) \<union> set (children (cbody c)) \<subseteq> set (all_held h D)"
    using heldD by (auto simp: all_held_split [OF len] map_held_insert)
  show "rc_inv (insert a D) (children (cbody c) @ R) ?h"
  proof (rule rc_invI)
    fix x assume "x < length ?h"
    then have "cell_sound h D (v # R) x" using inv by (simp add: rc_inv_cells)
    then show "cell_sound ?h (insert a D) (children (cbody c) @ R) x"
      using a zero moved [of x] len
      by (auto simp: cell_sound_def Let_def split: option.splits if_splits)
  next
    fix w assume "w \<in> set (children (cbody c) @ R) \<union> set (all_held ?h (insert a D))"
    then have "w \<in> set (v # R) \<union> set (all_held h D)" using sub a(2) by auto
    then show "val_ok ?h w" using rc_inv_val_ok [OF inv] a(2) by simp
  qed
qed

lemma rc_inv_free:
  assumes inv: "rc_inv (insert a D) R h" and "a \<notin> D"
  shows "rc_inv D R (hfree h a)"
proof -
  have hh: "held (hfree h a) D i = held h (insert a D) i" if "i < length h" for i
    using that by (cases "i = a") (auto simp: held_def hfree_def)
  have "map (held (hfree h a) D) [0..<length h] = map (held h (insert a D)) [0..<length h]"
    by (rule map_cong) (auto simp: hh)
  then have all: "all_held (hfree h a) D = all_held h (insert a D)"
    unfolding all_held_def by (simp only: length_hfree)
  show ?thesis
  proof (rule rc_invI)
    fix x assume "x < length (hfree h a)"
    then have "cell_sound h (insert a D) R x" using inv by (simp add: rc_inv_cells)
    then show "cell_sound (hfree h a) D R x"
      using assms(2) by (auto simp: cell_sound_def Let_def all split: option.splits if_splits)
  next
    fix w assume w: "w \<in> set R \<union> set (all_held (hfree h a) D)"
    then have ok: "val_ok h w" using rc_inv_val_ok [OF inv] by (simp add: all)
    have "val_addr w \<noteq> Some a"
    proof
      assume "val_addr w = Some a"
      then obtain c where "a \<notin> insert a D"
        using w rc_inv_live [OF inv, of w a] by (auto simp: all)
      then show False by simp
    qed
    then show "val_ok (hfree h a) w" using ok by (auto simp: val_ok_def split: option.splits)
  qed
qed

section \<open>Releasing\<close>

definition live_count :: "heap \<Rightarrow> addr set \<Rightarrow> nat" where
  "live_count h D = card {a. a < length h \<and> hget h a \<noteq> None \<and> a \<notin> D}"

definition hsub :: "heap \<Rightarrow> heap \<Rightarrow> bool" where
  \<comment> \<open>\<open>h'\<close> has some of the cells of \<open>h\<close>, with the same contents\<close>
  "hsub h' h \<longleftrightarrow> length h' = length h \<and>
     (\<forall>a c'. hget h' a = Some c' \<longrightarrow> (\<exists>c. hget h a = Some c \<and> cbody c' = cbody c))"

lemma hsub_refl [simp]: "hsub h h"
  by (auto simp: hsub_def)

lemma hsub_trans: "hsub h2 h1 \<Longrightarrow> hsub h1 h \<Longrightarrow> hsub h2 h"
  by (fastforce simp: hsub_def)

lemma hsub_rc_upd: "hget h a = Some c \<Longrightarrow> hsub (hput h a (c\<lparr>rc := k\<rparr>)) h"
  by (auto simp: hsub_def)

lemma hsub_hfree: "hsub (hfree h a) h"
  by (auto simp: hsub_def)

lemma hsub_live_count: "hsub h' h \<Longrightarrow> live_count h' D \<le> live_count h D"
  unfolding live_count_def
  by (rule card_mono) (auto simp: hsub_def)

lemma live_count_le: "live_count h D \<le> length h"
proof -
  have "live_count h D \<le> card {..<length h}"
    unfolding live_count_def by (rule card_mono) auto
  then show ?thesis by simp
qed

lemma live_count_insert:
  assumes "hget h a = Some c" "a \<notin> D"
  shows "live_count h D = Suc (live_count h (insert a D))"
proof -
  let ?S = "{x. x < length h \<and> hget h x \<noteq> None \<and> x \<notin> insert a D}"
  have "{x. x < length h \<and> hget h x \<noteq> None \<and> x \<notin> D} = insert a ?S"
    using assms by (auto simp: hget_Some_less)
  moreover have "finite ?S" "a \<notin> ?S" by auto
  ultimately show ?thesis by (simp add: live_count_def)
qed

text \<open>A loop that releases several references, given that each release behaves.\<close>

lemma ofold_release_sound:
  assumes step: "\<And>v R h. rc_inv D (v # R) h \<Longrightarrow> live_count h D \<le> n \<Longrightarrow>
      \<exists>h'. f v h = Ok h' \<and> rc_inv D R h' \<and> hsub h' h"
    and "rc_inv D (vs @ R) h" "live_count h D \<le> n"
  shows "\<exists>h'. ofold f vs h = Ok h' \<and> rc_inv D R h' \<and> hsub h' h"
  using assms(2-)
proof (induction vs arbitrary: h)
  case (Cons v vs)
  then obtain h1 where h1: "f v h = Ok h1" "rc_inv D (vs @ R) h1" "hsub h1 h"
    using step [of v "vs @ R" h] by auto
  moreover from h1(3) Cons.prems(2) have "live_count h1 D \<le> n"
    using hsub_live_count [of h1 h D] by simp
  ultimately obtain h2 where "ofold f vs h1 = Ok h2" "rc_inv D R h2" "hsub h2 h1"
    using Cons.IH [of h1] by auto
  with h1 show ?case by (auto intro: hsub_trans)
qed auto

lemma release_fuel_sound:
  "rc_inv D (v # R) h \<Longrightarrow> live_count h D \<le> n \<Longrightarrow>
     \<exists>h'. release_fuel n v h = Ok h' \<and> rc_inv D R h' \<and> hsub h' h"
proof (induction n arbitrary: D v R h)
  case 0
  show ?case
  proof (cases "val_addr v")
    case None
    then show ?thesis using rc_inv_subset [of D "[v]" R h] 0 by simp
  next
    case (Some a)
    then obtain c where "hget h a = Some c" "a \<notin> D"
      using rc_inv_live [OF 0(1) _ Some] by auto
    then show ?thesis using live_count_insert [of h a c D] 0 by simp
  qed
next
  case (Suc n)
  show ?case
  proof (cases "val_addr v")
    case None
    then show ?thesis using rc_inv_subset [of D "[v]" R h] Suc.prems by simp
  next
    case (Some a)
    then obtain c where c: "hget h a = Some c" "a \<notin> D"
      using rc_inv_live [OF Suc.prems(1) _ Some] by auto
    let ?h = "hput h a (c\<lparr>rc := rc c - 1\<rparr>)"
    show ?thesis
    proof (cases "1 < rc c")
      case True
      with Some c show ?thesis
        using rc_inv_decr [OF Suc.prems(1) Some c(1) True] by (simp add: hsub_rc_upd)
    next
      case False
      note enter = rc_inv_enter [OF Suc.prems(1) Some c(1)]
      have "live_count ?h (insert a D) \<le> live_count h (insert a D)"
        using c by (intro hsub_live_count hsub_rc_upd)
      with Suc.prems(2) live_count_insert [OF c] have "live_count ?h (insert a D) \<le> n" by simp
      then obtain h2 where h2: "ofold (release_fuel n) (children (cbody c)) ?h = Ok h2"
          "rc_inv (insert a D) R h2" "hsub h2 ?h"
        using ofold_release_sound [of "insert a D" n "release_fuel n" "children (cbody c)" R ?h]
          Suc.IH enter(1) False by auto
      from h2(2,3) c have "a < length h2" by (simp add: hsub_def hget_Some_less)
      with h2(2) obtain c2 where c2: "hget h2 a = Some c2"
        using rc_inv_cells [of "insert a D" R h2 a] by (auto simp: cell_sound_def split: option.splits)
      have "rc_inv D R (hfree h2 a)"
        using h2(2) c(2) by (rule rc_inv_free)
      moreover have "hsub (hfree h2 a) h"
        using h2(3) hsub_hfree hsub_rc_upd [OF c(1)] by (blast intro: hsub_trans)
      ultimately show ?thesis using Some c False h2(1) c2 by (simp add: Let_def)
    qed
  qed
qed

section \<open>The operations keep the invariant\<close>

lemma release_sound:
  assumes "rc_sound (v # R) h"
  obtains h' where "release_value v h = Ok h'" "rc_sound R h'" "hsub h' h"
  using assms release_fuel_sound [of "{}" v R h "length h"] live_count_le [of h "{}"]
  by (auto simp: rc_sound_def release_value_def)

lemma release_all_sound:
  assumes "rc_sound (vs @ R) h"
  obtains h' where "release_all vs h = Ok h'" "rc_sound R h'" "hsub h' h"
proof -
  have "\<exists>h'. release_value v h = Ok h' \<and> rc_inv {} R h' \<and> hsub h' h" if "rc_inv {} (v # R) h" for v R h
    using that release_sound [of v R h] by (auto simp: rc_sound_def)
  then show ?thesis
    using assms that ofold_release_sound [of "{}" "length h" release_value vs R h] live_count_le [of h "{}"]
    by (auto simp: rc_sound_def release_all_def)
qed

lemma retain_sound:
  assumes "rc_sound R h" "v \<in> set R \<union> set (all_held h {})"
  obtains h' where "retain_value v h = Ok h'" "rc_sound (v # R) h'" "hsub h' h" "hsub h h'"
proof (cases "val_addr v")
  case None
  with assms(1) that [of h] show ?thesis
    by (auto simp: retain_value_def rc_sound_def rc_inv_Cons_None)
next
  case (Some a)
  obtain c where c: "hget h a = Some c" "a \<notin> {}"
    using rc_inv_live [OF assms(1) [unfolded rc_sound_def] assms(2) Some] by blast
  have "val_ok h v" using assms rc_inv_val_ok [of "{}" R h v] by (simp add: rc_sound_def)
  with rc_inv_incr [OF assms(1) [unfolded rc_sound_def] c this Some] c Some
  show ?thesis by (intro that) (auto simp: retain_value_def incref_def rc_sound_def hsub_def split: if_splits)
qed

lemma alloc_sound:
  assumes "rc_sound (children b @ R) h" "halloc b h = (a, h')" "val_addr v = Some a" "kind_ok v b"
  shows "rc_sound (v # R) h'"
proof -
  have a: "a = length h" and h': "h' = h @ [Some \<lparr>rc = 1, cbody = b\<rparr>]"
    using assms(2) by (auto simp: halloc_def)
  note inv = assms(1) [unfolded rc_sound_def]
  have held': "all_held h' {} = all_held h {} @ children b"
    by (simp add: h' all_held_append)
  have old: "val_addr w \<noteq> Some a" "val_ok h' w" if "w \<in> set (children b @ R) \<union> set (all_held h {})" for w
    using rc_inv_val_ok [OF inv that] by (auto simp: val_ok_def h' a hget_def nth_append split: option.splits if_splits)
  have fresh: "occ a (children b @ R) = 0" "occ a (all_held h {}) = 0"
    by (rule occ_zero; use old in auto)+
  show ?thesis unfolding rc_sound_def
  proof (rule rc_invI)
    fix x assume "x < length h'"
    show "cell_sound h' {} (v # R) x"
    proof (cases "x = a")
      case True
      moreover have "hget h' a = Some \<lparr>rc = 1, cbody = b\<rparr>" by (simp add: h' a)
      ultimately show ?thesis using fresh assms(3) by (simp add: cell_sound_def held')
    next
      case False
      with \<open>x < length h'\<close> have "x < length h" and hg: "hget h' x = hget h x"
        by (simp_all add: h' a)
      then have "cell_sound h {} (children b @ R) x"
        by (intro rc_inv_cells [OF inv])
      with False assms(3) show ?thesis
        unfolding cell_sound_def Let_def held' hg by (auto split: option.splits)
    qed
  next
    fix w assume "w \<in> set (v # R) \<union> set (all_held h' {})"
    then consider "w = v" | "w \<in> set (children b @ R) \<union> set (all_held h {})"
      by (auto simp: held')
    then show "val_ok h' w"
      using old(2) assms(3,4) by cases (auto simp: val_ok_def h' a)
  qed
qed

section \<open>Writing to a live cell\<close>

definition setb :: "heap \<Rightarrow> addr \<Rightarrow> body \<Rightarrow> heap" where
  "setb h a b = (case hget h a of None \<Rightarrow> h | Some c \<Rightarrow> hput h a (c\<lparr>cbody := b\<rparr>))"

lemma hset_body_setb: "hget h a = Some c \<Longrightarrow> hset_body h a b = Ok (setb h a b)"
  by (simp add: hset_body_def setb_def)

lemma hset_body_Ok_iff: "hset_body h a b = Ok h' \<longleftrightarrow> hget h a \<noteq> None \<and> h' = setb h a b"
  by (auto simp: hset_body_def setb_def outcome_simps)

lemma length_setb [simp]: "length (setb h a b) = length h"
  by (simp add: setb_def split: option.splits)

lemma hget_setb [simp]:
  "hget (setb h a b) x = (if x = a then map_option (\<lambda>c. c\<lparr>cbody := b\<rparr>) (hget h a) else hget h x)"
  by (auto simp: setb_def hget_Some_less split: option.splits)

lemma heap_eqI:
  assumes "length h = length h'" "\<And>x. hget h x = hget h' x"
  shows "h = h'"
proof (rule nth_equalityI)
  fix i assume "i < length h"
  then show "h ! i = h' ! i" using assms(1) assms(2) [of i] by (simp add: hget_def)
qed (rule assms(1))

lemma setb_setb [simp]: "setb (setb h a b) a b' = setb h a b'"
  by (rule heap_eqI) (simp_all add: option.map_comp comp_def)

lemma setb_self: "hget h a = Some c \<Longrightarrow> setb h a (cbody c) = h"
  by (rule heap_eqI) auto

lemma incref_setb: "incref x (setb h a b) = obind (incref x h) (\<lambda>h'. Ok (setb h' a b))"
proof (cases "hget h x")
  case None
  then show ?thesis by (auto simp: incref_def deref_def)
next
  case (Some c)
  then have x: "x < length h" by (rule hget_Some_less)
  have "hput (setb h a b) x (the (hget (setb h a b) x)\<lparr>rc := rc (the (hget (setb h a b) x)) + 1\<rparr>)
      = setb (hput h x (c\<lparr>rc := rc c + 1\<rparr>)) a b"
    using Some x by (intro heap_eqI) auto
  with Some show ?thesis by (cases "x = a") (auto simp: incref_def)
qed

lemma retain_setb: "retain_value v (setb h a b) = obind (retain_value v h) (\<lambda>h'. Ok (setb h' a b))"
  by (auto simp: retain_value_def incref_setb split: option.splits)

lemma hsub_body: "hsub h' h \<Longrightarrow> hget h' a = Some c' \<Longrightarrow> cbody c' = cbody (the (hget h a))"
  by (force simp: hsub_def)

lemma hsub_live: "hsub h' h \<Longrightarrow> hget h' a = Some c' \<Longrightarrow> \<exists>c. hget h a = Some c"
  by (force simp: hsub_def)

lemma hsub_setb:
  assumes "hsub h' h" shows "hsub (setb h' a b) (setb h a b)"
  unfolding hsub_def
proof (intro conjI allI impI)
  show "length (setb h' a b) = length (setb h a b)" using assms by (simp add: hsub_def)
  fix x c' assume x: "hget (setb h' a b) x = Some c'"
  then obtain c1 where c1: "hget h' x = Some c1" "cbody c' = (if x = a then b else cbody c1)"
    by (auto split: if_splits)
  with hsub_live [OF assms c1(1)] hsub_body [OF assms c1(1)]
  show "\<exists>c. hget (setb h a b) x = Some c \<and> cbody c' = cbody c" by auto
qed

text \<open>A write that only moves references between the cell and the outside.\<close>

lemma rc_sound_setb:
  assumes inv: "rc_sound R h" and a: "hget h a = Some c"
    and moved: "mset (children b @ R') = mset (children (cbody c) @ R)"
    and kind: "\<And>v. kind_ok v b = kind_ok v (cbody c)"
  shows "rc_sound R' (setb h a b)"
proof -
  let ?h = "setb h a b"
  have len: "a < length h" using a by (rule hget_Some_less)
  have h: "?h = h[a := Some (c\<lparr>cbody := b\<rparr>)]" using a by (simp add: setb_def hput_def)
  have held: "held h {} a = children (cbody c)" "held ?h {} a = children b"
    using a len by (simp_all add: held_def hget_def h)
  have occR: "occ x (children b) + occ x R' = occ x (children (cbody c)) + occ x R" for x
    using arg_cong [OF moved, of "\<lambda>M. size (filter_mset (\<lambda>v. val_addr v = Some x) M)"]
    by (simp add: occ_def flip: size_mset)
  have total: "occ x (R' @ all_held ?h {}) = occ x (R @ all_held h {})" for x
    using occ_all_held_upd [OF len, of x "Some (c\<lparr>cbody := b\<rparr>)" "{}"] occR [of x] held
    by (simp add: h)
  have "set (children b @ R') = set (children (cbody c) @ R)"
    using moved by (rule mset_eq_setD)
  moreover have "set (children (cbody c)) \<subseteq> set (all_held h {})"
    using held(1) by (auto simp: all_held_split [OF len])
  moreover have "set (all_held ?h {}) \<subseteq> set (all_held h {}) \<union> set (children b)"
    using set_all_held_upd [OF len, of "Some (c\<lparr>cbody := b\<rparr>)" "{}"] held(2) by (simp add: h)
  ultimately have sub: "set R' \<union> set (all_held ?h {}) \<subseteq> set R \<union> set (all_held h {})"
    by auto
  show ?thesis unfolding rc_sound_def
  proof (rule rc_invI)
    fix x assume "x < length ?h"
    then have "cell_sound h {} R x" using rc_inv_cells [OF inv [unfolded rc_sound_def]] by simp
    then show "cell_sound ?h {} R' x"
      unfolding cell_sound_def total using a by (auto simp: Let_def split: option.splits)
  next
    fix v assume "v \<in> set R' \<union> set (all_held ?h {})"
    with sub have "val_ok h v" using rc_inv_val_ok [OF inv [unfolded rc_sound_def]] by auto
    then show "val_ok ?h v" using a kind [of v]
      by (cases "val_addr v"; cases "val_addr v = Some a") (simp_all add: val_ok_def)
  qed
qed

lemma rc_sound_perm: "rc_sound R h \<Longrightarrow> mset R = mset R' \<Longrightarrow> rc_sound R' h"
  unfolding rc_sound_def by (rule rc_inv_perm)

lemma rc_sound_live:
  assumes "rc_sound R h" "v \<in> set R" "val_addr v = Some a"
  obtains c where "hget h a = Some c" "kind_ok v (cbody c)"
  using rc_inv_live [of "{}" R h v a] assms by (auto simp: rc_sound_def)

section \<open>Releasing what a cell still seems to hold\<close>

text \<open>
  Overwriting a slot releases the old value before the slot is written. Releasing does not look at
  the contents of a cell that survives it, so the release can be carried out as if the slot had
  already been emptied.
\<close>

lemma ofold_hsub:
  assumes "\<And>x h h'. f x h = Ok h' \<Longrightarrow> hsub h' h" "ofold f xs h = Ok h'"
  shows "hsub h' h"
  using assms(2)
proof (induction xs arbitrary: h)
  case (Cons x xs)
  then show ?case using assms(1) by (auto simp: outcome_simps) (meson hsub_trans)
qed simp

lemma release_fuel_hsub: "release_fuel n v h = Ok h' \<Longrightarrow> hsub h' h"
proof (induction n arbitrary: v h h')
  case (Suc n)
  show ?case
  proof (cases "val_addr v")
    case (Some a)
    with Suc.prems obtain c where c: "hget h a = Some c"
      by (auto simp: outcome_simps)
    let ?h = "hput h a (c\<lparr>rc := rc c - 1\<rparr>)"
    have h: "hsub ?h h" using c by (rule hsub_rc_upd)
    show ?thesis
    proof (cases "1 < rc c")
      case True
      with Suc.prems Some c h show ?thesis by simp
    next
      case False
      with Suc.prems Some c obtain h2 where h2:
          "ofold (release_fuel n) (children (cbody c)) ?h = Ok h2" "h' = hfree h2 a"
        by (auto simp: outcome_simps Let_def)
      have "hsub h2 ?h" by (rule ofold_hsub [OF Suc.IH h2(1)])
      with h h2(2) hsub_hfree show ?thesis by (blast intro: hsub_trans)
    qed
  qed (use Suc.prems in simp)
qed (auto split: option.splits)

lemma hsub_dead: "hsub h' h \<Longrightarrow> hget h a = None \<Longrightarrow> hget h' a = None"
  by (auto simp: hsub_def) (metis not_Some_eq)

lemma ofold_frame:
  assumes step: "\<And>x h h'. f x h = Ok h' \<Longrightarrow> hget h' a \<noteq> None \<Longrightarrow> f x (setb h a b) = Ok (setb h' a b)"
    and sub: "\<And>x h h'. f x h = Ok h' \<Longrightarrow> hsub h' h"
    and run: "ofold f xs h = Ok h'" "hget h' a \<noteq> None"
  shows "ofold f xs (setb h a b) = Ok (setb h' a b)"
  using run
proof (induction xs arbitrary: h)
  case (Cons x xs)
  then obtain h1 where h1: "f x h = Ok h1" "ofold f xs h1 = Ok h'" by (auto simp: outcome_simps)
  have "hsub h' h1" using sub h1(2) by (rule ofold_hsub)
  then have "hget h1 a \<noteq> None" using Cons.prems(2) hsub_dead [of h' h1 a] by metis
  then have "f x (setb h a b) = Ok (setb h1 a b)" by (rule step [OF h1(1)])
  with Cons.IH [OF h1(2) Cons.prems(2)] show ?case by simp
qed simp

lemma release_fuel_frame:
  "release_fuel n v h = Ok h' \<Longrightarrow> hget h' a \<noteq> None \<Longrightarrow> release_fuel n v (setb h a b) = Ok (setb h' a b)"
proof (induction n arbitrary: v h h')
  case 0
  then show ?case by (auto split: option.splits)
next
  case (Suc n)
  show ?case
  proof (cases "val_addr v")
    case (Some x)
    with Suc.prems obtain c where c: "hget h x = Some c"
      by (auto simp: outcome_simps)
    let ?h = "hput h x (c\<lparr>rc := rc c - 1\<rparr>)"
    have len: "x < length h" using c by (rule hget_Some_less)
    show ?thesis
    proof (cases "1 < rc c")
      case True
      have "hput (setb h a b) x (the (hget (setb h a b) x)\<lparr>rc := rc c - 1\<rparr>) = setb ?h a b"
        using c len by (intro heap_eqI) auto
      with True Suc.prems Some c show ?thesis by (cases "x = a") auto
    next
      case False
      with Suc.prems Some c obtain h2 where h2:
          "ofold (release_fuel n) (children (cbody c)) ?h = Ok h2" "h' = hfree h2 x" "hget h2 x \<noteq> None"
        by (auto simp: outcome_simps Let_def)
      with Suc.prems(2) have xa: "x \<noteq> a" "hget h2 a \<noteq> None" by (auto split: if_splits)
      have "hput (setb h a b) x (c\<lparr>rc := rc c - 1\<rparr>) = setb ?h a b"
        using c len xa by (intro heap_eqI) auto
      moreover have "ofold (release_fuel n) (children (cbody c)) (setb ?h a b) = Ok (setb h2 a b)"
        using Suc.IH release_fuel_hsub h2(1) xa(2) by (rule ofold_frame)
      moreover have "hfree (setb h2 a b) x = setb (hfree h2 x) a b"
        using xa by (intro heap_eqI) auto
      ultimately show ?thesis
        using Some c False h2 xa by (auto simp: Let_def)
    qed
  qed (use Suc.prems in auto)
qed

lemma release_value_frame:
  "release_value v h = Ok h' \<Longrightarrow> hget h' a \<noteq> None \<Longrightarrow> release_value v (setb h a b) = Ok (setb h' a b)"
  by (simp add: release_value_def release_fuel_frame)

text \<open>
  The whole update of a slot: release the old value, write the new one, retain it. The owner of the
  cell and of the new value keeps its references. \<open>M\<close> is what the cell holds besides the slot, and
  \<open>b0\<close> the cell with the slot emptied.
\<close>

lemma overwrite_sound:
  assumes inv: "rc_sound R h" and v: "v \<in> set R" and a: "hget h a = Some c"
    and root: "w \<in> set R" "val_addr w = Some a"
    and old: "mset (children (cbody c)) = add_mset old M"
    and new: "mset (children b) = add_mset v M"
    and hole: "mset (children b0) = add_mset VNull M"
    and kind: "\<And>v. kind_ok v b = kind_ok v (cbody c)" "\<And>v. kind_ok v b0 = kind_ok v (cbody c)"
  obtains h2 h3 where "release_value old h = Ok h2" "hget h2 a \<noteq> None"
    "retain_value v (setb h2 a b) = Ok h3" "rc_sound R h3" "hsub h3 (setb h a b)"
proof -
  have null: "rc_sound (VNull # R) h' = rc_sound R h'" for R h'
    by (simp add: rc_sound_def rc_inv_Cons_None)
  have "rc_sound (old # R) (setb h a b0)"
    using old hole kind(2) inv by (intro rc_sound_setb [of "VNull # R", OF _ a]) (simp_all add: null)
  then obtain g where g: "release_value old (setb h a b0) = Ok g" "rc_sound R g" "hsub g (setb h a b0)"
    by (rule release_sound)
  obtain cg where cg: "hget g a = Some cg"
    using rc_sound_live [OF g(2) root] by auto
  have h2: "release_value old h = Ok (setb g a (cbody c))"
    using release_value_frame [OF g(1), of a "cbody c"] cg setb_self [OF a] by simp
  obtain k where k: "retain_value v g = Ok k" "rc_sound (v # R) k" "hsub k g"
    by (rule retain_sound [OF g(2), of v]) (use v in auto)
  obtain ck where ck: "hget k a = Some ck"
    using rc_sound_live [OF k(2), of w a] root by auto
  have bodies: "cbody ck = b0"
    using hsub_body [OF g(3) cg] hsub_body [OF k(3) ck] cg a by simp
  have "rc_sound (VNull # R) (setb k a b)"
    by (rule rc_sound_setb [OF k(2) ck]) (simp_all add: bodies new hole kind)
  then have "rc_sound R (setb k a b)" by (simp only: null)
  moreover have "hsub (setb k a b) (setb h a b)"
    using hsub_setb [OF hsub_trans [OF k(3) g(3)], of a b] by simp
  ultimately show ?thesis
    using that [OF h2, of "setb k a b"] cg k(1) by (simp add: retain_setb)
qed

text \<open>A new reference stored into a cell: the write and the retain, in the code's order.\<close>

lemma store_sound:
  assumes inv: "rc_sound R h" and v: "v \<in> set R \<union> set (all_held h {})" and a: "hget h a = Some c"
    and new: "mset (children b) = add_mset v (mset (children (cbody c)))"
    and kind: "\<And>v. kind_ok v b = kind_ok v (cbody c)"
  obtains h' where "retain_value v (setb h a b) = Ok h'" "rc_sound R h'" "hsub h' (setb h a b)"
    "hsub (setb h a b) h'"
proof -
  obtain k where k: "retain_value v h = Ok k" "rc_sound (v # R) k" "hsub k h" "hsub h k"
    using retain_sound [OF inv v] by auto
  obtain ck where ck: "hget k a = Some ck" "cbody c = cbody ck"
    using hsub_live [OF k(4) a] hsub_body [OF k(4) a] by auto
  have "rc_sound R (setb k a b)"
    by (rule rc_sound_setb [OF k(2) ck(1)]) (simp_all add: ck(2) [symmetric] new kind)
  moreover have "hsub (setb k a b) (setb h a b)" "hsub (setb h a b) (setb k a b)"
    using k(3,4) by (simp_all add: hsub_setb)
  ultimately show ?thesis
    using that k(1) by (simp add: retain_setb)
qed

section \<open>Properties\<close>

lemmas heap_eval = rc_sound_def rc_inv_def all_held_def held_def cell_sound_def hget_def val_ok_def kind_ok_def
  occ_def Let_def All_less_Suc upt_rec numeral_2_eq_2 numeral_3_eq_3

text \<open>C14. Releasing an owned reference returns, never touches a freed cell, leaves every remaining reference valid, and changes no cell it does not free.\<close>

theorem release_value_safe:
  assumes "rc_sound (v # R) h"
  shows "\<exists>h'. release_value v h = Ok h' \<and> rc_sound R h' \<and> hsub h' h"
  using assms by (rule release_sound) blast

theorem release_value_safe_witness:
  "\<exists>h'. release_value (VArr 1) [Some \<lparr>rc = 2, cbody = BStr ''k''\<rparr>, Some \<lparr>rc = 1, cbody = BArr [VStr 0] 8\<rparr>] = Ok h' \<and>
     rc_sound [VStr 0] h' \<and> hsub h' [Some \<lparr>rc = 2, cbody = BStr ''k''\<rparr>, Some \<lparr>rc = 1, cbody = BArr [VStr 0] 8\<rparr>]"
  by (rule release_value_safe) (simp add: heap_eval)

text \<open>A retain followed by a release of the same reference leaves the heap as it was.\<close>

theorem retain_release_balanced:
  assumes "rc_sound R h" "v \<in> set R"
  shows "obind (retain_value v h) (release_value v) = Ok h"
proof (cases "val_addr v")
  case None
  then show ?thesis by (cases "length h") (simp_all add: retain_value_def release_value_def)
next
  case (Some a)
  obtain c where c: "hget h a = Some c" "1 \<le> rc c"
    using rc_inv_live [OF assms(1) [unfolded rc_sound_def] _ Some] assms(2) by auto
  have a: "a < length h" "h ! a = Some c" using c(1) by (simp_all add: hget_def split: if_splits)
  obtain n where n: "length h = Suc n" using a by (cases "length h") auto
  have "hput (hput h a (c\<lparr>rc := rc c + 1\<rparr>)) a c = h"
    using a by (simp add: hput_def list_update_same_conv)
  then show ?thesis using c Some a n
    by (simp add: retain_value_def incref_def release_value_def Let_def)
qed

theorem retain_release_balanced_witness:
  "obind (retain_value (VStr 0) [Some \<lparr>rc = 1, cbody = BStr ''s''\<rparr>]) (release_value (VStr 0)) =
     Ok [Some \<lparr>rc = 1, cbody = BStr ''s''\<rparr>]"
  by (rule retain_release_balanced [where R = "[VStr 0]"]) (simp_all add: heap_eval)

end
