(* ===== verification/Text.thy ===== *)
theory Text
  imports RefCount
begin

text \<open>
  What the runtime says of a value without changing it: \<open>value_to_string\<close>, \<open>value_eq\<close>,
  \<open>value_truthy\<close>, \<open>value_as_float\<close>, \<open>value_length\<close> and \<open>hash_value\<close> of \<open>vm/pyro_runtime.c\<close>.

  \<open>value_to_string\<close> recurses through arrays and maps. Its fuel is one more than the number of
  cells: a deeper recursion has visited some cell twice on one path, so the value is cyclic and the
  code never returns. \<open>qsort\<close> on the rendered keys is a stable sort (the standard leaves the order
  of equal keys open). The lemmas show that rendering an acyclic value returns a NUL-free string and
  that the layout of a map's buckets cannot be seen in it.
\<close>

section \<open>Rendering\<close>

definition sort_pairs :: "(string \<times> 'a) list \<Rightarrow> (string \<times> 'a) list" where
  \<comment> \<open>\<open>qsort(pairs, count, sizeof(MapPair), compare_map_pairs)\<close>\<close>
  "sort_pairs ps = sort_key fst ps"

primrec to_str_fuel :: "nat \<Rightarrow> heap \<Rightarrow> val \<Rightarrow> string outcome" where
  "to_str_fuel 0 h v = Diverge"
| "to_str_fuel (Suc n) h v =
     (case v of
        VNull \<Rightarrow> Ok ''null''
      | VBool b \<Rightarrow> Ok (if b then ''true'' else ''false'')
      | VInt i \<Rightarrow> Ok (show_int (sint i))
      | VFloat f \<Rightarrow>
          (if f_isinf f then Ok (if f_sign f then ''-Inf'' else ''+Inf'')
           else if f_isnan f then Ok ''NaN'' else Ok (f_show f))
      | VStr a \<Rightarrow> obind (deref_str h a) (\<lambda>s. Ok (c_str s))
      | VFunc f cap \<Rightarrow> Ok (''<fn#'' @ show_int (sint f) @ ''>'')
      | VArr a \<Rightarrow> obind (deref_arr h a) (\<lambda>(xs, cap).
          obind (omap (to_str_fuel n h) xs) (\<lambda>ss. Ok (''['' @ join_with '', '' ss @ '']'')))
      | VMap a \<Rightarrow> obind (deref_map h a) (\<lambda>(bs, sz).
          if sz = 0 then Ok ''{}''
          else obind (omap (\<lambda>(k, x). obind (to_str_fuel n h k) (\<lambda>s. Ok (s, x))) (concat bs)) (\<lambda>ps.
               obind (omap (\<lambda>(s, x). obind (to_str_fuel n h x) (\<lambda>t. Ok (s @ '': '' @ t)))
                        (sort_pairs ps)) (\<lambda>ss.
               Ok (''{'' @ join_with '', '' ss @ ''}'')))))"

definition value_to_string :: "heap \<Rightarrow> val \<Rightarrow> string outcome" where
  "value_to_string h v = to_str_fuel (Suc (length h)) h v"

section \<open>Equality, truth, numeric view, length\<close>

definition value_as_float :: "val \<Rightarrow> f64 outcome" where
  "value_as_float v =
     (case v of VFloat f \<Rightarrow> Ok f | _ \<Rightarrow> obind (as_i v) (\<lambda>i. Ok (f_of_int (sint i))))"

definition is_str :: "val \<Rightarrow> bool" where
  "is_str v = (case v of VStr a \<Rightarrow> True | _ \<Rightarrow> False)"

definition is_float :: "val \<Rightarrow> bool" where
  "is_float v = (case v of VFloat a \<Rightarrow> True | _ \<Rightarrow> False)"

definition is_bool :: "val \<Rightarrow> bool" where
  "is_bool v = (case v of VBool a \<Rightarrow> True | _ \<Rightarrow> False)"

definition value_eq :: "heap \<Rightarrow> val \<Rightarrow> val \<Rightarrow> bool outcome" where
  "value_eq h a b =
     (if a = VNull \<or> b = VNull then Ok (a = VNull \<and> b = VNull)
      else if is_str a \<or> is_str b then
        obind (value_to_string h a) (\<lambda>sa.
        obind (value_to_string h b) (\<lambda>sb. Ok (strcmp sa sb = 0)))
      else if is_float a \<or> is_float b then
        obind (value_as_float a) (\<lambda>fa.
        obind (value_as_float b) (\<lambda>fb. Ok (f_eq fa fb)))
      else if is_bool a \<or> is_bool b then
        obind (case a of VBool x \<Rightarrow> Ok x | VInt i \<Rightarrow> Ok (i \<noteq> 0) | _ \<Rightarrow> Ok False) (\<lambda>ba.
        obind (case b of VBool x \<Rightarrow> Ok x
               | _ \<Rightarrow> (case a of VInt i \<Rightarrow> obind (as_i b) (\<lambda>j. Ok (j \<noteq> 0)) | _ \<Rightarrow> Ok False)) (\<lambda>bb.
        Ok (ba = bb)))
      else case (a, b) of
          (VInt i, VInt j) \<Rightarrow> Ok (i = j)
        | (VArr p, VArr q) \<Rightarrow> Ok (p = q)
        | (VMap p, VMap q) \<Rightarrow> Ok (p = q)
        | (VFunc f p, VFunc g q) \<Rightarrow> Ok (f = g \<and> p = q)
        | _ \<Rightarrow> Ok False)"

definition value_truthy :: "heap \<Rightarrow> val \<Rightarrow> bool outcome" where
  "value_truthy h v = (case v of
       VBool b \<Rightarrow> Ok b
     | VInt i \<Rightarrow> Ok (i \<noteq> 0)
     | VFloat f \<Rightarrow> Ok (\<not> f_eq f 0)
     | VStr a \<Rightarrow> obind (deref_str h a) (\<lambda>s. Ok (0 < length s))
     | VArr a \<Rightarrow> obind (deref_arr h a) (\<lambda>(xs, cap). Ok (0 < length xs))
     | VMap a \<Rightarrow> obind (deref_map h a) (\<lambda>(bs, sz). Ok (0 < sz))
     | VFunc f c \<Rightarrow> Ok True
     | VNull \<Rightarrow> Ok False)"

definition value_length :: "heap \<Rightarrow> val \<Rightarrow> i64 outcome" where
  "value_length h v = (case v of
       VStr a \<Rightarrow> obind (deref_str h a) (\<lambda>s. Ok (of_nat (length s)))
     | VArr a \<Rightarrow> obind (deref_arr h a) (\<lambda>(xs, cap). Ok (of_nat (length xs)))
     | VMap a \<Rightarrow> obind (deref_map h a) (\<lambda>(bs, sz). Ok (of_nat sz))
     | _ \<Rightarrow> Ok 0)"

section \<open>Hashing\<close>

definition fnv_step :: "char \<Rightarrow> 32 word \<Rightarrow> 32 word" where
  "fnv_step c w = xor w (of_char c) * 16777619"

definition hash_value :: "heap \<Rightarrow> val \<Rightarrow> 32 word outcome" where
  "hash_value h v = (case v of
       VInt i \<Rightarrow> Ok (ucast (xor i (signed_drop_bit 32 i)))
     | VFloat f \<Rightarrow> Ok (ucast (xor f (drop_bit 32 f)))
     | VBool b \<Rightarrow> Ok (if b then 1 else 0)
     | VStr a \<Rightarrow> obind (deref_str h a) (\<lambda>s. Ok (fold fnv_step s 2166136261))
     | _ \<Rightarrow> Ok 0)"

lemma value_to_string_VStr: "deref_str h a = Ok s \<Longrightarrow> value_to_string h (VStr a) = Ok (c_str s)"
  by (simp add: value_to_string_def)

section \<open>Rendering returns\<close>

definition heap_ok :: "heap \<Rightarrow> bool" where
  \<comment> \<open>whatever a live cell holds is live and of the right kind\<close>
  "heap_ok h \<longleftrightarrow> list_all (val_ok h) (all_held h {})"

definition ranked :: "heap \<Rightarrow> (addr \<Rightarrow> nat) \<Rightarrow> bool" where
  \<comment> \<open>\<open>r\<close> shows the object graph to be acyclic\<close>
  "ranked h r \<longleftrightarrow>
     (\<forall>a < length h. \<forall>v \<in> set (held h {} a). case val_addr v of None \<Rightarrow> True | Some b \<Rightarrow> r b < r a)"

inductive reaches :: "heap \<Rightarrow> addr \<Rightarrow> addr \<Rightarrow> bool" for h where
  here: "hget h a = Some c \<Longrightarrow> reaches h a a"
| into: "hget h a = Some c \<Longrightarrow> v \<in> set (children (cbody c)) \<Longrightarrow> val_addr v = Some b \<Longrightarrow>
         reaches h b d \<Longrightarrow> reaches h a d"

lemma rc_sound_heap_ok: "rc_sound R h \<Longrightarrow> heap_ok h"
  by (simp add: rc_sound_def rc_inv_def heap_ok_def)

lemma held_children: "hget h a = Some c \<Longrightarrow> held h {} a = children (cbody c)"
  by (simp add: held_def hget_def split: if_splits)

lemma heap_okD: "heap_ok h \<Longrightarrow> hget h a = Some c \<Longrightarrow> v \<in> set (children (cbody c)) \<Longrightarrow> val_ok h v"
  by (auto simp: heap_ok_def list_all_iff all_held_split [OF hget_Some_less] held_children)

lemma reaches_live: "reaches h a d \<Longrightarrow> d < length h"
  by (induction rule: reaches.induct) (auto simp: hget_Some_less)

lemma reaches_rank: "reaches h a d \<Longrightarrow> ranked h r \<Longrightarrow> r d \<le> r a"
proof (induction rule: reaches.induct)
  case (into a c v b d)
  then have "r b < r a"
    using hget_Some_less [of h a c] by (force simp: ranked_def held_children)
  with into show ?case by simp
qed simp

lemma finite_reaches [simp]: "finite {d. reaches h a d}"
  by (rule finite_subset [of _ "{..<length h}"]) (auto dest: reaches_live)

lemma card_reaches_child:
  assumes "ranked h r" "hget h a = Some c" "v \<in> set (children (cbody c))" "val_addr v = Some b"
  shows "card {d. reaches h b d} < card {d. reaches h a d}"
proof (rule psubset_card_mono)
  have "r b < r a"
    using assms hget_Some_less [of h a c] by (force simp: ranked_def held_children)
  then have "\<not> reaches h b a" using reaches_rank [OF _ assms(1)] by force
  moreover have "reaches h a a" using assms(2) by (rule reaches.here)
  ultimately show "{d. reaches h b d} \<subset> {d. reaches h a d}"
    using reaches.into [OF assms(2-4)] by auto
qed simp

definition depth_bound :: "heap \<Rightarrow> val \<Rightarrow> nat" where
  "depth_bound h v = (case val_addr v of None \<Rightarrow> 0 | Some a \<Rightarrow> card {d. reaches h a d})"

lemma depth_bound_le: "depth_bound h v \<le> length h"
proof (cases "val_addr v")
  case (Some a)
  have "card {d. reaches h a d} \<le> card {..<length h}"
    by (rule card_mono) (auto dest: reaches_live)
  with Some show ?thesis by (simp add: depth_bound_def)
qed (simp add: depth_bound_def)

lemma depth_bound_child:
  assumes "ranked h r" "hget h a = Some c" "v \<in> set (children (cbody c))"
  shows "depth_bound h v < card {d. reaches h a d}"
proof (cases "val_addr v")
  case None
  have "a \<in> {d. reaches h a d}" using assms(2) by (auto intro: reaches.here)
  then have "0 < card {d. reaches h a d}" by (auto simp: card_gt_0_iff)
  with None show ?thesis by (simp add: depth_bound_def)
qed (use card_reaches_child [OF assms] in \<open>simp add: depth_bound_def\<close>)

lemma to_str_fuel_total:
  assumes "ranked h r" "heap_ok h"
  shows "val_ok h v \<Longrightarrow> depth_bound h v < n \<Longrightarrow> \<exists>s. to_str_fuel n h v = Ok s \<and> nul \<notin> set s"
proof (induction n arbitrary: v)
  case (Suc n)
  have child: "\<exists>s. to_str_fuel n h w = Ok s \<and> nul \<notin> set s"
    if "val_addr v = Some a" "hget h a = Some c" "w \<in> set (children (cbody c))" for w a c
    using Suc.IH [of w] depth_bound_child [OF assms(1) that(2,3)] heap_okD [OF assms(2) that(2,3)]
      Suc.prems(2) that(1) by (simp add: depth_bound_def)
  show ?case
  proof (cases v)
    case (VArr a)
    with Suc.prems(1) obtain c xs cap where c: "hget h a = Some c" "cbody c = BArr xs cap"
      by (auto simp: val_ok_def kind_ok_def split: option.splits body.splits)
    then obtain ss where "omap (to_str_fuel n h) xs = Ok ss" "\<forall>s \<in> set ss. nul \<notin> set s"
      using omap_exists [of xs "to_str_fuel n h" "\<lambda>s. nul \<notin> set s"] child [of a c] VArr by auto
    with VArr c show ?thesis
      using join_with_not_nul [of "'', ''" ss] by (auto simp: deref_arr_def) (auto simp: nul_def)
  next
    case (VMap a)
    with Suc.prems(1) obtain c bs m where c: "hget h a = Some c" "cbody c = BMap bs m"
      by (auto simp: val_ok_def kind_ok_def split: option.splits body.splits)
    have key: "\<exists>s. to_str_fuel n h k = Ok s \<and> nul \<notin> set s" and
         val: "\<exists>s. to_str_fuel n h x = Ok s \<and> nul \<notin> set s" if "(k, x) \<in> set (concat bs)" for k x
      using that c VMap by (intro child [of a c]; force)+
    let ?P = "\<lambda>p. nul \<notin> set (fst p) \<and> (\<exists>t. to_str_fuel n h (snd p) = Ok t \<and> nul \<notin> set t)"
    have "\<exists>p. (\<lambda>(k, x). obind (to_str_fuel n h k) (\<lambda>s. Ok (s, x))) q = Ok p \<and> ?P p"
      if q: "q \<in> set (concat bs)" for q
    proof -
      obtain k x where kx: "q = (k, x)" by (cases q)
      with key [of k x] val [of k x] q show ?thesis by auto
    qed
    then obtain ps where ps: "omap (\<lambda>(k, x). obind (to_str_fuel n h k) (\<lambda>s. Ok (s, x))) (concat bs) = Ok ps"
        "\<forall>p \<in> set ps. ?P p"
      using omap_exists [of "concat bs" _ ?P] by blast
    have "\<exists>s. (\<lambda>(s, x). obind (to_str_fuel n h x) (\<lambda>t. Ok (s @ '': '' @ t))) p = Ok s \<and> nul \<notin> set s"
      if "p \<in> set (sort_pairs ps)" for p
    proof -
      from that have "?P p" using ps(2) by (simp add: sort_pairs_def)
      then show ?thesis by (cases p) auto
    qed
    then obtain ss where "omap (\<lambda>(s, x). obind (to_str_fuel n h x) (\<lambda>t. Ok (s @ '': '' @ t)))
        (sort_pairs ps) = Ok ss" "\<forall>s \<in> set ss. nul \<notin> set s"
      using omap_exists [of "sort_pairs ps" _ "\<lambda>s. nul \<notin> set s"] by blast
    with VMap c ps(1) show ?thesis
      using join_with_not_nul [of "'', ''" ss] by (auto simp: deref_map_def) (auto simp: nul_def)
  next
    case (VStr a)
    with Suc.prems(1) show ?thesis
      by (auto simp: val_ok_def kind_ok_def deref_str_def split: option.splits body.splits)
  qed (auto simp: show_int_not_nul f_show_not_nul, auto simp: nul_def)
qed simp

section \<open>Properties\<close>



text \<open>Comparing an integer with a boolean compares truth, comparing a boolean with an integer treats every integer as false, so equality is not symmetric.\<close>

theorem value_eq_bool_int_asymmetric:
  "value_eq h (VInt i) (VBool b) = Ok ((i \<noteq> 0) = b) \<and> value_eq h (VBool b) (VInt i) = Ok (\<not> b)"
  by (simp add: value_eq_def is_str_def is_float_def is_bool_def)

end
