(* ===== verification/Table.thy ===== *)
theory Table
  imports Prelude "HOL-Library.Multiset"
begin

text \<open>
  The bucket table inside \<open>RcMap\<close> (\<open>vm/pyro_runtime.c\<close>, \<open>rc_map_*\<close>), over any key equality and
  hash that may themselves fail: the chained buckets, the walk along a bucket, insertion at its head,
  and the rehash into twice as many buckets. The locale \<open>hash_table\<close> states what the table needs of
  its keys - on a set \<open>K\<close> of keys, equality and hash see only a canonical form - and proves that the
  table then implements a partial function from canonical keys to values.
\<close>

section \<open>The operations\<close>

fun bucket_lookup :: "('k \<Rightarrow> 'k \<Rightarrow> bool outcome) \<Rightarrow> 'k \<Rightarrow> ('k \<times> 'v) list \<Rightarrow> 'v option outcome" where
  "bucket_lookup eq k [] = Ok None"
| "bucket_lookup eq k ((k', v) # b) =
     obind (eq k' k) (\<lambda>e. if e then Ok (Some v) else bucket_lookup eq k b)"

fun bucket_put ::
  "('k \<Rightarrow> 'k \<Rightarrow> bool outcome) \<Rightarrow> 'k \<Rightarrow> 'v \<Rightarrow> ('k \<times> 'v) list \<Rightarrow> ('v \<times> ('k \<times> 'v) list) option outcome"
where
  \<comment> \<open>overwrites the value of an equal key: the old value and the new bucket\<close>
  "bucket_put eq k v [] = Ok None"
| "bucket_put eq k v ((k', v') # b) =
     obind (eq k' k) (\<lambda>e.
       if e then Ok (Some (v', (k', v) # b))
       else obind (bucket_put eq k v b) (\<lambda>r.
              Ok (case r of None \<Rightarrow> None | Some (old, b') \<Rightarrow> Some (old, (k', v') # b'))))"

fun bucket_del ::
  "('k \<Rightarrow> 'k \<Rightarrow> bool outcome) \<Rightarrow> 'k \<Rightarrow> ('k \<times> 'v) list \<Rightarrow> (('k \<times> 'v) \<times> ('k \<times> 'v) list) option outcome"
where
  "bucket_del eq k [] = Ok None"
| "bucket_del eq k ((k', v') # b) =
     obind (eq k' k) (\<lambda>e.
       if e then Ok (Some ((k', v'), b))
       else obind (bucket_del eq k b) (\<lambda>r.
              Ok (case r of None \<Rightarrow> None | Some (n, b') \<Rightarrow> Some (n, (k', v') # b'))))"

definition tbl_index :: "('k \<Rightarrow> 32 word outcome) \<Rightarrow> ('k \<times> 'v) list list \<Rightarrow> 'k \<Rightarrow> nat outcome" where
  \<comment> \<open>\<open>hash % m->capacity\<close>\<close>
  "tbl_index hash bs k =
     obind (hash k) (\<lambda>w. if bs = [] then UB DivTrap else Ok (unat w mod length bs))"

definition tbl_lookup ::
  "('k \<Rightarrow> 'k \<Rightarrow> bool outcome) \<Rightarrow> ('k \<Rightarrow> 32 word outcome) \<Rightarrow> ('k \<times> 'v) list list \<Rightarrow> 'k \<Rightarrow> 'v option outcome"
where
  "tbl_lookup eq hash bs k = obind (tbl_index hash bs k) (\<lambda>i. bucket_lookup eq k (bs ! i))"

definition tbl_push ::
  "('k \<Rightarrow> 32 word outcome) \<Rightarrow> 'k \<times> 'v \<Rightarrow> ('k \<times> 'v) list list \<Rightarrow> ('k \<times> 'v) list list outcome"
where
  \<comment> \<open>links a node at the head of its bucket\<close>
  "tbl_push hash kv bs = obind (tbl_index hash bs (fst kv)) (\<lambda>i. Ok (bs[i := kv # bs ! i]))"

definition tbl_resize ::
  "('k \<Rightarrow> 32 word outcome) \<Rightarrow> ('k \<times> 'v) list list \<Rightarrow> ('k \<times> 'v) list list outcome"
where
  "tbl_resize hash bs = ofold (tbl_push hash) (concat bs) (replicate (2 * length bs) [])"

definition tbl_grow ::
  "('k \<Rightarrow> 32 word outcome) \<Rightarrow> ('k \<times> 'v) list list \<Rightarrow> nat \<Rightarrow> ('k \<times> 'v) list list outcome"
where
  \<comment> \<open>\<open>if (m->size >= m->capacity * 0.75) rc_map_resize(m);\<close>\<close>
  "tbl_grow hash bs n = (if 3 * length bs \<le> 4 * n then tbl_resize hash bs else Ok bs)"

definition tbl_put ::
  "('k \<Rightarrow> 'k \<Rightarrow> bool outcome) \<Rightarrow> ('k \<Rightarrow> 32 word outcome) \<Rightarrow> ('k \<times> 'v) list list \<Rightarrow> 'k \<Rightarrow> 'v \<Rightarrow>
   ('v \<times> ('k \<times> 'v) list list) option outcome"
where
  "tbl_put eq hash bs k v =
     obind (tbl_index hash bs k) (\<lambda>i.
     obind (bucket_put eq k v (bs ! i)) (\<lambda>r.
     Ok (case r of None \<Rightarrow> None | Some (old, b) \<Rightarrow> Some (old, bs[i := b]))))"

definition tbl_del ::
  "('k \<Rightarrow> 'k \<Rightarrow> bool outcome) \<Rightarrow> ('k \<Rightarrow> 32 word outcome) \<Rightarrow> ('k \<times> 'v) list list \<Rightarrow> 'k \<Rightarrow>
   (('k \<times> 'v) \<times> ('k \<times> 'v) list list) option outcome"
where
  "tbl_del eq hash bs k =
     obind (tbl_index hash bs k) (\<lambda>i.
     obind (bucket_del eq k (bs ! i)) (\<lambda>r.
     Ok (case r of None \<Rightarrow> None | Some (n, b) \<Rightarrow> Some (n, bs[i := b]))))"

section \<open>What the operations do to the nodes\<close>

text \<open>These hold whatever equality and hash do.\<close>

lemma bucket_put_nodes:
  "bucket_put eq k v b = Ok (Some (old, b')) \<Longrightarrow>
     \<exists>k0 M. mset b = add_mset (k0, old) M \<and> mset b' = add_mset (k0, v) M"
proof (induction b arbitrary: b')
  case (Cons kv b)
  obtain k' v' where kv: "kv = (k', v')" by (cases kv)
  from Cons.prems obtain e where e: "eq k' k = Ok e" by (auto simp: kv outcome_simps)
  show ?case
  proof (cases e)
    case True
    with Cons.prems e have "v' = old" "b' = (k', v) # b" by (auto simp: kv)
    then show ?thesis by (intro exI [of _ k'] exI [of _ "mset b"]) (simp add: kv)
  next
    case False
    with Cons.prems e obtain b1 where b1: "bucket_put eq k v b = Ok (Some (old, b1))" "b' = (k', v') # b1"
      by (auto simp: kv outcome_simps split: option.splits)
    from Cons.IH [OF b1(1)] obtain k0 M where "mset b = add_mset (k0, old) M" "mset b1 = add_mset (k0, v) M"
      by auto
    with b1(2) show ?thesis
      by (intro exI [of _ k0] exI [of _ "add_mset (k', v') M"]) (simp add: kv)
  qed
qed simp

lemma bucket_del_nodes:
  "bucket_del eq k b = Ok (Some (nd, b')) \<Longrightarrow> mset b = add_mset nd (mset b')"
proof (induction b arbitrary: b')
  case (Cons kv b)
  obtain k' v' where kv: "kv = (k', v')" by (cases kv)
  from Cons.prems obtain e where e: "eq k' k = Ok e" by (auto simp: kv outcome_simps)
  show ?case
  proof (cases e)
    case True
    with Cons.prems e show ?thesis by (auto simp: kv)
  next
    case False
    with Cons.prems e obtain b1 where b1: "bucket_del eq k b = Ok (Some (nd, b1))" "b' = (k', v') # b1"
      by (auto simp: kv outcome_simps split: option.splits)
    with Cons.IH [OF b1(1)] show ?thesis by (simp add: kv add_mset_commute)
  qed
qed simp

lemma mset_concat_upd:
  "i < length bs \<Longrightarrow> mset (concat (bs[i := b])) + mset (bs ! i) = mset (concat bs) + mset b"
proof -
  assume i: "i < length bs"
  have "mset (concat bs) = mset (concat (take i bs)) + mset (bs ! i) + mset (concat (drop (Suc i) bs))"
    using arg_cong [OF id_take_nth_drop [OF i], of "\<lambda>l. mset (concat l)"] by simp
  then show ?thesis by (simp add: upd_conv_take_nth_drop [OF i])
qed

lemma tbl_index_less: "tbl_index hash bs k = Ok i \<Longrightarrow> i < length bs"
  by (auto simp: tbl_index_def outcome_simps split: if_splits)

lemma tbl_put_nodes:
  assumes "tbl_put eq hash bs k v = Ok (Some (old, bs'))"
  obtains k0 M where "mset (concat bs) = add_mset (k0, old) M" "mset (concat bs') = add_mset (k0, v) M"
proof -
  from assms obtain i b where i: "tbl_index hash bs k = Ok i"
      "bucket_put eq k v (bs ! i) = Ok (Some (old, b))" "bs' = bs[i := b]"
    by (auto simp: tbl_put_def outcome_simps split: option.splits)
  from bucket_put_nodes [OF i(2)] obtain k0 M where M: "mset (bs ! i) = add_mset (k0, old) M" "mset b = add_mset (k0, v) M"
    by auto
  have len: "i < length bs" using i(1) by (rule tbl_index_less)
  then have "(k0, old) \<in># mset (concat bs)"
    using M(1) by (metis UN_I nth_mem set_concat set_mset_mset union_single_eq_member)
  then obtain N where N: "mset (concat bs) = add_mset (k0, old) N" by (metis insert_DiffM)
  with mset_concat_upd [OF len, of b] M have "mset (concat bs') = add_mset (k0, v) N"
    by (simp add: i(3))
  with N show ?thesis by (rule that)
qed

lemma tbl_del_nodes:
  assumes "tbl_del eq hash bs k = Ok (Some (nd, bs'))"
  shows "mset (concat bs) = add_mset nd (mset (concat bs'))"
proof -
  from assms obtain i b where i: "tbl_index hash bs k = Ok i"
      "bucket_del eq k (bs ! i) = Ok (Some (nd, b))" "bs' = bs[i := b]"
    by (auto simp: tbl_del_def outcome_simps split: option.splits)
  from mset_concat_upd [OF tbl_index_less [OF i(1)], of b] bucket_del_nodes [OF i(2)]
  show ?thesis by (simp add: i(3))
qed

section \<open>The table as a partial function\<close>

locale hash_table =
  fixes eq :: "'k \<Rightarrow> 'k \<Rightarrow> bool outcome"
    and hash :: "'k \<Rightarrow> 32 word outcome"
    and K :: "'k set"
    and canon :: "'k \<Rightarrow> 'c"
    and hs :: "'c \<Rightarrow> 32 word"
  assumes eq_canon: "x \<in> K \<Longrightarrow> y \<in> K \<Longrightarrow> eq x y = Ok (canon x = canon y)"
    and hash_canon: "x \<in> K \<Longrightarrow> hash x = Ok (hs (canon x))"
begin

definition slot :: "('k \<times> 'v) list list \<Rightarrow> 'c \<Rightarrow> nat" where
  "slot bs c = unat (hs c) mod length bs"

definition bucket_inv :: "('k \<times> 'v) list \<Rightarrow> bool" where
  "bucket_inv b \<longleftrightarrow> fst ` set b \<subseteq> K \<and> distinct (map (canon \<circ> fst) b)"

definition tbl_inv :: "('k \<times> 'v) list list \<Rightarrow> bool" where
  "tbl_inv bs \<longleftrightarrow> bs \<noteq> [] \<and>
     (\<forall>i < length bs. bucket_inv (bs ! i) \<and> (\<forall>kv \<in> set (bs ! i). slot bs (canon (fst kv)) = i))"

definition bucket_abs :: "('k \<times> 'v) list \<Rightarrow> 'c \<Rightarrow> 'v option" where
  "bucket_abs b = map_of (map (\<lambda>(k, v). (canon k, v)) b)"

definition tbl_abs :: "('k \<times> 'v) list list \<Rightarrow> 'c \<Rightarrow> 'v option" where
  "tbl_abs bs c = bucket_abs (bs ! slot bs c) c"

lemma bucket_abs_simps [simp]:
  "bucket_abs [] = Map.empty"
  "bucket_abs ((k, v) # b) = (bucket_abs b)(canon k \<mapsto> v)"
  by (simp_all add: bucket_abs_def)

lemma bucket_inv_simps [simp]:
  "bucket_inv []"
  "bucket_inv ((k, v) # b) \<longleftrightarrow> k \<in> K \<and> canon k \<notin> (canon \<circ> fst) ` set b \<and> bucket_inv b"
  by (auto simp: bucket_inv_def image_comp)

lemma bucket_abs_None: "c \<notin> (canon \<circ> fst) ` set b \<longleftrightarrow> bucket_abs b c = None"
  by (force simp: bucket_abs_def map_of_eq_None_iff image_iff)

lemma slot_less: "bs \<noteq> [] \<Longrightarrow> slot bs c < length bs"
  by (simp add: slot_def)

lemma tbl_index_slot: "k \<in> K \<Longrightarrow> bs \<noteq> [] \<Longrightarrow> tbl_index hash bs k = Ok (slot bs (canon k))"
  by (simp add: tbl_index_def hash_canon slot_def)

lemma bucket_lookup_abs:
  "k \<in> K \<Longrightarrow> bucket_inv b \<Longrightarrow> bucket_lookup eq k b = Ok (bucket_abs b (canon k))"
  by (induction b) (auto simp: eq_canon)

lemma bucket_put_abs:
  "k \<in> K \<Longrightarrow> bucket_inv b \<Longrightarrow>
     (case bucket_abs b (canon k) of
        None \<Rightarrow> bucket_put eq k v b = Ok None
      | Some old \<Rightarrow> \<exists>b'. bucket_put eq k v b = Ok (Some (old, b')) \<and> bucket_inv b' \<and>
          bucket_abs b' = (bucket_abs b)(canon k \<mapsto> v) \<and> map (canon \<circ> fst) b' = map (canon \<circ> fst) b)"
proof (induction b)
  case (Cons kv b)
  obtain k' v' where kv: "kv = (k', v')" by (cases kv)
  show ?case
  proof (cases "canon k' = canon k")
    case True
    then show ?thesis using Cons.prems by (auto simp: kv eq_canon)
  next
    case False
    with Cons kv have IH: "case bucket_abs b (canon k) of
        None \<Rightarrow> bucket_put eq k v b = Ok None
      | Some old \<Rightarrow> \<exists>b'. bucket_put eq k v b = Ok (Some (old, b')) \<and> bucket_inv b' \<and>
          bucket_abs b' = (bucket_abs b)(canon k \<mapsto> v) \<and> map (canon \<circ> fst) b' = map (canon \<circ> fst) b"
      by simp
    show ?thesis
    proof (cases "bucket_abs b (canon k)")
      case None
      with IH False Cons.prems show ?thesis by (simp add: kv eq_canon)
    next
      case (Some old)
      with IH obtain b' where b': "bucket_put eq k v b = Ok (Some (old, b'))" "bucket_inv b'"
          "bucket_abs b' = (bucket_abs b)(canon k \<mapsto> v)" "map (canon \<circ> fst) b' = map (canon \<circ> fst) b"
        by auto
      have "(canon \<circ> fst) ` set b' = (canon \<circ> fst) ` set b"
        using b'(4) by (metis list.set_map)
      with b' Some False Cons.prems show ?thesis
        by (auto simp: kv eq_canon fun_upd_twist)
    qed
  qed
qed simp

lemma bucket_del_abs:
  "k \<in> K \<Longrightarrow> bucket_inv b \<Longrightarrow>
     (case bucket_abs b (canon k) of
        None \<Rightarrow> bucket_del eq k b = Ok None
      | Some old \<Rightarrow> \<exists>k' b'. bucket_del eq k b = Ok (Some ((k', old), b')) \<and> bucket_inv b' \<and>
          canon k' = canon k \<and> bucket_abs b' = (bucket_abs b)(canon k := None) \<and> set b' \<subseteq> set b \<and>
          length b = Suc (length b'))"
proof (induction b)
  case (Cons kv b)
  obtain k' v' where kv: "kv = (k', v')" by (cases kv)
  show ?case
  proof (cases "canon k' = canon k")
    case True
    then have "bucket_abs b (canon k) = None"
      using Cons.prems(2) bucket_abs_None [of "canon k'" b] by (simp add: kv)
    with True Cons.prems show ?thesis by (auto simp: kv eq_canon fun_upd_idem)
  next
    case False
    with Cons kv have IH: "case bucket_abs b (canon k) of
        None \<Rightarrow> bucket_del eq k b = Ok None
      | Some old \<Rightarrow> \<exists>k' b'. bucket_del eq k b = Ok (Some ((k', old), b')) \<and> bucket_inv b' \<and>
          canon k' = canon k \<and> bucket_abs b' = (bucket_abs b)(canon k := None) \<and> set b' \<subseteq> set b \<and>
          length b = Suc (length b')"
      by simp
    show ?thesis
    proof (cases "bucket_abs b (canon k)")
      case None
      with IH False Cons.prems show ?thesis by (simp add: kv eq_canon)
    next
      case (Some old)
      with IH obtain k'' b' where b': "bucket_del eq k b = Ok (Some ((k'', old), b'))" "bucket_inv b'"
          "canon k'' = canon k" "bucket_abs b' = (bucket_abs b)(canon k := None)" "set b' \<subseteq> set b"
          "length b = Suc (length b')"
        by auto
      then have "(canon \<circ> fst) ` set b' \<subseteq> (canon \<circ> fst) ` set b" by (intro image_mono)
      then have "canon k' \<notin> (canon \<circ> fst) ` set b'"
        using Cons.prems(2) by (auto simp: kv simp del: comp_apply)
      with b' Some False Cons.prems show ?thesis
        by (simp add: kv eq_canon fun_upd_twist) (use b'(5) in blast)
    qed
  qed
qed simp

lemma tbl_invD:
  "tbl_inv bs \<Longrightarrow> bs \<noteq> []"
  "tbl_inv bs \<Longrightarrow> i < length bs \<Longrightarrow> bucket_inv (bs ! i)"
  "tbl_inv bs \<Longrightarrow> i < length bs \<Longrightarrow> kv \<in> set (bs ! i) \<Longrightarrow> slot bs (canon (fst kv)) = i"
  by (auto simp: tbl_inv_def)

lemma slot_upd [simp]: "slot (bs[i := b]) c = slot bs c"
  by (simp add: slot_def)

lemma tbl_inv_upd:
  assumes "tbl_inv bs" "i < length bs" "bucket_inv b" "\<And>kv. kv \<in> set b \<Longrightarrow> slot bs (canon (fst kv)) = i"
  shows "tbl_inv (bs[i := b])"
  using assms by (auto simp: tbl_inv_def nth_list_update)

lemma tbl_abs_upd:
  assumes "i < length bs" "\<And>c. slot bs c = i \<Longrightarrow> bucket_abs b c = f c" "\<And>c. slot bs c \<noteq> i \<Longrightarrow> tbl_abs bs c = f c"
  shows "tbl_abs (bs[i := b]) = f"
proof
  fix c
  show "tbl_abs (bs[i := b]) c = f c"
    using assms by (cases "slot bs c = i") (auto simp: tbl_abs_def)
qed

text \<open>Lookup reads the abstract map; insertion and removal update it.\<close>

lemma tbl_lookup_abs: "tbl_inv bs \<Longrightarrow> k \<in> K \<Longrightarrow> tbl_lookup eq hash bs k = Ok (tbl_abs bs (canon k))"
  by (simp add: tbl_lookup_def tbl_index_slot tbl_invD bucket_lookup_abs slot_less tbl_abs_def)

lemma tbl_put_None:
  "tbl_inv bs \<Longrightarrow> k \<in> K \<Longrightarrow> tbl_abs bs (canon k) = None \<Longrightarrow> tbl_put eq hash bs k v = Ok None"
  using bucket_put_abs [of k "bs ! slot bs (canon k)" v]
  by (simp add: tbl_put_def tbl_index_slot tbl_invD slot_less tbl_abs_def)

lemma canon_set_slot:
  assumes "map (canon \<circ> fst) b' = map (canon \<circ> fst) b" "kv \<in> set b'"
  obtains kv' where "kv' \<in> set b" "canon (fst kv') = canon (fst kv)"
  using assms by (metis (no_types, lifting) comp_apply image_iff list.set_map)

lemma tbl_put_Some:
  assumes "tbl_inv bs" "k \<in> K" "tbl_abs bs (canon k) = Some old"
  obtains bs' where "tbl_put eq hash bs k v = Ok (Some (old, bs'))" "tbl_inv bs'"
    "tbl_abs bs' = (tbl_abs bs)(canon k \<mapsto> v)" "length bs' = length bs" "length (concat bs') = length (concat bs)"
proof -
  let ?i = "slot bs (canon k)"
  have i: "?i < length bs" using assms(1) by (simp add: slot_less tbl_invD)
  obtain b where b: "bucket_put eq k v (bs ! ?i) = Ok (Some (old, b))" "bucket_inv b"
      "bucket_abs b = (bucket_abs (bs ! ?i))(canon k \<mapsto> v)"
      "map (canon \<circ> fst) b = map (canon \<circ> fst) (bs ! ?i)"
    using bucket_put_abs [of k "bs ! ?i" v] assms i by (auto simp: tbl_invD tbl_abs_def)
  have "tbl_inv (bs[?i := b])"
  proof (rule tbl_inv_upd [OF assms(1) i b(2)])
    fix kv assume "kv \<in> set b"
    with b(4) obtain kv' where "kv' \<in> set (bs ! ?i)" "canon (fst kv') = canon (fst kv)"
      by (rule canon_set_slot)
    with tbl_invD(3) [OF assms(1) i] show "slot bs (canon (fst kv)) = ?i" by metis
  qed
  moreover have "tbl_abs (bs[?i := b]) = (tbl_abs bs)(canon k \<mapsto> v)"
    by (rule tbl_abs_upd [OF i]) (auto simp: b(3) tbl_abs_def)
  moreover have "length b = length (bs ! ?i)"
    using b(4) by (metis length_map)
  then have "length (concat (bs[?i := b])) = length (concat bs)"
    using i by (simp add: length_concat map_update sum_list_update)
  ultimately show ?thesis
    using that [of "bs[?i := b]"] assms b(1) by (simp add: tbl_put_def tbl_index_slot tbl_invD)
qed

lemma tbl_del_None:
  "tbl_inv bs \<Longrightarrow> k \<in> K \<Longrightarrow> tbl_abs bs (canon k) = None \<Longrightarrow> tbl_del eq hash bs k = Ok None"
  using bucket_del_abs [of k "bs ! slot bs (canon k)"]
  by (simp add: tbl_del_def tbl_index_slot tbl_invD slot_less tbl_abs_def)

lemma tbl_del_Some:
  assumes "tbl_inv bs" "k \<in> K" "tbl_abs bs (canon k) = Some old"
  obtains k' bs' where "tbl_del eq hash bs k = Ok (Some ((k', old), bs'))" "tbl_inv bs'"
    "tbl_abs bs' = (tbl_abs bs)(canon k := None)" "length bs' = length bs"
    "length (concat bs) = Suc (length (concat bs'))"
proof -
  let ?i = "slot bs (canon k)"
  have i: "?i < length bs" using assms(1) by (simp add: slot_less tbl_invD)
  obtain k' b where b: "bucket_del eq k (bs ! ?i) = Ok (Some ((k', old), b))" "bucket_inv b"
      "bucket_abs b = (bucket_abs (bs ! ?i))(canon k := None)" "set b \<subseteq> set (bs ! ?i)"
      "length (bs ! ?i) = Suc (length b)"
    using bucket_del_abs [of k "bs ! ?i"] assms i by (auto simp: tbl_invD tbl_abs_def)
  have "tbl_inv (bs[?i := b])"
    using tbl_invD(3) [OF assms(1) i] b(4) by (intro tbl_inv_upd [OF assms(1) i b(2)]) auto
  moreover have "tbl_abs (bs[?i := b]) = (tbl_abs bs)(canon k := None)"
    by (rule tbl_abs_upd [OF i]) (auto simp: b(3) tbl_abs_def)
  moreover have "length (bs ! ?i) \<le> sum_list (map length bs)"
    using i by (intro member_le_sum_list) auto
  then have "length (concat bs) = Suc (length (concat (bs[?i := b])))"
    using i b(5) by (simp add: length_concat map_update sum_list_update)
  ultimately show ?thesis
    using that [of k' "bs[?i := b]"] assms b(1) by (simp add: tbl_del_def tbl_index_slot tbl_invD)
qed

lemma tbl_push_abs:
  assumes "tbl_inv bs" "k \<in> K" "tbl_abs bs (canon k) = None"
  obtains bs' where "tbl_push hash (k, v) bs = Ok bs'" "tbl_inv bs'"
    "tbl_abs bs' = (tbl_abs bs)(canon k \<mapsto> v)" "length bs' = length bs"
    "mset (concat bs') = add_mset (k, v) (mset (concat bs))"
proof -
  let ?i = "slot bs (canon k)"
  let ?b = "(k, v) # bs ! ?i"
  have i: "?i < length bs" using assms(1) by (simp add: slot_less tbl_invD)
  have "tbl_inv (bs[?i := ?b])"
  proof (rule tbl_inv_upd [OF assms(1) i])
    show "bucket_inv ?b"
      using assms i bucket_abs_None [of "canon k" "bs ! ?i"] by (simp add: tbl_invD tbl_abs_def)
  qed (use tbl_invD(3) [OF assms(1) i] in auto)
  moreover have "tbl_abs (bs[?i := ?b]) = (tbl_abs bs)(canon k \<mapsto> v)"
    by (rule tbl_abs_upd [OF i]) (auto simp: tbl_abs_def)
  moreover have "mset (concat (bs[?i := ?b])) = add_mset (k, v) (mset (concat bs))"
    using arg_cong [OF id_take_nth_drop [OF i], of "\<lambda>l. mset (concat l)"]
    by (simp only: upd_conv_take_nth_drop [OF i]) simp
  ultimately show ?thesis
    using that [of "bs[?i := ?b]"] assms by (simp add: tbl_push_def tbl_index_slot tbl_invD)
qed

text \<open>All nodes of a table, in one list.\<close>

lemma distinct_concat_slots:
  assumes "\<And>i. i < length ls \<Longrightarrow> distinct (map f (ls ! i))"
    and "\<And>i x. i < length ls \<Longrightarrow> x \<in> set (ls ! i) \<Longrightarrow> g (f x) = i + off"
  shows "distinct (map f (concat ls))"
  using assms
proof (induction ls arbitrary: off)
  case (Cons b ls)
  have A: "g y = off" if "y \<in> f ` set b" for y
    using Cons.prems(2) [of 0] that by auto
  have B: "g y \<noteq> off" if "y \<in> f ` set (concat ls)" for y
  proof -
    from that obtain x b' where x: "y = f x" "x \<in> set b'" "b' \<in> set ls" by auto
    from x(3) obtain i where "i < length ls" "ls ! i = b'" by (auto simp: in_set_conv_nth)
    with x show ?thesis using Cons.prems(2) [of "Suc i" x] by simp
  qed
  have "f ` set b \<inter> f ` set (concat ls) = {}"
    using A B by blast
  moreover have "distinct (map f (concat ls))"
  proof (rule Cons.IH [of "Suc off"])
    show "distinct (map f (ls ! i))" if "i < length ls" for i
      using Cons.prems(1) [of "Suc i"] that by simp
    show "g (f x) = i + Suc off" if "i < length ls" "x \<in> set (ls ! i)" for i x
      using Cons.prems(2) [of "Suc i" x] that by simp
  qed
  moreover have "distinct (map f b)" using Cons.prems(1) [of 0] by simp
  ultimately show ?case by (simp del: set_concat)
qed simp

lemma tbl_inv_distinct: "tbl_inv bs \<Longrightarrow> distinct (map (canon \<circ> fst) (concat bs))"
  by (rule distinct_concat_slots [where g = "slot bs" and off = 0])
     (auto simp: tbl_inv_def bucket_inv_def)

lemma tbl_inv_keys: "tbl_inv bs \<Longrightarrow> fst ` set (concat bs) \<subseteq> K"
  by (force simp: tbl_inv_def bucket_inv_def in_set_conv_nth)

lemma bucket_abs_Some_iff:
  assumes "distinct (map (canon \<circ> fst) b)"
  shows "bucket_abs b c = Some v \<longleftrightarrow> (\<exists>k. (k, v) \<in> set b \<and> canon k = c)"
proof -
  have "map fst (map (\<lambda>(k, v). (canon k, v)) b) = map (canon \<circ> fst) b"
    by (simp add: case_prod_beta comp_def)
  then have "distinct (map fst (map (\<lambda>(k, v). (canon k, v)) b))"
    using assms by (simp only:)
  then show ?thesis unfolding bucket_abs_def by (subst map_of_eq_Some_iff) auto
qed

lemma bucket_abs_concat: "tbl_inv bs \<Longrightarrow> bucket_abs (concat bs) = tbl_abs bs"
proof
  fix c assume inv: "tbl_inv bs"
  let ?i = "slot bs c"
  have i: "?i < length bs" using inv by (simp add: slot_less tbl_invD)
  have A: "(k, v) \<in> set (bs ! ?i)" if kv: "(k, v) \<in> set (concat bs)" "canon k = c" for k v
  proof -
    from kv(1) obtain b where "b \<in> set bs" "(k, v) \<in> set b" by auto
    then obtain j where j: "j < length bs" "(k, v) \<in> set (bs ! j)" by (metis in_set_conv_nth)
    then show ?thesis using tbl_invD(3) [OF inv j] kv(2) by simp
  qed
  have B: "set (bs ! ?i) \<subseteq> set (concat bs)" using i by (auto intro: nth_mem)
  have "(k, v) \<in> set (concat bs) \<and> canon k = c \<longleftrightarrow> (k, v) \<in> set (bs ! ?i) \<and> canon k = c" for k v
    using A B by blast
  then have "bucket_abs (concat bs) c = Some v \<longleftrightarrow> tbl_abs bs c = Some v" for v
    using tbl_inv_distinct [OF inv] tbl_invD(2) [OF inv i]
    by (simp add: tbl_abs_def bucket_abs_Some_iff bucket_inv_def)
  then show "bucket_abs (concat bs) c = tbl_abs bs c"
    by (metis not_Some_eq)
qed

lemma tbl_card: "tbl_inv bs \<Longrightarrow> card (dom (tbl_abs bs)) = length (concat bs)"
proof -
  assume inv: "tbl_inv bs"
  have dist: "distinct (map (canon \<circ> fst) (concat bs))" by (rule tbl_inv_distinct [OF inv])
  have "dom (bucket_abs (concat bs)) = set (map (canon \<circ> fst) (concat bs))"
    by (force simp: bucket_abs_def dom_map_of_conv_image_fst)
  then have "card (dom (tbl_abs bs)) = length (map (canon \<circ> fst) (concat bs))"
    using distinct_card [OF dist] bucket_abs_concat [OF inv] by simp
  then show ?thesis by simp
qed

lemma tbl_inv_empty: "0 < n \<Longrightarrow> tbl_inv (replicate n [])"
  by (simp add: tbl_inv_def)

lemma tbl_abs_empty [simp]: "0 < n \<Longrightarrow> tbl_abs (replicate n []) = Map.empty"
  by (simp add: tbl_abs_def slot_def fun_eq_iff)

lemma ofold_tbl_push:
  assumes "tbl_inv bs" "fst ` set kvs \<subseteq> K" "distinct (map (canon \<circ> fst) kvs)"
    and "\<And>kv. kv \<in> set kvs \<Longrightarrow> tbl_abs bs (canon (fst kv)) = None"
  shows "\<exists>bs'. ofold (tbl_push hash) kvs bs = Ok bs' \<and> tbl_inv bs' \<and> length bs' = length bs \<and>
     tbl_abs bs' = tbl_abs bs ++ bucket_abs kvs \<and> mset (concat bs') = mset kvs + mset (concat bs)"
  using assms
proof (induction kvs arbitrary: bs)
  case (Cons kv kvs)
  obtain k v where kv: "kv = (k, v)" by (cases kv)
  have none: "tbl_abs bs (canon k) = None" and kK: "k \<in> K"
    using Cons.prems(2) Cons.prems(4) [of kv] by (simp_all add: kv)
  obtain bs1 where bs1: "tbl_push hash (k, v) bs = Ok bs1" "tbl_inv bs1"
      "tbl_abs bs1 = (tbl_abs bs)(canon k \<mapsto> v)" "length bs1 = length bs"
      "mset (concat bs1) = add_mset (k, v) (mset (concat bs))"
    by (rule tbl_push_abs [OF Cons.prems(1) kK none])
  have none': "tbl_abs bs1 (canon (fst kv')) = None" if kv': "kv' \<in> set kvs" for kv'
  proof -
    have "canon (fst kv') \<in> (canon \<circ> fst) ` set kvs" using kv' by (metis comp_apply imageI)
    moreover have "canon k \<notin> (canon \<circ> fst) ` set kvs" using Cons.prems(3) by (simp add: kv)
    ultimately have "canon (fst kv') \<noteq> canon k" by metis
    then show ?thesis using Cons.prems(4) [of kv'] kv' by (simp add: bs1(3))
  qed
  have "\<exists>bs'. ofold (tbl_push hash) kvs bs1 = Ok bs' \<and> tbl_inv bs' \<and> length bs' = length bs1 \<and>
     tbl_abs bs' = tbl_abs bs1 ++ bucket_abs kvs \<and> mset (concat bs') = mset kvs + mset (concat bs1)"
    using Cons.prems(2,3) bs1(2) none' by (intro Cons.IH) simp_all
  then obtain bs' where bs': "ofold (tbl_push hash) kvs bs1 = Ok bs'" "tbl_inv bs'" "length bs' = length bs1"
     "tbl_abs bs' = tbl_abs bs1 ++ bucket_abs kvs" "mset (concat bs') = mset kvs + mset (concat bs1)"
    by auto
  have "bucket_abs kvs (canon k) = None"
    using Cons.prems(3) bucket_abs_None [of "canon k" kvs] by (simp add: kv)
  then have split: "tbl_abs bs1 ++ bucket_abs kvs = tbl_abs bs ++ bucket_abs (kv # kvs)"
    by (auto simp: bs1(3) kv fun_eq_iff map_add_def split: option.splits)
  show ?case
    using bs' bs1(1,4,5) by (intro exI [of _ bs']) (simp add: kv split [unfolded kv] del: bucket_abs_simps)
qed auto

lemma tbl_resize_abs:
  assumes "tbl_inv bs"
  obtains bs' where "tbl_resize hash bs = Ok bs'" "tbl_inv bs'" "length bs' = 2 * length bs"
    "tbl_abs bs' = tbl_abs bs" "mset (concat bs') = mset (concat bs)"
proof -
  have pos: "0 < 2 * length bs" using assms by (simp add: tbl_invD)
  have "mset (concat (replicate (2 * length bs) [])) = {#}"
    by (induction "2 * length bs") auto
  then show ?thesis
    using that ofold_tbl_push [OF tbl_inv_empty [OF pos] tbl_inv_keys [OF assms] tbl_inv_distinct [OF assms]]
    by (auto simp: tbl_resize_def bucket_abs_concat [OF assms] tbl_abs_empty [OF pos])
qed

lemma tbl_grow_abs:
  assumes "tbl_inv bs"
  obtains bs' where "tbl_grow hash bs n = Ok bs'" "tbl_inv bs'" "length bs \<le> length bs'"
    "tbl_abs bs' = tbl_abs bs" "mset (concat bs') = mset (concat bs)"
    "4 * n < 3 * length bs + 4 \<Longrightarrow> 2 \<le> length bs \<Longrightarrow> 4 * n < 3 * length bs'"
proof (cases "3 * length bs \<le> 4 * n")
  case True
  obtain bs' where "tbl_resize hash bs = Ok bs'" "tbl_inv bs'" "length bs' = 2 * length bs"
    "tbl_abs bs' = tbl_abs bs" "mset (concat bs') = mset (concat bs)"
    by (rule tbl_resize_abs [OF assms])
  with True that [of bs'] show ?thesis by (simp add: tbl_grow_def)
next
  case False
  with that [of bs] assms show ?thesis by (simp add: tbl_grow_def)
qed

end

end
