(* ===== verification/Containers.thy ===== *)
theory Containers
  imports Text Table
begin

text \<open>
  Arrays and maps of the runtime (\<open>rc_array_*\<close>, \<open>rc_map_*\<close>, \<open>index_get\<close>, \<open>index_set\<close> of
  \<open>vm/pyro_runtime.c\<close>), on the heap. The element order, the capacity doubling and the order of the
  releases, writes and retains are the code's. The locale \<open>hash_table\<close> is interpreted on the
  runtime's own \<open>value_eq\<close> and \<open>hash_value\<close>, once for integer keys and once for string keys; with
  those keys a map cell implements a finite map, and every operation keeps the ownership invariant.
\<close>

section \<open>Maps\<close>

definition rc_map_new :: "heap \<Rightarrow> addr \<times> heap" where
  "rc_map_new h = halloc (BMap (replicate 16 []) 0) h"

definition rc_map_resize :: "addr \<Rightarrow> heap \<Rightarrow> heap outcome" where
  "rc_map_resize a h =
     obind (deref_map h a) (\<lambda>(bs, n).
     obind (tbl_resize (hash_value h) bs) (\<lambda>bs'. hset_body h a (BMap bs' n)))"

definition rc_map_put :: "addr \<Rightarrow> val \<Rightarrow> val \<Rightarrow> heap \<Rightarrow> heap outcome" where
  \<comment> \<open>\<open>rc_map_set\<close> after its resize test\<close>
  "rc_map_put a key v h =
     obind (deref_map h a) (\<lambda>(bs, n).
     obind (tbl_put (value_eq h) (hash_value h) bs key v) (\<lambda>r.
     case r of
       Some (old, bs') \<Rightarrow>
         obind (release_value old h) (\<lambda>h1.
         obind (hset_body h1 a (BMap bs' n)) (\<lambda>h2. retain_value v h2))
     | None \<Rightarrow>
         obind (retain_value key h) (\<lambda>h1.
         obind (retain_value v h1) (\<lambda>h2.
         obind (tbl_push (hash_value h) (key, v) bs) (\<lambda>bs'.
         hset_body h2 a (BMap bs' (Suc n)))))))"

definition rc_map_set :: "addr \<Rightarrow> val \<Rightarrow> val \<Rightarrow> heap \<Rightarrow> heap outcome" where
  "rc_map_set a key v h =
     obind (deref_map h a) (\<lambda>(bs, n).
     obind (if 3 * length bs \<le> 4 * n then rc_map_resize a h else Ok h) (\<lambda>h0.
     rc_map_put a key v h0))"

definition rc_map_get :: "addr \<Rightarrow> val \<Rightarrow> heap \<Rightarrow> val outcome" where
  "rc_map_get a key h =
     obind (deref_map h a) (\<lambda>(bs, n).
     obind (tbl_lookup (value_eq h) (hash_value h) bs key) (\<lambda>r.
     Ok (case r of None \<Rightarrow> VNull | Some v \<Rightarrow> v)))"

definition rc_map_has :: "addr \<Rightarrow> val \<Rightarrow> heap \<Rightarrow> bool outcome" where
  "rc_map_has a key h =
     obind (deref_map h a) (\<lambda>(bs, n).
     obind (tbl_lookup (value_eq h) (hash_value h) bs key) (\<lambda>r. Ok (r \<noteq> None)))"

definition rc_map_remove :: "addr \<Rightarrow> val \<Rightarrow> heap \<Rightarrow> heap outcome" where
  \<comment> \<open>unlinks the node, releases key and value, and only then counts down\<close>
  "rc_map_remove a key h =
     obind (deref_map h a) (\<lambda>(bs, n).
     obind (tbl_del (value_eq h) (hash_value h) bs key) (\<lambda>r.
     case r of
       None \<Rightarrow> Ok h
     | Some ((k, v), bs') \<Rightarrow>
         obind (hset_body h a (BMap bs' n)) (\<lambda>h1.
         obind (release_value k h1) (\<lambda>h2.
         obind (release_value v h2) (\<lambda>h3. hset_body h3 a (BMap bs' (n - 1)))))))"

section \<open>Arrays\<close>

definition rc_array_new :: "heap \<Rightarrow> addr \<times> heap" where
  "rc_array_new h = halloc (BArr [] 8) h"

definition rc_array_push :: "addr \<Rightarrow> val \<Rightarrow> heap \<Rightarrow> heap outcome" where
  "rc_array_push a v h =
     obind (deref_arr h a) (\<lambda>(xs, cap).
     let cap' = (if cap \<le> length xs then 2 * cap else cap)
     in obind (oguard (length xs < cap') BufferOverflow) (\<lambda>_.
        obind (hset_body h a (BArr (xs @ [v]) cap')) (\<lambda>h1. retain_value v h1)))"

definition rc_array_get :: "addr \<Rightarrow> i64 \<Rightarrow> heap \<Rightarrow> val outcome" where
  "rc_array_get a idx h =
     obind (deref_arr h a) (\<lambda>(xs, cap).
     if sint idx < 0 \<or> int (length xs) \<le> sint idx
     then Fatal (''[Cryo Security] IndexError: index '' @ show_int (sint idx) @
            '' out of bounds (len='' @ show_int (int (length xs)) @ '')'')
     else Ok (xs ! nat (sint idx)))"

definition rc_array_set :: "addr \<Rightarrow> i64 \<Rightarrow> val \<Rightarrow> heap \<Rightarrow> heap outcome" where
  "rc_array_set a idx v h =
     obind (deref_arr h a) (\<lambda>(xs, cap).
     if sint idx < 0 \<or> int (length xs) \<le> sint idx
     then Fatal (''[Cryo Security] IndexError: index '' @ show_int (sint idx) @ '' out of bounds'')
     else obind (release_value (xs ! nat (sint idx)) h) (\<lambda>h1.
          obind (hset_body h1 a (BArr (xs[nat (sint idx) := v]) cap)) (\<lambda>h2. retain_value v h2)))"

section \<open>Indexing and the sorted key list\<close>

definition index_get :: "val \<Rightarrow> val \<Rightarrow> heap \<Rightarrow> (val \<times> heap) outcome" where
  "index_get cont key h =
     (case cont of
        VArr a \<Rightarrow> obind (as_i key) (\<lambda>idx. obind (rc_array_get a idx h) (\<lambda>v.
                  obind (retain_value v h) (\<lambda>h'. Ok (v, h'))))
      | VMap a \<Rightarrow> obind (rc_map_get a key h) (\<lambda>v. obind (retain_value v h) (\<lambda>h'. Ok (v, h')))
      | VStr a \<Rightarrow> obind (as_i key) (\<lambda>idx. obind (deref_str h a) (\<lambda>s.
                  if sint idx < 0 \<or> int (length s) \<le> sint idx
                  then Fatal ''[Cryo Security] IndexError: string index out of bounds''
                  else Ok (val_str [s ! nat (sint idx)] h)))
      | _ \<Rightarrow> Fatal ''indexing a non-indexable value'')"

definition index_set :: "val \<Rightarrow> val \<Rightarrow> val \<Rightarrow> heap \<Rightarrow> heap outcome" where
  "index_set cont key v h =
     (case cont of
        VArr a \<Rightarrow> obind (as_i key) (\<lambda>idx. rc_array_set a idx v h)
      | VMap a \<Rightarrow> rc_map_set a key v h
      | _ \<Rightarrow> Fatal ''indexed assignment on a non-indexable value'')"

definition rc_map_keys_sorted :: "addr \<Rightarrow> heap \<Rightarrow> (addr \<times> heap) outcome" where
  "rc_map_keys_sorted a h =
     (let (arr, h0) = rc_array_new h
      in obind (deref_map h0 a) (\<lambda>(bs, n).
         obind (omap (\<lambda>(k, x). obind (value_to_string h0 k) (\<lambda>s. Ok (s, k))) (concat bs)) (\<lambda>ps.
         obind (oguard (length ps \<le> n) BufferOverflow) (\<lambda>_.
         obind (ofold (\<lambda>(s, k). rc_array_push arr k) (sort_pairs ps) h0) (\<lambda>h1. Ok (arr, h1))))))"

section \<open>Nodes and references\<close>

definition node_refs :: "val \<times> val \<Rightarrow> val multiset" where
  "node_refs p = {#fst p, snd p#}"

lemma children_map_mset: "mset (children (BMap bs n)) = sum_mset (image_mset node_refs (mset (concat bs)))"
proof -
  have "mset (concat (map (\<lambda>(k, v). [k, v]) ps)) = sum_mset (image_mset node_refs (mset ps))" for ps
    by (induction ps) (auto simp: node_refs_def)
  then show ?thesis by simp
qed

lemma children_map_cong: "mset (concat bs) = mset (concat bs') \<Longrightarrow>
    mset (children (BMap bs n)) = mset (children (BMap bs' n'))"
  by (simp only: children_map_mset)

lemma kind_ok_BMap: "kind_ok v (BMap bs n) = kind_ok v (BMap bs' n')"
  by (simp add: kind_ok_def)

lemma kind_ok_BArr: "kind_ok v (BArr xs n) = kind_ok v (BArr xs' n')"
  by (simp add: kind_ok_def)

lemma kind_ok_iff [simp]:
  "kind_ok (VMap a) b \<longleftrightarrow> (\<exists>bs n. b = BMap bs n)"
  "kind_ok (VArr a) b \<longleftrightarrow> (\<exists>xs cap. b = BArr xs cap)"
  "kind_ok (VFunc f c) b \<longleftrightarrow> (\<exists>xs cap. b = BArr xs cap)"
  "kind_ok (VStr a) b \<longleftrightarrow> (\<exists>s. b = BStr s)"
  by (cases b; simp add: kind_ok_def)+

lemma deref_map_Ok_iff: "deref_map h a = Ok (bs, n) \<longleftrightarrow> (\<exists>c. hget h a = Some c \<and> cbody c = BMap bs n)"
proof (cases "hget h a")
  case (Some c)
  then show ?thesis by (cases "cbody c") (simp_all add: deref_map_def)
qed (simp add: deref_map_def deref_def)

lemma deref_arr_Ok_iff: "deref_arr h a = Ok (xs, n) \<longleftrightarrow> (\<exists>c. hget h a = Some c \<and> cbody c = BArr xs n)"
proof (cases "hget h a")
  case (Some c)
  then show ?thesis by (cases "cbody c") (simp_all add: deref_arr_def)
qed (simp add: deref_arr_def deref_def)

lemma deref_str_Ok_iff: "deref_str h a = Ok s \<longleftrightarrow> (\<exists>c. hget h a = Some c \<and> cbody c = BStr s)"
proof (cases "hget h a")
  case (Some c)
  then show ?thesis by (cases "cbody c") (simp_all add: deref_str_def)
qed (simp add: deref_str_def deref_def)

lemma root_map_cell:
  assumes "rc_sound R h" "VMap a \<in> set R"
  obtains bs n where "deref_map h a = Ok (bs, n)"
proof -
  obtain c where "hget h a = Some c" "kind_ok (VMap a) (cbody c)"
    using rc_sound_live [OF assms, of a] by auto
  then show ?thesis using that by (auto simp: deref_map_Ok_iff)
qed

lemma root_arr_cell:
  assumes "rc_sound R h" "VArr a \<in> set R"
  obtains xs cap where "deref_arr h a = Ok (xs, cap)"
proof -
  obtain c where "hget h a = Some c" "kind_ok (VArr a) (cbody c)"
    using rc_sound_live [OF assms, of a] by auto
  then show ?thesis using that by (auto simp: deref_arr_Ok_iff)
qed

lemma root_str_cell:
  assumes "rc_sound R h" "VStr a \<in> set R"
  obtains s where "deref_str h a = Ok s"
proof -
  obtain c where "hget h a = Some c" "kind_ok (VStr a) (cbody c)"
    using rc_sound_live [OF assms, of a] by auto
  then show ?thesis using that by (auto simp: deref_str_Ok_iff)
qed

text \<open>A cell that survives keeps its contents.\<close>

lemma hsub_same: "hsub h' h \<Longrightarrow> hget h' a = Some c' \<Longrightarrow> hget h a = Some c \<Longrightarrow> cbody c' = cbody c"
  using hsub_body [of h' h a c'] by simp

section \<open>Arrays keep the ownership invariant\<close>

definition push_cap :: "nat \<Rightarrow> nat \<Rightarrow> nat" where
  "push_cap n cap = (if cap \<le> n then 2 * cap else cap)"

lemma rc_array_push_sound:
  assumes inv: "rc_sound R h" and v: "v \<in> set R \<union> set (all_held h {})" and a: "VArr a \<in> set R"
    and arr: "deref_arr h a = Ok (xs, cap)" "0 < cap" "length xs \<le> cap"
  defines "b \<equiv> BArr (xs @ [v]) (push_cap (length xs) cap)"
  obtains h' where "rc_array_push a v h = Ok h'" "rc_sound R h'"
    "deref_arr h' a = Ok (xs @ [v], push_cap (length xs) cap)"
    "hsub h' (setb h a b)" "hsub (setb h a b) h'"
proof -
  obtain c where c: "hget h a = Some c" "cbody c = BArr xs cap"
    using arr(1) by (auto simp: deref_arr_Ok_iff)
  obtain h' where h': "retain_value v (setb h a b) = Ok h'" "rc_sound R h'"
      "hsub h' (setb h a b)" "hsub (setb h a b) h'"
    by (rule store_sound [OF inv v c(1), of b]) (use c(2) in \<open>simp_all add: b_def kind_ok_def\<close>)
  obtain c' where c': "hget h' a = Some c'"
    using rc_sound_live [OF h'(2) a] by auto
  from hsub_body [OF h'(3) c'] c(1) have "deref_arr h' a = Ok (xs @ [v], push_cap (length xs) cap)"
    by (simp add: deref_arr_Ok_iff c' b_def)
  moreover have "rc_array_push a v h = Ok h'"
    using h'(1) arr hset_body_setb [OF c(1), of b]
    by (simp add: rc_array_push_def Let_def b_def push_cap_def split: if_splits)
  ultimately show ?thesis using h' by (intro that)
qed

lemma rc_array_set_sound:
  assumes inv: "rc_sound R h" and v: "v \<in> set R" and a: "VArr a \<in> set R"
    and arr: "deref_arr h a = Ok (xs, cap)" and i: "0 \<le> sint idx" "sint idx < int (length xs)"
  defines "b \<equiv> BArr (xs[nat (sint idx) := v]) cap"
  obtains h' where "rc_array_set a idx v h = Ok h'" "rc_sound R h'"
    "deref_arr h' a = Ok (xs[nat (sint idx) := v], cap)" "hsub h' (setb h a b)"
proof -
  let ?i = "nat (sint idx)"
  have len: "?i < length xs" using i by linarith
  obtain c where c: "hget h a = Some c" "cbody c = BArr xs cap"
    using arr(1) by (auto simp: deref_arr_Ok_iff)
  let ?hole = "BArr (xs[?i := VNull]) cap"
  let ?M = "mset (take ?i xs @ drop (Suc ?i) xs)"
  have old: "mset (children (cbody c)) = add_mset (xs ! ?i) ?M"
    using arg_cong [OF id_take_nth_drop [OF len], of mset] by (simp add: c(2))
  have new: "mset (children b) = add_mset v ?M" and hole: "mset (children ?hole) = add_mset VNull ?M"
    by (simp_all add: b_def upd_conv_take_nth_drop [OF len])
  obtain h2 h' where h': "release_value (xs ! ?i) h = Ok h2" "hget h2 a \<noteq> None"
      "retain_value v (setb h2 a b) = Ok h'" "rc_sound R h'" "hsub h' (setb h a b)"
    by (rule overwrite_sound [OF inv v c(1) a _ old new hole])
       (use c(2) in \<open>simp_all add: b_def kind_ok_def\<close>)
  obtain c' where c': "hget h' a = Some c'"
    using rc_sound_live [OF h'(4) a] by auto
  from hsub_body [OF h'(5) c'] c(1) have "deref_arr h' a = Ok (xs[?i := v], cap)"
    by (simp add: deref_arr_Ok_iff c' b_def)
  moreover have "rc_array_set a idx v h = Ok h'"
    using h'(1,2,3) arr i by (auto simp: rc_array_set_def hset_body_setb b_def)
  ultimately show ?thesis using h' by (intro that)
qed

section \<open>Maps with well-behaved keys\<close>

locale map_keys = hash_table "value_eq h" "hash_value h" K canon hs
  for h :: heap and K :: "val set" and canon :: "val \<Rightarrow> 'c" and hs
begin

lemma rc_map_get_abs:
  assumes "deref_map h a = Ok (bs, n)" "tbl_inv bs" "k \<in> K"
  shows "rc_map_get a k h = Ok (case tbl_abs bs (canon k) of None \<Rightarrow> VNull | Some v \<Rightarrow> v)"
    and "rc_map_has a k h = Ok (tbl_abs bs (canon k) \<noteq> None)"
  using assms by (simp_all add: rc_map_get_def rc_map_has_def tbl_lookup_abs)

lemma rc_map_remove_absent:
  assumes "deref_map h a = Ok (bs, n)" "tbl_inv bs" "k \<in> K" "tbl_abs bs (canon k) = None"
  shows "rc_map_remove a k h = Ok h"
  using assms by (simp add: rc_map_remove_def tbl_del_None)

lemma rc_map_remove_present:
  assumes inv: "rc_sound R h" and a: "VMap a \<in> set R"
    and m: "deref_map h a = Ok (bs, n)" "tbl_inv bs" "k \<in> K" "tbl_abs bs (canon k) = Some old"
  obtains h' bs' where "rc_map_remove a k h = Ok h'" "rc_sound R h'"
    "deref_map h' a = Ok (bs', n - 1)" "hsub h' (setb h a (BMap bs' (n - 1)))"
    "tbl_inv bs'" "tbl_abs bs' = (tbl_abs bs)(canon k := None)"
    "length (concat bs) = Suc (length (concat bs'))" "length bs' = length bs"
proof -
  obtain c where c: "hget h a = Some c" "cbody c = BMap bs n"
    using m(1) by (auto simp: deref_map_Ok_iff)
  obtain k' bs' where d: "tbl_del (value_eq h) (hash_value h) bs k = Ok (Some ((k', old), bs'))" "tbl_inv bs'"
      "tbl_abs bs' = (tbl_abs bs)(canon k := None)" "length bs' = length bs"
      "length (concat bs) = Suc (length (concat bs'))"
    by (rule tbl_del_Some [OF m(2-4)])
  have nodes: "mset (children (cbody c)) = {#k', old#} + mset (children (BMap bs' n))"
    unfolding c(2) children_map_mset tbl_del_nodes [OF d(1)] by (simp add: node_refs_def)
  have "rc_sound (k' # old # R) (setb h a (BMap bs' n))"
    by (rule rc_sound_setb [OF inv c(1)]) (use nodes in \<open>simp_all add: c(2) kind_ok_def\<close>)
  then obtain h2 where h2: "release_value k' (setb h a (BMap bs' n)) = Ok h2" "rc_sound (old # R) h2"
      "hsub h2 (setb h a (BMap bs' n))"
    by (rule release_sound)
  from h2(2) obtain h3 where h3: "release_value old h2 = Ok h3" "rc_sound R h3" "hsub h3 h2"
    by (rule release_sound)
  obtain c3 where c3: "hget h3 a = Some c3" using rc_sound_live [OF h3(2) a] by auto
  note sub = hsub_trans [OF h3(3) h2(3)]
  have c3b: "cbody c3 = BMap bs' n" using hsub_body [OF sub c3] c(1) by simp
  let ?h = "setb h3 a (BMap bs' (n - 1))"
  have "rc_sound R ?h"
    by (rule rc_sound_setb [OF h3(2) c3]) (simp_all add: c3b kind_ok_def)
  moreover have "hsub ?h (setb h a (BMap bs' (n - 1)))"
    using hsub_setb [OF sub, of a "BMap bs' (n - 1)"] by simp
  moreover have "deref_map ?h a = Ok (bs', n - 1)"
    by (simp add: deref_map_Ok_iff c3)
  moreover have "rc_map_remove a k h = Ok ?h"
    using d(1) h2(1) h3(1) hset_body_setb [OF c(1), of "BMap bs' n"] hset_body_setb [OF c3, of "BMap bs' (n - 1)"]
    by (simp add: rc_map_remove_def m(1))
  ultimately show ?thesis using d by (intro that)
qed

lemma rc_map_resize_sound:
  assumes inv: "rc_sound R h" and a: "VMap a \<in> set R" and m: "deref_map h a = Ok (bs, n)" "tbl_inv bs"
  obtains h' bs' where "rc_map_resize a h = Ok h'" "rc_sound R h'" "h' = setb h a (BMap bs' n)"
    "tbl_inv bs'" "tbl_abs bs' = tbl_abs bs" "length bs' = 2 * length bs" "length (concat bs') = length (concat bs)"
proof -
  obtain c where c: "hget h a = Some c" "cbody c = BMap bs n"
    using m(1) by (auto simp: deref_map_Ok_iff)
  obtain bs' where r: "tbl_resize (hash_value h) bs = Ok bs'" "tbl_inv bs'" "length bs' = 2 * length bs"
      "tbl_abs bs' = tbl_abs bs" "mset (concat bs') = mset (concat bs)"
    by (rule tbl_resize_abs [OF m(2)])
  have "rc_sound R (setb h a (BMap bs' n))"
    by (rule rc_sound_setb [OF inv c(1)])
       (use children_map_cong [OF r(5), of n n] in \<open>simp_all add: c(2) kind_ok_def\<close>)
  moreover have "rc_map_resize a h = Ok (setb h a (BMap bs' n))"
    using r(1) hset_body_setb [OF c(1), of "BMap bs' n"] by (simp add: rc_map_resize_def m(1))
  moreover have "length (concat bs') = length (concat bs)" using r(5) by (rule mset_eq_length)
  ultimately show ?thesis using r that by blast
qed

lemma rc_map_put_present:
  assumes inv: "rc_sound R h" and v: "v \<in> set R" and a: "VMap a \<in> set R"
    and m: "deref_map h a = Ok (bs, n)" "tbl_inv bs" "k \<in> K" "tbl_abs bs (canon k) = Some old"
  obtains h' bs' where "rc_map_put a k v h = Ok h'" "rc_sound R h'"
    "deref_map h' a = Ok (bs', n)" "hsub h' (setb h a (BMap bs' n))"
    "tbl_inv bs'" "tbl_abs bs' = (tbl_abs bs)(canon k \<mapsto> v)"
    "length (concat bs') = length (concat bs)" "length bs' = length bs"
proof -
  obtain c where c: "hget h a = Some c" "cbody c = BMap bs n"
    using m(1) by (auto simp: deref_map_Ok_iff)
  obtain bs' where p: "tbl_put (value_eq h) (hash_value h) bs k v = Ok (Some (old, bs'))" "tbl_inv bs'"
      "tbl_abs bs' = (tbl_abs bs)(canon k \<mapsto> v)" "length bs' = length bs"
      "length (concat bs') = length (concat bs)"
    by (rule tbl_put_Some [OF m(2-4)])
  obtain k0 M where M: "mset (concat bs) = add_mset (k0, old) M" "mset (concat bs') = add_mset (k0, v) M"
    by (rule tbl_put_nodes [OF p(1)])
  obtain l where l: "mset l = M" by (metis ex_mset)
  let ?b = "BMap bs' n" and ?hole = "BMap [(k0, VNull) # l] n"
  let ?M = "add_mset k0 (sum_mset (image_mset node_refs M))"
  have old: "mset (children (cbody c)) = add_mset old ?M"
    and new: "mset (children ?b) = add_mset v ?M" and hole: "mset (children ?hole) = add_mset VNull ?M"
    unfolding c(2) children_map_mset M by (simp_all add: node_refs_def l)
  obtain h2 h' where h': "release_value old h = Ok h2" "hget h2 a \<noteq> None"
      "retain_value v (setb h2 a ?b) = Ok h'" "rc_sound R h'" "hsub h' (setb h a ?b)"
    by (rule overwrite_sound [OF inv v c(1) a _ old new hole]) (simp_all add: c(2) kind_ok_def)
  obtain c' where c': "hget h' a = Some c'" using rc_sound_live [OF h'(4) a] by auto
  from hsub_body [OF h'(5) c'] c(1) have "deref_map h' a = Ok (bs', n)"
    by (simp add: deref_map_Ok_iff c')
  moreover have "rc_map_put a k v h = Ok h'"
    using h'(1,2,3) p(1) by (auto simp: rc_map_put_def m(1) hset_body_setb)
  ultimately show ?thesis using h' p by (intro that)
qed

lemma rc_map_put_absent:
  assumes inv: "rc_sound R h" and k: "k \<in> set R" and v: "v \<in> set R" and a: "VMap a \<in> set R"
    and m: "deref_map h a = Ok (bs, n)" "tbl_inv bs" "k \<in> K" "tbl_abs bs (canon k) = None"
  obtains h' bs' where "rc_map_put a k v h = Ok h'" "rc_sound R h'"
    "deref_map h' a = Ok (bs', Suc n)" "hsub h' (setb h a (BMap bs' (Suc n)))"
    "tbl_inv bs'" "tbl_abs bs' = (tbl_abs bs)(canon k \<mapsto> v)"
    "length (concat bs') = Suc (length (concat bs))" "length bs' = length bs"
proof -
  obtain c where c: "hget h a = Some c" "cbody c = BMap bs n"
    using m(1) by (auto simp: deref_map_Ok_iff)
  obtain bs' where p: "tbl_push (hash_value h) (k, v) bs = Ok bs'" "tbl_inv bs'"
      "tbl_abs bs' = (tbl_abs bs)(canon k \<mapsto> v)" "length bs' = length bs"
      "mset (concat bs') = add_mset (k, v) (mset (concat bs))"
    by (rule tbl_push_abs [OF m(2-4)])
  obtain h1 where h1: "retain_value k h = Ok h1" "rc_sound (k # R) h1" "hsub h1 h"
    by (rule retain_sound [OF inv, of k]) (use k in auto)
  obtain h2 where h2: "retain_value v h1 = Ok h2" "rc_sound (v # k # R) h2" "hsub h2 h1"
    by (rule retain_sound [OF h1(2), of v]) (use v in auto)
  obtain c2 where c2: "hget h2 a = Some c2" using rc_sound_live [OF h2(2), of "VMap a" a] a by auto
  note sub = hsub_trans [OF h2(3) h1(3)]
  have c2b: "cbody c2 = BMap bs n" using hsub_body [OF sub c2] c by simp
  let ?b = "BMap bs' (Suc n)"
  have nodes: "mset (children ?b) = {#k, v#} + mset (children (BMap bs n))"
    unfolding children_map_mset p(5) by (simp add: node_refs_def)
  have "rc_sound R (setb h2 a ?b)"
    by (rule rc_sound_setb [OF h2(2) c2]) (use nodes in \<open>simp_all add: c2b kind_ok_def\<close>)
  moreover have "hsub (setb h2 a ?b) (setb h a ?b)" using sub by (rule hsub_setb)
  moreover have "deref_map (setb h2 a ?b) a = Ok (bs', Suc n)" by (simp add: deref_map_Ok_iff c2)
  moreover have "rc_map_put a k v h = Ok (setb h2 a ?b)"
    using h1(1) h2(1) p(1) hset_body_setb [OF c2, of ?b] tbl_put_None [OF m(2-4)]
    by (simp add: rc_map_put_def m(1))
  moreover have "length (concat bs') = Suc (length (concat bs))"
    using arg_cong [OF p(5), of size] by simp
  ultimately show ?thesis using p by (intro that)
qed

text \<open>\<open>rc_map_set\<close> as a whole: a resize first, when the table is three quarters full.\<close>

lemma rc_map_set_abs:
  assumes inv: "rc_sound R h" and k: "k \<in> set R" and v: "v \<in> set R" and a: "VMap a \<in> set R"
    and m: "deref_map h a = Ok (bs, n)" "tbl_inv bs" "k \<in> K" and sz: "n = length (concat bs)"
    and stable: "\<And>bs'. map_keys (setb h a (BMap bs' n)) K canon hs"
  obtains h' bs' where "rc_map_set a k v h = Ok h'" "rc_sound R h'"
    "deref_map h' a = Ok (bs', length (concat bs'))" "hsub h' (setb h a (BMap bs' (length (concat bs'))))"
    "tbl_inv bs'" "tbl_abs bs' = (tbl_abs bs)(canon k \<mapsto> v)"
proof -
  obtain h0 bs0 where h0: "(if 3 * length bs \<le> 4 * n then rc_map_resize a h else Ok h) = Ok h0"
      "rc_sound R h0" "h0 = setb h a (BMap bs0 n)" "deref_map h0 a = Ok (bs0, n)"
      "tbl_inv bs0" "tbl_abs bs0 = tbl_abs bs" "length (concat bs0) = n"
  proof (cases "3 * length bs \<le> 4 * n")
    case True
    obtain h' bs' where r: "rc_map_resize a h = Ok h'" "rc_sound R h'" "h' = setb h a (BMap bs' n)"
        "tbl_inv bs'" "tbl_abs bs' = tbl_abs bs" "length (concat bs') = length (concat bs)"
      by (rule rc_map_resize_sound [OF inv a m(1,2)])
    moreover have "deref_map h' a = Ok (bs', n)"
      using m(1) by (auto simp: r(3) deref_map_Ok_iff)
    ultimately show ?thesis using that [of h' bs'] True sz by simp
  next
    case False
    obtain c where c: "hget h a = Some c" "cbody c = BMap bs n"
      using m(1) by (auto simp: deref_map_Ok_iff)
    have self: "h = setb h a (BMap bs n)" using setb_self [OF c(1)] c(2) by simp
    have "(if 3 * length bs \<le> 4 * n then rc_map_resize a h else Ok h) = Ok h" using False by simp
    then show ?thesis by (rule that [OF _ inv self m(1,2) refl sz [symmetric]])
  qed
  note at_h0 = stable [of bs0, folded h0(3)]
  have sub: "hsub h' (setb h a b)" if "hsub h' (setb h0 a b)" for h' b
    using that by (simp add: h0(3))
  have run: "rc_map_set a k v h = rc_map_put a k v h0"
    by (simp add: rc_map_set_def m(1) h0(1))
  show ?thesis
  proof (cases "tbl_abs bs (canon k)")
    case None
    then have none: "tbl_abs bs0 (canon k) = None" by (simp add: h0(6))
    obtain h' bs' where "rc_map_put a k v h0 = Ok h'" "rc_sound R h'" "deref_map h' a = Ok (bs', Suc n)"
        "hsub h' (setb h0 a (BMap bs' (Suc n)))" "tbl_inv bs'" "tbl_abs bs' = (tbl_abs bs0)(canon k \<mapsto> v)"
        "length (concat bs') = Suc (length (concat bs0))"
      by (rule map_keys.rc_map_put_absent [OF at_h0 h0(2) k v a h0(4,5) m(3) none])
    then show ?thesis using that [of h' bs'] sub h0(6,7) by (simp add: run)
  next
    case (Some old)
    then have some: "tbl_abs bs0 (canon k) = Some old" by (simp add: h0(6))
    obtain h' bs' where "rc_map_put a k v h0 = Ok h'" "rc_sound R h'" "deref_map h' a = Ok (bs', n)"
        "hsub h' (setb h0 a (BMap bs' n))" "tbl_inv bs'" "tbl_abs bs' = (tbl_abs bs0)(canon k \<mapsto> v)"
        "length (concat bs') = length (concat bs0)"
      by (rule map_keys.rc_map_put_present [OF at_h0 h0(2) v a h0(4,5) m(3) some])
    then show ?thesis using that [of h' bs'] sub h0(6,7) by (simp add: run)
  qed
qed

end

section \<open>Integer keys\<close>

definition int_key :: "val \<Rightarrow> i64" where
  "int_key v = (case v of VInt i \<Rightarrow> i | _ \<Rightarrow> 0)"

definition int_hash :: "i64 \<Rightarrow> 32 word" where
  "int_hash i = ucast (xor i (signed_drop_bit 32 i))"

lemma int_key_VInt [simp]: "int_key (VInt i) = i"
  by (simp add: int_key_def)

lemma value_eq_VInt [simp]: "value_eq h (VInt i) (VInt j) = Ok (i = j)"
  by (simp add: value_eq_def is_str_def is_float_def is_bool_def)

lemma hash_value_VInt [simp]: "hash_value h (VInt i) = Ok (int_hash i)"
  by (simp add: hash_value_def int_hash_def)

interpretation int_keys: map_keys h "range VInt" int_key int_hash for h
  by unfold_locales auto

definition int_map :: "heap \<Rightarrow> addr \<Rightarrow> (i64 \<Rightarrow> val option) \<Rightarrow> bool" where
  \<comment> \<open>the cell at \<open>a\<close> is a map with integer keys only, and it stands for \<open>m\<close>\<close>
  "int_map h a m = (case deref_map h a of
       Ok (bs, n) \<Rightarrow> int_keys.tbl_inv bs \<and> int_keys.tbl_abs bs = m \<and> n = length (concat bs)
     | _ \<Rightarrow> False)"

lemma int_mapE:
  assumes "int_map h a m"
  obtains bs n where "deref_map h a = Ok (bs, n)" "int_keys.tbl_inv bs" "int_keys.tbl_abs bs = m" "n = length (concat bs)"
  using assms by (auto simp: int_map_def split: outcome.splits)

lemma int_map_set:
  assumes "rc_sound R h" "v \<in> set R" "VMap a \<in> set R" "int_map h a m"
  shows "\<exists>h'. rc_map_set a (VInt k) v h = Ok h' \<and> rc_sound R h' \<and> int_map h' a (m(k \<mapsto> v))"
proof -
  from assms(4) obtain bs n where m: "deref_map h a = Ok (bs, n)" "int_keys.tbl_inv bs"
      "int_keys.tbl_abs bs = m" "n = length (concat bs)"
    by (rule int_mapE)
  have "rc_sound (VInt k # R) h" using assms(1) by (simp add: rc_sound_def rc_inv_Cons_None)
  then obtain h' bs' where h': "rc_map_set a (VInt k) v h = Ok h'" "rc_sound (VInt k # R) h'"
    "deref_map h' a = Ok (bs', length (concat bs'))" "int_keys.tbl_inv bs'"
    "int_keys.tbl_abs bs' = (int_keys.tbl_abs bs)(int_key (VInt k) \<mapsto> v)"
    by (rule int_keys.rc_map_set_abs [of "VInt k # R" h "VInt k" v a bs n])
       (use assms m int_keys.map_keys_axioms in auto)
  have "rc_sound R h'" using h'(2) by (simp add: rc_sound_def rc_inv_Cons_None)
  with h' m(3) show ?thesis by (simp add: int_map_def int_key_def)
qed

lemma int_map_get:
  assumes "int_map h a m"
  shows "rc_map_get a (VInt k) h = Ok (case m k of None \<Rightarrow> VNull | Some v \<Rightarrow> v)"
    and "rc_map_has a (VInt k) h = Ok (m k \<noteq> None)"
  using assms int_keys.rc_map_get_abs [of h a _ _ "VInt k"]
  by (auto elim!: int_mapE simp: int_key_def)

lemma int_map_remove:
  assumes "rc_sound R h" "VMap a \<in> set R" "int_map h a m"
  shows "\<exists>h'. rc_map_remove a (VInt k) h = Ok h' \<and> rc_sound R h' \<and> int_map h' a (m(k := None))"
proof -
  from assms(3) obtain bs n where m: "deref_map h a = Ok (bs, n)" "int_keys.tbl_inv bs"
      "int_keys.tbl_abs bs = m" "n = length (concat bs)"
    by (rule int_mapE)
  have key: "int_key (VInt k) = k" by (simp add: int_key_def)
  show ?thesis
  proof (cases "m k")
    case None
    then have "rc_map_remove a (VInt k) h = Ok h" "m(k := None) = m"
      using int_keys.rc_map_remove_absent [OF m(1,2), of "VInt k"] m(3) by (auto simp: key)
    then show ?thesis using assms by simp
  next
    case (Some old)
    obtain h' bs' where "rc_map_remove a (VInt k) h = Ok h'" "rc_sound R h'" "deref_map h' a = Ok (bs', n - 1)"
      "int_keys.tbl_inv bs'" "int_keys.tbl_abs bs' = (int_keys.tbl_abs bs)(int_key (VInt k) := None)"
      "length (concat bs) = Suc (length (concat bs'))"
      by (rule int_keys.rc_map_remove_present [OF assms(1,2) m(1,2), of "VInt k" old])
         (use Some m(3) key in auto)
    with m(3,4) show ?thesis by (simp add: int_map_def key)
  qed
qed

section \<open>String keys\<close>

text \<open>
  Strings without an embedded NUL: \<open>value_eq\<close> compares what \<open>strcmp\<close> sees, \<open>hash_value\<close> reads all
  \<open>length\<close> bytes, so only there the two agree.
\<close>

definition str_of :: "heap \<Rightarrow> val \<Rightarrow> string" where
  "str_of h v = (case v of VStr a \<Rightarrow> (case deref_str h a of Ok s \<Rightarrow> s | _ \<Rightarrow> []) | _ \<Rightarrow> [])"

definition str_vals :: "heap \<Rightarrow> val set" where
  "str_vals h = {v. \<exists>a s. v = VStr a \<and> deref_str h a = Ok s \<and> nul \<notin> set s}"

definition str_hash :: "string \<Rightarrow> 32 word" where
  "str_hash s = fold fnv_step s 2166136261"

interpretation str_keys: map_keys h "str_vals h" "str_of h" str_hash for h
proof unfold_locales
  fix x y assume "x \<in> str_vals h" "y \<in> str_vals h"
  then obtain a s b t where xy: "x = VStr a" "deref_str h a = Ok s" "nul \<notin> set s"
      "y = VStr b" "deref_str h b = Ok t" "nul \<notin> set t"
    by (auto simp: str_vals_def)
  then show "value_eq h x y = Ok (str_of h x = str_of h y)"
    by (simp add: value_eq_def is_str_def value_to_string_VStr c_str_id str_of_def)
qed (auto simp: str_vals_def str_of_def hash_value_def str_hash_def)

definition str_map :: "heap \<Rightarrow> addr \<Rightarrow> (string \<Rightarrow> val option) \<Rightarrow> bool" where
  \<comment> \<open>the cell at \<open>a\<close> is a map with NUL-free string keys only, and it stands for \<open>m\<close>\<close>
  "str_map h a m = (case deref_map h a of
       Ok (bs, n) \<Rightarrow> str_keys.tbl_inv h bs \<and> str_keys.tbl_abs h bs = m \<and> n = length (concat bs)
     | _ \<Rightarrow> False)"

lemma str_mapE:
  assumes "str_map h a m"
  obtains bs n where "deref_map h a = Ok (bs, n)" "str_keys.tbl_inv h bs" "str_keys.tbl_abs h bs = m"
    "n = length (concat bs)"
  using assms by (auto simp: str_map_def split: outcome.splits)

text \<open>A string that survives keeps its bytes, so a table means the same in the later heap.\<close>

lemma str_of_same:
  assumes "hsub h' h" "v \<in> str_vals h" "val_ok h' v"
  shows "v \<in> str_vals h'" "str_of h' v = str_of h v"
proof -
  from assms(2) obtain a s where v: "v = VStr a" "deref_str h a = Ok s" "nul \<notin> set s"
    by (auto simp: str_vals_def)
  from assms(3) v(1) obtain c' where c': "hget h' a = Some c'" by (auto simp: val_ok_def split: option.splits)
  with hsub_body [OF assms(1) c'] v(2) have "deref_str h' a = Ok s" by (auto simp: deref_str_Ok_iff)
  with v show "v \<in> str_vals h'" "str_of h' v = str_of h v" by (auto simp: str_vals_def str_of_def)
qed

lemma str_vals_setb_map [simp]:
  assumes "deref_map h a = Ok (bs, n)"
  shows "str_vals (setb h a (BMap bs' n')) = str_vals h" "str_of (setb h a (BMap bs' n')) = str_of h"
proof -
  have eq: "deref_str (setb h a (BMap bs' n')) = deref_str h"
  proof
    fix x
    show "deref_str (setb h a (BMap bs' n')) x = deref_str h x"
      using assms by (cases "x = a") (auto simp: deref_str_def deref_map_Ok_iff deref_def)
  qed
  show "str_vals (setb h a (BMap bs' n')) = str_vals h" by (simp only: str_vals_def eq)
  show "str_of (setb h a (BMap bs' n')) = str_of h" by (rule ext) (simp only: str_of_def eq)
qed

lemma bucket_abs_map_cong: "(\<And>kv. kv \<in> set b \<Longrightarrow> f (fst kv) = g (fst kv)) \<Longrightarrow>
    map (\<lambda>(k, v). (f k, v)) b = map (\<lambda>(k, v). (g k, v)) b"
  by (rule map_cong) auto

lemma str_table_same:
  assumes "str_keys.tbl_inv h bs" "\<And>kv. kv \<in> set (concat bs) \<Longrightarrow> fst kv \<in> str_vals h' \<and> str_of h' (fst kv) = str_of h (fst kv)"
  shows "str_keys.tbl_inv h' bs" "str_keys.tbl_abs h' bs = str_keys.tbl_abs h bs"
proof -
  have same: "fst kv \<in> str_vals h' \<and> str_of h' (fst kv) = str_of h (fst kv)" if "i < length bs" "kv \<in> set (bs ! i)" for i kv
    using that assms(2) by (metis UN_I nth_mem set_concat)
  show "str_keys.tbl_inv h' bs"
    unfolding str_keys.tbl_inv_def str_keys.slot_def str_keys.bucket_inv_def
  proof (intro conjI allI impI ballI)
    show "bs \<noteq> []" using assms(1) by (simp add: str_keys.tbl_inv_def)
    fix i assume i: "i < length bs"
    then show "fst ` set (bs ! i) \<subseteq> str_vals h'" using same by auto
    have "map (str_of h' \<circ> fst) (bs ! i) = map (str_of h \<circ> fst) (bs ! i)"
      using same [OF i] by (intro map_cong) auto
    then show "distinct (map (str_of h' \<circ> fst) (bs ! i))"
      using str_keys.tbl_invD(2) [OF assms(1) i] by (simp only: str_keys.bucket_inv_def)
    fix kv assume kv: "kv \<in> set (bs ! i)"
    then show "unat (str_hash (str_of h' (fst kv))) mod length bs = i"
      using str_keys.tbl_invD(3) [OF assms(1) i kv] same [OF i kv] by (simp add: str_keys.slot_def)
  qed
  show "str_keys.tbl_abs h' bs = str_keys.tbl_abs h bs"
  proof
    fix c
    have "str_keys.slot bs c < length bs"
      using assms(1) by (intro str_keys.slot_less) (simp add: str_keys.tbl_inv_def)
    then have "map (\<lambda>(k, v). (str_of h' k, v)) (bs ! str_keys.slot bs c) =
        map (\<lambda>(k, v). (str_of h k, v)) (bs ! str_keys.slot bs c)"
      using same by (intro bucket_abs_map_cong) auto
    then show "str_keys.tbl_abs h' bs c = str_keys.tbl_abs h bs c"
      by (simp only: str_keys.tbl_abs_def str_keys.bucket_abs_def)
  qed
qed

lemma map_key_held:
  assumes "rc_sound R h" "deref_map h a = Ok (bs, n)" "kv \<in> set (concat bs)"
  shows "val_ok h (fst kv)"
proof -
  obtain c where c: "hget h a = Some c" "cbody c = BMap bs n"
    using assms(2) by (auto simp: deref_map_Ok_iff)
  have "fst kv \<in> set (concat (map (\<lambda>(k, v). [k, v]) xs))" if "kv \<in> set xs" for xs
    using that by (induction xs) auto
  then have "fst kv \<in> set (children (cbody c))" using assms(3) by (simp only: c(2) children.simps)
  then show ?thesis by (rule heap_okD [OF rc_sound_heap_ok [OF assms(1)] c(1)])
qed

lemma str_table_after:
  assumes "rc_sound R h'" "deref_map h' a = Ok (bs', n')" "deref_map h a = Ok (bs, n)"
    "hsub h' (setb h a (BMap bs'' n''))" "str_keys.tbl_inv h bs'"
  shows "str_keys.tbl_inv h' bs'" "str_keys.tbl_abs h' bs' = str_keys.tbl_abs h bs'"
proof -
  have "fst kv \<in> str_vals h' \<and> str_of h' (fst kv) = str_of h (fst kv)" if kv: "kv \<in> set (concat bs')" for kv
  proof -
    have "fst kv \<in> str_vals h" using str_keys.tbl_inv_keys [OF assms(5)] kv by blast
    then have "fst kv \<in> str_vals (setb h a (BMap bs'' n''))" by (simp only: str_vals_setb_map [OF assms(3)])
    from str_of_same [OF assms(4) this map_key_held [OF assms(1,2) kv]] show ?thesis
      by (simp only: str_vals_setb_map [OF assms(3)])
  qed
  then show "str_keys.tbl_inv h' bs'" "str_keys.tbl_abs h' bs' = str_keys.tbl_abs h bs'"
    using str_table_same [OF assms(5), of h'] by auto
qed

lemma str_map_set:
  assumes "rc_sound R h" "k \<in> set R" "k \<in> str_vals h" "v \<in> set R" "VMap a \<in> set R" "str_map h a m"
  shows "\<exists>h' b. rc_map_set a k v h = Ok h' \<and> rc_sound R h' \<and> str_map h' a (m(str_of h k \<mapsto> v)) \<and> hsub h' (setb h a b)"
proof -
  from assms(6) obtain bs n where m: "deref_map h a = Ok (bs, n)" "str_keys.tbl_inv h bs"
      "str_keys.tbl_abs h bs = m" "n = length (concat bs)"
    by (rule str_mapE)
  have stable: "map_keys (setb h a (BMap bs' n)) (str_vals h) (str_of h) str_hash" for bs'
    using str_keys.map_keys_axioms [of "setb h a (BMap bs' n)"] m(1) by simp
  obtain h' bs' where h': "rc_map_set a k v h = Ok h'" "rc_sound R h'"
    "deref_map h' a = Ok (bs', length (concat bs'))" "hsub h' (setb h a (BMap bs' (length (concat bs'))))"
    "str_keys.tbl_inv h bs'" "str_keys.tbl_abs h bs' = (str_keys.tbl_abs h bs)(str_of h k \<mapsto> v)"
    by (rule str_keys.rc_map_set_abs [OF assms(1,2,4,5) m(1,2) assms(3) m(4) stable])
  with str_table_after [OF h'(2,3) m(1) h'(4,5)] m(3)
  have "str_map h' a (m(str_of h k \<mapsto> v))" by (simp add: str_map_def)
  with h'(1,2,4) show ?thesis by blast
qed

lemma str_map_get:
  assumes "str_map h a m" "k \<in> str_vals h"
  shows "rc_map_get a k h = Ok (case m (str_of h k) of None \<Rightarrow> VNull | Some v \<Rightarrow> v)"
    and "rc_map_has a k h = Ok (m (str_of h k) \<noteq> None)"
  using assms str_keys.rc_map_get_abs [of h a _ _ k] by (auto elim!: str_mapE)

lemma str_map_remove:
  assumes "rc_sound R h" "k \<in> str_vals h" "VMap a \<in> set R" "str_map h a m"
  shows "\<exists>h'. rc_map_remove a k h = Ok h' \<and> rc_sound R h' \<and> str_map h' a (m(str_of h k := None))"
proof -
  from assms(4) obtain bs n where m: "deref_map h a = Ok (bs, n)" "str_keys.tbl_inv h bs"
      "str_keys.tbl_abs h bs = m" "n = length (concat bs)"
    by (rule str_mapE)
  show ?thesis
  proof (cases "m (str_of h k)")
    case None
    then have "rc_map_remove a k h = Ok h" "m(str_of h k := None) = m"
      using str_keys.rc_map_remove_absent [OF m(1,2) assms(2)] m(3) by auto
    then show ?thesis using assms by simp
  next
    case (Some old)
    with m(3) have some: "str_keys.tbl_abs h bs (str_of h k) = Some old" by simp
    obtain h' bs' where h': "rc_map_remove a k h = Ok h'" "rc_sound R h'" "deref_map h' a = Ok (bs', n - 1)"
      "hsub h' (setb h a (BMap bs' (n - 1)))"
      "str_keys.tbl_inv h bs'" "str_keys.tbl_abs h bs' = (str_keys.tbl_abs h bs)(str_of h k := None)"
      "length (concat bs) = Suc (length (concat bs'))"
      by (rule str_keys.rc_map_remove_present [OF assms(1,3) m(1,2) assms(2) some])
    with str_table_after [OF h'(2,3) m(1) h'(4,5)] m(3,4) show ?thesis by (simp add: str_map_def)
  qed
qed

section \<open>Sorted keys and rendering\<close>

lemma sort_pairs_graph:
  assumes "distinct (map fst ps)"
  shows "sort_pairs ps = map (\<lambda>k. (k, the (map_of ps k))) (sorted_list_of_set (dom (map_of ps)))"
proof -
  let ?qs = "sort_pairs ps"
  have set: "set ?qs = set ps" and mset: "mset ?qs = mset ps" by (simp_all add: sort_pairs_def)
  have dist: "distinct (map fst ?qs)"
    using assms mset by (metis mset_eq_imp_distinct_iff mset_map)
  have "map fst ?qs = sorted_list_of_set (dom (map_of ps))"
  proof (rule sorted_distinct_set_unique)
    show "sorted (map fst ?qs)" by (simp add: sort_pairs_def)
    show "set (map fst ?qs) = set (sorted_list_of_set (dom (map_of ps)))"
      by (simp add: set dom_map_of_conv_image_fst finite_dom_map_of)
  qed (use dist in simp_all)
  moreover have "?qs = map (\<lambda>k. (k, the (map_of ps k))) (map fst ?qs)"
  proof (rule sym, simp add: comp_def, rule map_idI)
    fix q assume "q \<in> set ?qs"
    then have "map_of ps (fst q) = Some (snd q)"
      using assms set by (intro map_of_is_SomeI) auto
    then show "(fst q, the (map_of ps (fst q))) = q" by simp
  qed
  ultimately show ?thesis by simp
qed

lemma str_table_pairs:
  assumes "str_keys.tbl_inv h bs"
  defines "ps \<equiv> map (\<lambda>(k, x). (str_of h k, x)) (concat bs)"
  shows "distinct (map fst ps)" "map_of ps = str_keys.tbl_abs h bs"
    and "(\<And>x. x \<in> str_vals h \<Longrightarrow> render x = Ok (str_of h x)) \<Longrightarrow>
      omap (\<lambda>(k, x). obind (render k) (\<lambda>s. Ok (s, x))) (concat bs) = Ok ps"
proof -
  have "map fst ps = map (str_of h \<circ> fst) (concat bs)"
    by (simp add: ps_def case_prod_beta comp_def)
  then show "distinct (map fst ps)" using str_keys.tbl_inv_distinct [OF assms(1)] by (simp only:)
  show "map_of ps = str_keys.tbl_abs h bs"
    using str_keys.bucket_abs_concat [OF assms(1)] by (simp only: ps_def str_keys.bucket_abs_def)
  assume render: "\<And>x. x \<in> str_vals h \<Longrightarrow> render x = Ok (str_of h x)"
  show "omap (\<lambda>(k, x). obind (render k) (\<lambda>s. Ok (s, x))) (concat bs) = Ok ps"
    unfolding ps_def
  proof (rule omap_total)
    fix p assume "p \<in> set (concat bs)"
    then have "fst p \<in> str_vals h" using str_keys.tbl_inv_keys [OF assms(1)] by blast
    then show "(\<lambda>(k, x). obind (render k) (\<lambda>s. Ok (s, x))) p = Ok ((\<lambda>(k, x). (str_of h k, x)) p)"
      by (cases p) (simp add: render)
  qed
qed

lemma str_vals_live: "x \<in> str_vals h \<Longrightarrow> \<exists>a s. x = VStr a \<and> deref_str h a = Ok s \<and> str_of h x = s \<and> nul \<notin> set s"
  by (auto simp: str_vals_def str_of_def)

lemma render_map:
  assumes "str_map h a m"
  shows "value_to_string h (VMap a) =
    (if m = Map.empty then Ok ''{}''
     else obind (omap (\<lambda>k. obind (to_str_fuel (length h) h (the (m k))) (\<lambda>t. Ok (k @ '': '' @ t)))
                   (sorted_list_of_set (dom m)))
            (\<lambda>ss. Ok (''{'' @ join_with '', '' ss @ ''}'')))"
proof -
  from assms obtain bs n where m: "deref_map h a = Ok (bs, n)" "str_keys.tbl_inv h bs"
      "str_keys.tbl_abs h bs = m" "n = length (concat bs)"
    by (rule str_mapE)
  let ?ps = "map (\<lambda>(k, x). (str_of h k, x)) (concat bs)"
  have graph: "sort_pairs ?ps = map (\<lambda>k. (k, the (m k))) (sorted_list_of_set (dom m))"
    using sort_pairs_graph [OF str_table_pairs(1) [OF m(2)]] by (simp only: str_table_pairs(2) [OF m(2)] m(3))
  have "n = card (dom m)" using str_keys.tbl_card [OF m(2)] by (simp only: m(3,4))
  moreover have "finite (dom m)"
    using finite_dom_map_of [of ?ps] by (simp only: str_table_pairs(2) [OF m(2)] m(3))
  ultimately have n: "n = 0 \<longleftrightarrow> m = Map.empty" by (metis card_0_eq dom_eq_empty_conv)
  obtain k where k: "length h = Suc k"
    using m(1) by (cases "length h") (auto simp: deref_map_Ok_iff hget_def)
  have "to_str_fuel (length h) h x = Ok (str_of h x)" if "x \<in> str_vals h" for x
    using str_vals_live [OF that] by (auto simp: k c_str_id)
  note keys = str_table_pairs(3) [OF m(2), of "to_str_fuel (length h) h", OF this]
  have omap_map: "omap f (map g xs) = omap (\<lambda>x. f (g x)) xs" for f :: "string \<times> val \<Rightarrow> string outcome" and g and xs :: "string list"
    by (induction xs) auto
  show ?thesis
    by (simp only: value_to_string_def to_str_fuel.simps val.case m(1) obind.simps prod.case n keys graph omap_map)
qed

section \<open>The sorted key list\<close>

text \<open>What a map cell holds stays held while another cell grows.\<close>

lemma map_node_held:
  assumes "deref_map h a = Ok (bs, n)" "kv \<in> set (concat bs)"
  shows "fst kv \<in> set (all_held h {})"
proof -
  obtain c where c: "hget h a = Some c" "cbody c = BMap bs n"
    using assms(1) by (auto simp: deref_map_Ok_iff)
  have "fst p \<in> set (concat (map (\<lambda>(k, v). [k, v]) ps))" if "p \<in> set ps" for p :: "val \<times> val" and ps
    using that by (induction ps) auto
  from this [OF assms(2)] have "fst kv \<in> set (held h {} a)"
    by (simp only: held_children [OF c(1)] c(2) children.simps)
  then show ?thesis by (simp only: all_held_split [OF hget_Some_less [OF c(1)]] set_append Un_iff simp_thms)
qed

lemma push_keys:
  assumes "rc_sound R h" "VArr arr \<in> set R" "deref_map h a = Ok (bs, n)" "ks \<subseteq> fst ` set (concat bs)"
    "deref_arr h arr = Ok (xs, cap)" "0 < cap" "length xs \<le> cap" "set l \<subseteq> ks"
  shows "\<exists>h' cap'. ofold (\<lambda>(s :: string, k). rc_array_push arr k) (map (\<lambda>k. (g k, k)) l) h = Ok h' \<and> rc_sound R h' \<and>
     deref_arr h' arr = Ok (xs @ l, cap') \<and> deref_map h' a = Ok (bs, n)"
  using assms(1,3,5-8)
proof (induction l arbitrary: h xs cap)
  case (Cons k l)
  have held: "k \<in> set R \<union> set (all_held h {})"
    using Cons.prems(6) assms(4) map_node_held [OF Cons.prems(2)] by (fastforce simp del: set_concat)
  obtain h' where h': "rc_array_push arr k h = Ok h'" "rc_sound R h'"
      "deref_arr h' arr = Ok (xs @ [k], push_cap (length xs) cap)"
      "hsub h' (setb h arr (BArr (xs @ [k]) (push_cap (length xs) cap)))"
      "hsub (setb h arr (BArr (xs @ [k]) (push_cap (length xs) cap))) h'"
    by (rule rc_array_push_sound [OF Cons.prems(1) held assms(2) Cons.prems(3-5)])
  have ne: "a \<noteq> arr" using Cons.prems(2,3) by (auto simp: deref_map_Ok_iff deref_arr_Ok_iff)
  have m': "deref_map h' a = Ok (bs, n)"
  proof -
    obtain c where c: "hget (setb h arr (BArr (xs @ [k]) (push_cap (length xs) cap))) a = Some c" "cbody c = BMap bs n"
      using Cons.prems(2) ne by (auto simp: deref_map_Ok_iff)
    from hsub_live [OF h'(5) c(1)] obtain c' where c': "hget h' a = Some c'" by auto
    with hsub_same [OF h'(4) c' c(1)] c(2) show ?thesis by (simp add: deref_map_Ok_iff)
  qed
  have "0 < push_cap (length xs) cap" "length (xs @ [k]) \<le> push_cap (length xs) cap"
    using Cons.prems(4,5) by (auto simp: push_cap_def)
  from Cons.IH [OF h'(2) m' h'(3) this] Cons.prems(6) h'(1) show ?case by simp
qed auto

lemma sort_pairs_keys: "map fst (sort_pairs ps) = sort (map fst ps)"
  unfolding sort_pairs_def by (rule properties_for_sort [symmetric]) simp_all

lemma str_map_keys_sorted:
  assumes "rc_sound R h" "VMap a \<in> set R" "str_map h a m"
  shows "\<exists>arr h' ks cap. rc_map_keys_sorted a h = Ok (arr, h') \<and> rc_sound (VArr arr # R) h' \<and>
     deref_arr h' arr = Ok (ks, cap) \<and> map (str_of h) ks = sorted_list_of_set (dom m)"
proof -
  from assms(3) obtain bs n where m: "deref_map h a = Ok (bs, n)" "str_keys.tbl_inv h bs"
      "str_keys.tbl_abs h bs = m" "n = length (concat bs)"
    by (rule str_mapE)
  let ?arr = "length h" and ?h0 = "h @ [Some \<lparr>rc = 1, cbody = BArr [] 8\<rparr>]"
  let ?ps = "map (\<lambda>(k, x). (str_of h k, k)) (concat bs)"
  have new: "rc_array_new h = (?arr, ?h0)" by (simp add: rc_array_new_def halloc_def)
  have inv: "rc_sound (VArr ?arr # R) ?h0"
    by (rule alloc_sound [of "BArr [] 8"]) (use assms(1) new in \<open>simp_all add: rc_array_new_def\<close>)
  have m0: "deref_map ?h0 a = Ok (bs, n)"
    using m(1) by (auto simp: deref_map_Ok_iff dest: hget_Some_less)
  have render: "value_to_string ?h0 x = Ok (str_of h x)" if "x \<in> str_vals h" for x
  proof -
    from str_vals_live [OF that] obtain b s where x: "x = VStr b" "deref_str h b = Ok s" "str_of h x = s" "nul \<notin> set s"
      by blast
    then have "deref_str ?h0 b = Ok s" by (auto simp: deref_str_Ok_iff dest: hget_Some_less)
    from value_to_string_VStr [OF this] x show ?thesis by (simp add: c_str_id)
  qed
  have ps: "omap (\<lambda>(k, x). obind (value_to_string ?h0 k) (\<lambda>s. Ok (s, k))) (concat bs) = Ok ?ps"
  proof (rule omap_total)
    fix p assume "p \<in> set (concat bs)"
    then have "fst p \<in> str_vals h" using str_keys.tbl_inv_keys [OF m(2)] by blast
    then show "(\<lambda>(k, x). obind (value_to_string ?h0 k) (\<lambda>s. Ok (s, k))) p = Ok ((\<lambda>(k, x). (str_of h k, k)) p)"
      by (cases p) (simp add: render)
  qed
  define ks where "ks = map snd (sort_pairs ?ps)"
  have mem: "p = (str_of h (snd p), snd p) \<and> snd p \<in> fst ` set (concat bs)" if "p \<in> set (sort_pairs ?ps)" for p
    using that by (force simp: sort_pairs_def)
  have sorted: "sort_pairs ?ps = map (\<lambda>k. (str_of h k, k)) ks"
    unfolding ks_def map_map comp_def by (rule map_idI [symmetric]) (use mem in auto)
  have "map (str_of h) ks = map fst (sort_pairs ?ps)" by (simp add: sorted)
  also have "\<dots> = sort (map fst ?ps)" by (rule sort_pairs_keys)
  also have "\<dots> = sorted_list_of_set (set (map fst ?ps))"
  proof -
    have "map fst ?ps = map (str_of h \<circ> fst) (concat bs)" by (simp add: case_prod_beta comp_def)
    then have "distinct (map fst ?ps)" using str_keys.tbl_inv_distinct [OF m(2)] by (simp only:)
    then show ?thesis by (simp only: sorted_list_of_set_sort_remdups distinct_remdups_id)
  qed
  also have "set (map fst ?ps) = dom m"
    using arg_cong [OF str_table_pairs(2) [OF m(2)], of dom]
    by (simp add: m(3) dom_map_of_conv_image_fst image_image case_prod_beta)
  finally have keys: "map (str_of h) ks = sorted_list_of_set (dom m)" .
  have "set ks \<subseteq> fst ` set (concat bs)" using mem by (auto simp: ks_def simp del: set_concat)
  then obtain h' cap' where h': "ofold (\<lambda>(s, k). rc_array_push ?arr k) (sort_pairs ?ps) ?h0 = Ok h'"
      "rc_sound (VArr ?arr # R) h'" "deref_arr h' ?arr = Ok (ks, cap')"
    using push_keys [OF inv, of ?arr a bs n "set ks" "[]" 8 ks "str_of h"] m0 sorted
    by (auto simp: deref_arr_Ok_iff simp del: set_concat)
  have "rc_map_keys_sorted a h = Ok (?arr, h')"
    by (simp add: rc_map_keys_sorted_def new m0 ps h'(1) m(4))
  with h' keys show ?thesis by blast
qed

section \<open>Properties\<close>

lemma map_new_empty: "str_map (h @ [Some \<lparr>rc = k, cbody = BMap (replicate 16 []) 0\<rparr>]) (length h) Map.empty"
    "int_map (h @ [Some \<lparr>rc = k, cbody = BMap (replicate 16 []) 0\<rparr>]) (length h) Map.empty"
  by (simp_all add: str_map_def int_map_def deref_map_def str_keys.tbl_inv_empty
      str_keys.tbl_abs_empty int_keys.tbl_inv_empty int_keys.tbl_abs_empty concat_replicate_trivial)

definition sample :: heap where
  \<comment> \<open>two strings and an empty map, each referenced once\<close>
  "sample = [Some \<lparr>rc = 1, cbody = BStr ''k''\<rparr>, Some \<lparr>rc = 1, cbody = BStr ''v''\<rparr>] @
     [Some \<lparr>rc = 1, cbody = BMap (replicate 16 []) 0\<rparr>]"

lemma sample_facts:
  "rc_sound [VStr 0, VStr 1, VMap 2] sample" "VStr 0 \<in> str_vals sample" "str_of sample (VStr 0) = ''k''"
  "str_map sample 2 Map.empty" "int_map sample 2 Map.empty"
  unfolding sample_def
  using map_new_empty [of "[Some \<lparr>rc = 1, cbody = BStr ''k''\<rparr>, Some \<lparr>rc = 1, cbody = BStr ''v''\<rparr>]" 1]
  by (simp_all add: heap_eval str_vals_def str_of_def deref_str_def deref_def nul_def)

text \<open>A new map is the empty map, for string and for integer keys.\<close>

theorem rc_map_new_empty:
  "case rc_map_new h of (a, h') \<Rightarrow> str_map h' a Map.empty \<and> int_map h' a Map.empty"
  using map_new_empty [of h 1] by (simp add: rc_map_new_def halloc_def)

text \<open>C18. Storing under a NUL-free string key updates the finite map a map cell stands for, resize included, and keeps the ownership invariant.\<close>

theorem rc_map_set_refines_update:
  assumes "rc_sound R h" "k \<in> set R" "k \<in> str_vals h" "v \<in> set R" "VMap a \<in> set R" "str_map h a m"
  shows "\<exists>h'. rc_map_set a k v h = Ok h' \<and> rc_sound R h' \<and> str_map h' a (m(str_of h k \<mapsto> v))"
  using str_map_set [OF assms] by blast

theorem rc_map_set_refines_update_witness:
  "\<exists>h'. rc_map_set 2 (VStr 0) (VStr 1) sample = Ok h' \<and> rc_sound [VStr 0, VStr 1, VMap 2] h' \<and>
     str_map h' 2 (Map.empty(''k'' \<mapsto> VStr 1))"
  using rc_map_set_refines_update [of "[VStr 0, VStr 1, VMap 2]" sample "VStr 0" "VStr 1" 2 Map.empty] sample_facts
  by simp

text \<open>C19. Looking up a NUL-free string key reads the finite map the cell stands for; an absent key gives null and has() false.\<close>

theorem rc_map_lookup_refines:
  assumes "str_map h a m" "k \<in> str_vals h"
  shows "rc_map_get a k h = Ok (case m (str_of h k) of None \<Rightarrow> VNull | Some v \<Rightarrow> v) \<and>
         rc_map_has a k h = Ok (m (str_of h k) \<noteq> None)"
  using assms by (simp add: str_map_get)

theorem rc_map_lookup_refines_witness:
  "rc_map_get 2 (VStr 0) sample = Ok VNull \<and> rc_map_has 2 (VStr 0) sample = Ok False"
  using rc_map_lookup_refines [of sample 2 Map.empty "VStr 0"] sample_facts by simp

text \<open>C20. Removing a NUL-free string key, present or not, removes it from the finite map the cell stands for and keeps the ownership invariant.\<close>

theorem rc_map_remove_refines:
  assumes "rc_sound R h" "k \<in> str_vals h" "VMap a \<in> set R" "str_map h a m"
  shows "\<exists>h'. rc_map_remove a k h = Ok h' \<and> rc_sound R h' \<and> str_map h' a (m(str_of h k := None))"
  using assms by (rule str_map_remove)

theorem rc_map_remove_refines_witness:
  "\<exists>h'. rc_map_remove 2 (VStr 0) sample = Ok h' \<and> rc_sound [VStr 0, VStr 1, VMap 2] h' \<and>
     str_map h' 2 (Map.empty(''k'' := None))"
  using rc_map_remove_refines [of "[VStr 0, VStr 1, VMap 2]" sample "VStr 0" 2 Map.empty] sample_facts by simp

text \<open>C21. With integer keys, a stored value is read back, other keys are untouched, and removing the key gives back the map without it.\<close>

theorem int_map_round_trip:
  assumes "rc_sound R h" "v \<in> set R" "VMap a \<in> set R" "int_map h a m"
  shows "\<exists>h' h''. rc_map_set a (VInt k) v h = Ok h' \<and>
     (\<forall>j. rc_map_get a (VInt j) h' = Ok (if j = k then v else case m j of None \<Rightarrow> VNull | Some w \<Rightarrow> w)) \<and>
     (\<forall>j. rc_map_has a (VInt j) h' = Ok (j = k \<or> m j \<noteq> None)) \<and>
     rc_map_remove a (VInt k) h' = Ok h'' \<and> rc_sound R h'' \<and> int_map h'' a (m(k := None))"
proof -
  obtain h' where h': "rc_map_set a (VInt k) v h = Ok h'" "rc_sound R h'" "int_map h' a (m(k \<mapsto> v))"
    using int_map_set [OF assms] by blast
  obtain h'' where "rc_map_remove a (VInt k) h' = Ok h''" "rc_sound R h''" "int_map h'' a ((m(k \<mapsto> v))(k := None))"
    using int_map_remove [OF h'(2) assms(3) h'(3)] by blast
  with h' int_map_get [OF h'(3)] show ?thesis by (intro exI [of _ h'] exI [of _ h'']) simp
qed

theorem int_map_round_trip_witness:
  "\<exists>h' h''. rc_map_set 2 (VInt 5) (VStr 1) sample = Ok h' \<and>
     (\<forall>j. rc_map_get 2 (VInt j) h' = Ok (if j = 5 then VStr 1 else case None of None \<Rightarrow> VNull | Some w \<Rightarrow> w)) \<and>
     (\<forall>j. rc_map_has 2 (VInt j) h' = Ok (j = 5 \<or> None \<noteq> (None :: val option))) \<and>
     rc_map_remove 2 (VInt 5) h' = Ok h'' \<and> rc_sound [VStr 0, VStr 1, VMap 2] h'' \<and> int_map h'' 2 (Map.empty(5 := None))"
  by (rule int_map_round_trip [OF sample_facts(1) _ _ sample_facts(5)]) simp_all





text \<open>C32. push appends one element, keeps the others and the ownership invariant, and at most doubles the capacity.\<close>

theorem rc_array_push_appends:
  assumes "rc_sound R h" "v \<in> set R" "VArr a \<in> set R" "deref_arr h a = Ok (xs, cap)" "0 < cap" "length xs \<le> cap"
  shows "\<exists>h' cap'. rc_array_push a v h = Ok h' \<and> rc_sound R h' \<and> deref_arr h' a = Ok (xs @ [v], cap') \<and>
     Suc (length xs) \<le> cap' \<and> cap' \<le> 2 * cap"
  by (rule rc_array_push_sound [OF assms(1) UnI1 [OF assms(2)] assms(3-6)])
     (use assms(5,6) in \<open>auto simp: push_cap_def\<close>)

theorem rc_array_push_appends_witness:
  "\<exists>h' cap'. rc_array_push 0 (VInt 9) [Some \<lparr>rc = 1, cbody = BArr [VInt 7] 1\<rparr>] = Ok h' \<and> rc_sound [VInt 9, VArr 0] h' \<and>
     deref_arr h' 0 = Ok ([VInt 7] @ [VInt 9], cap') \<and> Suc (length [VInt 7]) \<le> cap' \<and> cap' \<le> 2 * 1"
  by (rule rc_array_push_appends) (simp_all add: heap_eval deref_arr_def deref_def)

text \<open>C33. Assigning to an index inside an array replaces exactly that element, which is then read back; any other index stops with the index error.\<close>

theorem rc_array_set_bounds:
  assumes "rc_sound R h" "v \<in> set R" "VArr a \<in> set R" "deref_arr h a = Ok (xs, cap)"
  shows "if 0 \<le> sint i \<and> sint i < int (length xs)
     then \<exists>h'. rc_array_set a i v h = Ok h' \<and> rc_sound R h' \<and> deref_arr h' a = Ok (xs[nat (sint i) := v], cap) \<and>
            rc_array_get a i h' = Ok v
     else rc_array_set a i v h =
            Fatal (''[Cryo Security] IndexError: index '' @ show_int (sint i) @ '' out of bounds'')"
proof (cases "0 \<le> sint i \<and> sint i < int (length xs)")
  case True
  then obtain h' where h': "rc_array_set a i v h = Ok h'" "rc_sound R h'"
      "deref_arr h' a = Ok (xs[nat (sint i) := v], cap)"
    using rc_array_set_sound [OF assms, of i] by blast
  moreover have "rc_array_get a i h' = Ok v" using h'(3) True by (auto simp: rc_array_get_def)
  ultimately show ?thesis using True by simp
next
  case False
  then show ?thesis using assms(4) by (auto simp: rc_array_set_def)
qed

theorem rc_array_set_bounds_witness:
  "\<exists>h'. rc_array_set 0 0 (VInt 9) [Some \<lparr>rc = 1, cbody = BArr [VInt 7] 1\<rparr>] = Ok h'"
  using rc_array_set_bounds [of "[VInt 9, VArr 0]" "[Some \<lparr>rc = 1, cbody = BArr [VInt 7] 1\<rparr>]" "VInt 9" 0 "[VInt 7]" 1 0]
  by (auto simp: heap_eval deref_arr_def deref_def)

lemma show_int_1: "show_int 1 = ''1''"
  by code_simp

theorem equal_keys_hash_apart:
  assumes "deref_str h a = Ok ''1''"
  shows "value_eq h (VInt 1) (VStr a) = Ok True \<and> hash_value h (VInt 1) \<noteq> hash_value h (VStr a)"
proof -
  have "value_to_string h (VInt 1) = Ok ''1''"
    using show_int_1 by (simp add: value_to_string_def)
  moreover have "c_str ''1'' = ''1''" by (simp add: c_str_def nul_def)
  moreover have "fold fnv_step ''1'' 2166136261 \<noteq> int_hash 1" by code_simp
  ultimately show ?thesis using assms value_to_string_VStr [OF assms]
    by (simp add: value_eq_def is_str_def hash_value_def [of h "VStr a"])
qed

theorem equal_keys_hash_apart_witness:
  "value_eq [Some \<lparr>rc = 1, cbody = BStr ''1''\<rparr>] (VInt 1) (VStr 0) = Ok True \<and>
   hash_value [Some \<lparr>rc = 1, cbody = BStr ''1''\<rparr>] (VInt 1) \<noteq> hash_value [Some \<lparr>rc = 1, cbody = BStr ''1''\<rparr>] (VStr 0)"
  by (rule equal_keys_hash_apart) (simp add: deref_str_def deref_def hget_def)

end
