(* ===== verification/Bytecode.thy ===== *)
theory Bytecode
  imports Prelude
begin

unbundle bit_operations_syntax

text \<open>
  The byte level of a \<open>.pyro\<close> file: the opcodes (\<open>vm/pyro_runtime.h\<close>), the little-endian readers and
  the code obfuscation (\<open>read_u16\<close> .. \<open>read_u64\<close>, \<open>xor_decode\<close> of \<open>vm/pyro_runtime.c\<close>), the operand
  widths and the checked relative jump (\<open>pyro_operand_width\<close>, \<open>pyro_jump_to\<close> of \<open>vm/main.c\<close>).

  A position is a C \<open>int\<close>, kept as an \<open>int\<close> whose overflow is \<open>UB SignedOverflow\<close>; reading outside
  the byte list is the \<open>UB\<close> given to the reader, \<open>DataRange\<close> for the file and \<open>CodeRange\<close> for the
  code section.
\<close>

section \<open>Opcodes\<close>

datatype opcode =
    opHALT | opCONST | opTRUE | opFALSE | opNULL | opPOP | opLOAD | opSTORE
  | opADD | opSUB | opMUL | opDIV | opMOD | opNEG | opBAND | opBOR | opBXOR | opSHL | opSHR | opBNOT
  | opEQ | opNE | opLT | opGT | opLE | opGE | opNOT
  | opJMP | opJMPF | opJMPT | opCALL | opRET | opPUSHFN | opCALLVALUE | opCLOSURE
  | opPRINT | opASSERT | opPRINTLN
  | opNEWARR | opNEWMAP | opINDEX | opSETIDX | opLEN | opAPPEND | opHAS | opKEYS
  | opNATIVE | opTRYPUSH | opTRYPOP | opTHROW | opCOALESCE | opUNWRAP | opGETGLOBAL | opSETGLOBAL
  | opSPAWN | opAWAIT

primrec op_byte :: "opcode \<Rightarrow> u8" where
  "op_byte opHALT = 0x00" | "op_byte opCONST = 0x01" | "op_byte opTRUE = 0x02"
| "op_byte opFALSE = 0x03" | "op_byte opNULL = 0x04" | "op_byte opPOP = 0x05"
| "op_byte opLOAD = 0x06" | "op_byte opSTORE = 0x07"
| "op_byte opADD = 0x10" | "op_byte opSUB = 0x11" | "op_byte opMUL = 0x12"
| "op_byte opDIV = 0x13" | "op_byte opMOD = 0x14" | "op_byte opNEG = 0x15"
| "op_byte opBAND = 0x16" | "op_byte opBOR = 0x17" | "op_byte opBXOR = 0x18"
| "op_byte opSHL = 0x19" | "op_byte opSHR = 0x1A" | "op_byte opBNOT = 0x1B"
| "op_byte opEQ = 0x20" | "op_byte opNE = 0x21" | "op_byte opLT = 0x22"
| "op_byte opGT = 0x23" | "op_byte opLE = 0x24" | "op_byte opGE = 0x25" | "op_byte opNOT = 0x26"
| "op_byte opJMP = 0x30" | "op_byte opJMPF = 0x31" | "op_byte opJMPT = 0x32"
| "op_byte opCALL = 0x40" | "op_byte opRET = 0x41" | "op_byte opPUSHFN = 0x42"
| "op_byte opCALLVALUE = 0x43" | "op_byte opCLOSURE = 0x44"
| "op_byte opPRINT = 0x50" | "op_byte opASSERT = 0x51" | "op_byte opPRINTLN = 0x52"
| "op_byte opNEWARR = 0x60" | "op_byte opNEWMAP = 0x61" | "op_byte opINDEX = 0x62"
| "op_byte opSETIDX = 0x63" | "op_byte opLEN = 0x64" | "op_byte opAPPEND = 0x65"
| "op_byte opHAS = 0x66" | "op_byte opKEYS = 0x67"
| "op_byte opNATIVE = 0x70" | "op_byte opTRYPUSH = 0x71" | "op_byte opTRYPOP = 0x72"
| "op_byte opTHROW = 0x73" | "op_byte opCOALESCE = 0x74" | "op_byte opUNWRAP = 0x75"
| "op_byte opGETGLOBAL = 0x76" | "op_byte opSETGLOBAL = 0x77"
| "op_byte opSPAWN = 0x78" | "op_byte opAWAIT = 0x79"

definition all_opcodes :: "opcode list" where
  "all_opcodes =
     [opHALT, opCONST, opTRUE, opFALSE, opNULL, opPOP, opLOAD, opSTORE,
      opADD, opSUB, opMUL, opDIV, opMOD, opNEG, opBAND, opBOR, opBXOR, opSHL, opSHR, opBNOT,
      opEQ, opNE, opLT, opGT, opLE, opGE, opNOT,
      opJMP, opJMPF, opJMPT, opCALL, opRET, opPUSHFN, opCALLVALUE, opCLOSURE,
      opPRINT, opASSERT, opPRINTLN,
      opNEWARR, opNEWMAP, opINDEX, opSETIDX, opLEN, opAPPEND, opHAS, opKEYS,
      opNATIVE, opTRYPUSH, opTRYPOP, opTHROW, opCOALESCE, opUNWRAP, opGETGLOBAL, opSETGLOBAL,
      opSPAWN, opAWAIT]"

definition decode_op :: "u8 \<Rightarrow> opcode option" where
  \<comment> \<open>the \<open>switch (op)\<close>: \<open>None\<close> is its default branch\<close>
  "decode_op b = find (\<lambda>x. op_byte x = b) all_opcodes"

lemma all_opcodes_complete: "x \<in> set all_opcodes"
  by (cases x) (simp_all add: all_opcodes_def)

lemma op_bytes_distinct: "distinct (map op_byte all_opcodes)"
proof -
  have "successively (<) (map (\<lambda>x. unat (op_byte x)) all_opcodes)"
    by (simp add: all_opcodes_def)
  then have "sorted_wrt (<) (map (\<lambda>x. unat (op_byte x)) all_opcodes)"
    by (subst (asm) successively_conv_sorted_wrt) (auto intro: transpI)
  then have "distinct (map unat (map op_byte all_opcodes))"
    by (simp add: strict_sorted_iff comp_def)
  then show ?thesis using distinct_map by blast
qed

lemma find_unique: "distinct (map f xs) \<Longrightarrow> x \<in> set xs \<Longrightarrow> find (\<lambda>y. f y = f x) xs = Some x"
  by (induction xs) auto

lemma decode_op_byte [simp]: "decode_op (op_byte x) = Some x"
  unfolding decode_op_def by (rule find_unique [OF op_bytes_distinct all_opcodes_complete])

lemma op_byte_inj: "op_byte x = op_byte y \<Longrightarrow> x = y"
  by (metis decode_op_byte option.inject)

lemma equal_opcode_code [code]: "HOL.equal (x :: opcode) y \<longleftrightarrow> op_byte x = op_byte y"
  by (metis equal_eq op_byte_inj)

instantiation opcode :: linorder
begin

definition less_eq_opcode :: "opcode \<Rightarrow> opcode \<Rightarrow> bool" where
  "less_eq_opcode x y \<longleftrightarrow> op_byte x \<le> op_byte y"

definition less_opcode :: "opcode \<Rightarrow> opcode \<Rightarrow> bool" where
  "less_opcode x y \<longleftrightarrow> op_byte x < op_byte y"

instance
  by standard (auto simp: less_eq_opcode_def less_opcode_def intro: op_byte_inj)

end

definition pyro_operand_width :: "u8 \<Rightarrow> nat" where
  "pyro_operand_width b = (case decode_op b of
       None \<Rightarrow> 0
     | Some x \<Rightarrow>
         (if x \<in> {opCONST, opLOAD, opSTORE, opNEWARR, opNEWMAP, opPUSHFN, opGETGLOBAL, opSETGLOBAL} then 2
          else if x \<in> {opJMP, opJMPF, opJMPT} then 4
          else if x = opCALL then 3
          else if x = opNATIVE then 2
          else if x = opTRYPUSH then 6
          else if x = opCLOSURE then 3
          else if x = opCALLVALUE then 1
          else 0))"

section \<open>Positions and bytes\<close>

definition c_int32 :: "int \<Rightarrow> int outcome" where
  \<comment> \<open>the result of an \<open>int\<close> operation\<close>
  "c_int32 i = (if in_i32 i then Ok i else UB SignedOverflow)"

definition fetch :: "ub \<Rightarrow> u8 list \<Rightarrow> int \<Rightarrow> u8 outcome" where
  "fetch u bs i = (if 0 \<le> i \<and> i < int (length bs) then Ok (bs ! nat i) else UB u)"

definition read_u16 :: "ub \<Rightarrow> u8 list \<Rightarrow> int \<Rightarrow> (16 word \<times> int) outcome" where
  "read_u16 u bs pos =
     obind (fetch u bs pos) (\<lambda>b0. obind (fetch u bs (pos + 1)) (\<lambda>b1.
     obind (c_int32 (pos + 2)) (\<lambda>pos'.
     Ok (ucast b0 OR push_bit 8 (ucast b1), pos'))))"

definition read_u32 :: "ub \<Rightarrow> u8 list \<Rightarrow> int \<Rightarrow> (32 word \<times> int) outcome" where
  "read_u32 u bs pos =
     obind (fetch u bs pos) (\<lambda>b0. obind (fetch u bs (pos + 1)) (\<lambda>b1.
     obind (fetch u bs (pos + 2)) (\<lambda>b2. obind (fetch u bs (pos + 3)) (\<lambda>b3.
     obind (c_int32 (pos + 4)) (\<lambda>pos'.
     Ok (ucast b0 OR push_bit 8 (ucast b1) OR push_bit 16 (ucast b2) OR push_bit 24 (ucast b3), pos'))))))"

definition read_i32 :: "ub \<Rightarrow> u8 list \<Rightarrow> int \<Rightarrow> (int \<times> int) outcome" where
  "read_i32 u bs pos = obind (read_u32 u bs pos) (\<lambda>(w, pos'). Ok (sint w, pos'))"

definition read_u64 :: "ub \<Rightarrow> u8 list \<Rightarrow> int \<Rightarrow> (64 word \<times> int) outcome" where
  "read_u64 u bs pos =
     obind (ofold (\<lambda>i v. obind (fetch u bs (pos + int i)) (\<lambda>b. Ok (v OR push_bit (8 * i) (ucast b))))
              [0..<8] 0) (\<lambda>v.
     obind (c_int32 (pos + 8)) (\<lambda>pos'. Ok (v, pos')))"

primrec xor_decode_from :: "u8 \<Rightarrow> u8 list \<Rightarrow> u8 list" where
  "xor_decode_from k [] = []"
| "xor_decode_from k (enc # code) =
     (let dec = enc XOR k in dec # xor_decode_from (k * 31 + 7 + dec) code)"

definition xor_decode :: "u8 list \<Rightarrow> u8 list" where
  "xor_decode code = xor_decode_from 0x5A code"

definition pyro_jump_to :: "int \<Rightarrow> int \<Rightarrow> 32 word \<Rightarrow> int outcome" where
  \<comment> \<open>the sum is computed in \<open>int64_t\<close>, where it cannot overflow\<close>
  "pyro_jump_to pc rel codelen =
     (let dest = pc + rel
      in obind (ofail (dest < 0 \<or> uint codelen < dest)
                  ''malformed .pyro: jump target outside the code section'') (\<lambda>_.
         Ok (sint (word_of_int dest :: 32 word))))"

section \<open>What the writer does\<close>

text \<open>The inverse of the readers: little-endian bytes, and the encoder that keys on the plain byte.\<close>

primrec le_bytes :: "nat \<Rightarrow> int \<Rightarrow> u8 list" where
  "le_bytes 0 v = []"
| "le_bytes (Suc n) v = word_of_int v # le_bytes n (v div 256)"

primrec xor_encode_from :: "u8 \<Rightarrow> u8 list \<Rightarrow> u8 list" where
  "xor_encode_from k [] = []"
| "xor_encode_from k (b # code) = (b XOR k) # xor_encode_from (k * 31 + 7 + b) code"

definition xor_encode :: "u8 list \<Rightarrow> u8 list" where
  "xor_encode code = xor_encode_from 0x5A code"

section \<open>Lemmas\<close>

lemma c_int32_Ok_iff [simp]: "c_int32 i = Ok j \<longleftrightarrow> in_i32 i \<and> j = i"
  by (auto simp: c_int32_def)

lemma fetch_Ok_iff: "fetch u bs i = Ok b \<longleftrightarrow> 0 \<le> i \<and> i < int (length bs) \<and> b = bs ! nat i"
  by (auto simp: fetch_def)

lemma fetch_total: "0 \<le> i \<Longrightarrow> i < int (length bs) \<Longrightarrow> fetch u bs i = Ok (bs ! nat i)"
  by (simp add: fetch_def)

text \<open>A read inside the bytes succeeds and advances by its width.\<close>

lemma read_u16_total:
  assumes "0 \<le> pos" "pos + 2 \<le> int (length bs)" "in_i32 (pos + 2)"
  shows "\<exists>w. read_u16 u bs pos = Ok (w, pos + 2)"
  using assms by (simp add: read_u16_def fetch_total c_int32_def)

lemma read_u32_total:
  assumes "0 \<le> pos" "pos + 4 \<le> int (length bs)" "in_i32 (pos + 4)"
  shows "\<exists>w. read_u32 u bs pos = Ok (w, pos + 4)"
  using assms by (simp add: read_u32_def fetch_total c_int32_def)

lemma read_i32_total:
  assumes "0 \<le> pos" "pos + 4 \<le> int (length bs)" "in_i32 (pos + 4)"
  shows "\<exists>w. read_i32 u bs pos = Ok (w, pos + 4) \<and> in_i32 w"
proof -
  obtain w where "read_u32 u bs pos = Ok (w, pos + 4)" using read_u32_total [OF assms] by blast
  moreover have "in_i32 (sint w)" for w :: "32 word"
    using sint_range_size [of w] by (simp add: in_i32_def word_size)
  ultimately show ?thesis by (simp add: read_i32_def)
qed

lemma ofold_total: "(\<And>x s. x \<in> set xs \<Longrightarrow> \<exists>t. f x s = Ok t) \<Longrightarrow> \<exists>t. ofold f xs s = Ok t"
proof (induction xs arbitrary: s)
  case (Cons x xs)
  then obtain t where "f x s = Ok t" by (metis list.set_intros(1))
  with Cons show ?case by simp
qed simp

lemma read_u64_total:
  assumes "0 \<le> pos" "pos + 8 \<le> int (length bs)" "in_i32 (pos + 8)"
  shows "\<exists>w. read_u64 u bs pos = Ok (w, pos + 8)"
proof -
  have "\<exists>t. ofold (\<lambda>i v. obind (fetch u bs (pos + int i)) (\<lambda>b. Ok (v OR push_bit (8 * i) (ucast b))))
              [0..<8] s = Ok t" for s :: "64 word"
    by (rule ofold_total) (use assms in \<open>simp add: fetch_total\<close>)
  then obtain v where "ofold (\<lambda>i v. obind (fetch u bs (pos + int i)) (\<lambda>b. Ok (v OR push_bit (8 * i) (ucast b))))
              [0..<8] (0 :: 64 word) = Ok v" by blast
  then show ?thesis using assms(3) by (simp add: read_u64_def c_int32_def)
qed

lemma xor_decode_encode_from: "xor_decode_from k (xor_encode_from k bs) = bs"
  by (induction bs arbitrary: k) (simp_all add: Let_def xor.assoc)

lemma xor_encode_decode_from: "xor_encode_from k (xor_decode_from k bs) = bs"
  by (induction bs arbitrary: k) (simp_all add: Let_def xor.assoc)

lemma length_xor_decode [simp]: "length (xor_decode bs) = length bs"
proof -
  have "length (xor_decode_from k bs) = length bs" for k
    by (induction bs arbitrary: k) (simp_all add: Let_def)
  then show ?thesis by (simp add: xor_decode_def)
qed

lemma pyro_jump_to_Ok:
  assumes "pyro_jump_to pc rel codelen = Ok d" "uint codelen < 2 ^ 31"
  shows "0 \<le> d" "d \<le> uint codelen" "d = pc + rel"
proof -
  from assms have dest: "0 \<le> pc + rel" "pc + rel \<le> uint codelen" "d = sint (word_of_int (pc + rel) :: 32 word)"
    by (auto simp: pyro_jump_to_def outcome_simps Let_def)
  have "in_i32 (pc + rel)" using dest(1,2) assms(2) by (simp add: in_i32_def)
  then have "sint (word_of_int (pc + rel) :: 32 word) = pc + rel"
    by (rule sint_word_of_int_i32)
  with dest show "0 \<le> d" "d \<le> uint codelen" "d = pc + rel" by simp_all
qed

lemma pyro_jump_to_defined [simp]: "pyro_jump_to pc rel codelen \<noteq> UB u" "pyro_jump_to pc rel codelen \<noteq> Diverge"
  by (auto simp: pyro_jump_to_def outcome_simps Let_def)

section \<open>Properties\<close>

text \<open>Decoding the obfuscated code section inverts the encoder and the encoder inverts decoding.\<close>

theorem xor_codec_round_trip:
  "xor_decode (xor_encode bs) = bs \<and> xor_encode (xor_decode bs) = bs"
  by (simp add: xor_decode_def xor_encode_def xor_decode_encode_from xor_encode_decode_from)

lemma div_256: "v div 256 = drop_bit 8 (v :: int)"
  by (simp add: drop_bit_eq_div)

lemma fetch_at:
  "pos = int (length pre) \<Longrightarrow> i < length bs \<Longrightarrow> fetch u (pre @ bs @ post) (pos + int i) = Ok (bs ! i)"
  by (auto simp: fetch_def nth_append nat_add_distrib)

lemma fetch_at_0:
  "pos = int (length pre) \<Longrightarrow> 0 < length bs \<Longrightarrow> fetch u (pre @ bs @ post) pos = Ok (bs ! 0)"
  using fetch_at [of pos pre 0 bs] by simp

lemma join_bytes:
  "ucast (word_of_int v :: u8) OR push_bit 8 (ucast (word_of_int (drop_bit 8 v) :: u8)) = (word_of_int v :: 16 word)"
  "ucast (word_of_int v :: u8) OR push_bit 8 (ucast (word_of_int (drop_bit 8 v) :: u8)) OR
   push_bit 16 (ucast (word_of_int (drop_bit 16 v) :: u8)) OR
   push_bit 24 (ucast (word_of_int (drop_bit 24 v) :: u8)) = (word_of_int v :: 32 word)"
  subgoal by (rule bit_word_eqI) (auto simp: bit_simps not_less)
  subgoal by (rule bit_word_eqI, rename_tac n, case_tac "n < 8"; case_tac "n < 16"; case_tac "n < 24") (auto simp: bit_simps not_less)
  done

lemma length_le_bytes [simp]: "length (le_bytes n v) = n"
  by (induction n arbitrary: v) auto

lemma nth_le_bytes: "i < n \<Longrightarrow> le_bytes n v ! i = word_of_int (drop_bit (8 * i) v)"
  by (induction n arbitrary: i v) (auto simp: nth_Cons div_256 add.commute split: nat.splits)

lemma fetch_le_bytes:
  assumes "pos = int (length pre)" "i < n"
  shows "fetch u (pre @ le_bytes n v @ post) (pos + int i) = Ok (word_of_int (drop_bit (8 * i) v))"
  using fetch_at [of pos pre i "le_bytes n v"] assms by (simp add: nth_le_bytes)

lemma read_u64_acc:
  assumes "pos = int (length pre)" "k \<le> 8"
  shows "ofold (\<lambda>i w. obind (fetch u (pre @ le_bytes 8 v @ post) (pos + int i)) (\<lambda>b. Ok (w OR push_bit (8 * i) (ucast b))))
    [0..<k] 0 = Ok (take_bit (8 * k) (word_of_int v :: 64 word))"
  using assms(2)
proof (induction k)
  case (Suc k)
  have "take_bit (8 * k) (word_of_int v) OR push_bit (8 * k) (ucast (word_of_int (drop_bit (8 * k) v) :: u8)) =
      take_bit (8 * Suc k) (word_of_int v :: 64 word)"
    using Suc.prems by (intro bit_word_eqI) (auto simp: bit_simps not_less)
  with Suc fetch_le_bytes [OF assms(1), of k 8] show ?case by simp
qed simp

text \<open>C34. The readers give back any integer written as little-endian bytes anywhere in a buffer, and advance by its width.\<close>

theorem read_back_integers:
  assumes "pos = int (length pre)" "in_i32 (pos + 8)"
  shows "read_u16 u (pre @ le_bytes 2 v @ post) pos = Ok (word_of_int v, pos + 2) \<and>
    read_u32 u (pre @ le_bytes 4 v @ post) pos = Ok (word_of_int v, pos + 4) \<and>
    read_i32 u (pre @ le_bytes 4 v @ post) pos = Ok (sint (word_of_int v :: 32 word), pos + 4) \<and>
    read_u64 u (pre @ le_bytes 8 v @ post) pos = Ok (word_of_int v, pos + 8)"
proof -
  have pos: "in_i32 (pos + 2)" "in_i32 (pos + 4)" "in_i32 (pos + 8)"
    using assms by (auto simp: in_i32_def)
  note at = fetch_le_bytes [OF assms(1), of 0, simplified] fetch_le_bytes [OF assms(1), of 1, simplified]
    fetch_le_bytes [OF assms(1), of 2, simplified] fetch_le_bytes [OF assms(1), of 3, simplified]
  have u32: "read_u32 u (pre @ le_bytes 4 v @ post) pos = Ok (word_of_int v, pos + 4)"
    using pos by (simp add: read_u32_def at c_int32_def join_bytes)
  moreover have "read_u16 u (pre @ le_bytes 2 v @ post) pos = Ok (word_of_int v, pos + 2)"
    using pos by (simp add: read_u16_def at c_int32_def join_bytes)
  moreover have "read_u64 u (pre @ le_bytes 8 v @ post) pos = Ok (word_of_int v, pos + 8)"
    using pos read_u64_acc [OF assms(1), of 8] by (simp only: read_u64_def c_int32_def) (simp add: take_bit_word_eq_self)
  ultimately show ?thesis by (simp add: read_i32_def)
qed

theorem read_back_integers_witness:
  "read_u64 CodeRange ([1, 2] @ le_bytes 8 300 @ [9]) 2 = Ok (word_of_int 300, 2 + 8)"
  using read_back_integers [of 2 "[1, 2]" CodeRange 300 "[9]"] by (simp add: in_i32_def)

theorem pyro_jump_to_checked:
  assumes "uint codelen < 2 ^ 31"
  shows "pyro_jump_to pc rel codelen =
    (if 0 \<le> pc + rel \<and> pc + rel \<le> uint codelen then Ok (pc + rel)
     else Fatal ''malformed .pyro: jump target outside the code section'')"
proof (cases "0 \<le> pc + rel \<and> pc + rel \<le> uint codelen")
  case True
  then have "in_i32 (pc + rel)" using assms by (simp add: in_i32_def)
  then have "sint (word_of_int (pc + rel) :: 32 word) = pc + rel" by (rule sint_word_of_int_i32)
  with True show ?thesis by (simp add: pyro_jump_to_def Let_def ofail_def del: of_int_add)
qed (auto simp: pyro_jump_to_def Let_def ofail_def)

theorem pyro_jump_to_checked_witness:
  "pyro_jump_to 10 (-3) 20 = (if 0 \<le> 10 + (-3 :: int) \<and> 10 + (-3) \<le> uint (20 :: 32 word) then Ok (10 + (-3))
     else Fatal ''malformed .pyro: jump target outside the code section'')"
  by (rule pyro_jump_to_checked) simp

end
