(* ===== verification/Arith.thy ===== *)
theory Arith
  imports Text Bytecode
begin

unbundle bit_operations_syntax

text \<open>
  Operators of the language (\<open>pyro_add_ovf\<close>, \<open>pyro_sub_ovf\<close>, \<open>pyro_mul_ovf\<close>, \<open>bin_op\<close>,
  \<open>str_concat\<close> of \<open>vm/pyro_runtime.c\<close>). The overflow tests exist twice, for compilers with and
  without the checked-arithmetic builtins; both are modelled, and the portable test is shown to be
  the builtin's and to be free of the overflow it tests for. Signed left shifts follow the C
  standard: a count outside the width, a negative operand or a result that does not fit is \<open>UB\<close>.
\<close>

section \<open>Checked arithmetic\<close>

definition c_i64 :: "int \<Rightarrow> i64 outcome" where
  \<comment> \<open>the result of an \<open>int64_t\<close> operation\<close>
  "c_i64 i = (if in_i64 i then Ok (word_of_int i) else UB SignedOverflow)"

definition c_div :: "i64 \<Rightarrow> i64 \<Rightarrow> i64 outcome" where
  \<comment> \<open>\<open>x / y\<close>, which truncates\<close>
  "c_div x y = obind (oguard (y \<noteq> 0) DivTrap) (\<lambda>_. c_i64 (sint x sdiv sint y))"

definition c_mod :: "i64 \<Rightarrow> i64 \<Rightarrow> i64 outcome" where
  "c_mod x y = obind (oguard (y \<noteq> 0 \<and> \<not> (sint x = -(2 ^ 63) \<and> y = -1)) DivTrap) (\<lambda>_.
     c_i64 (sint x smod sint y))"

definition i64_max :: i64 where
  "i64_max = word_of_int (2 ^ 63 - 1)"

definition i64_min :: i64 where
  "i64_min = word_of_int (-(2 ^ 63))"

definition builtin_ovf :: "int \<Rightarrow> i64 option" where
  \<comment> \<open>\<open>__builtin_*_overflow\<close> on the exact result: \<open>None\<close> reports overflow\<close>
  "builtin_ovf i = (if in_i64 i then Some (word_of_int i) else None)"

definition pyro_add_ovf :: "i64 \<Rightarrow> i64 \<Rightarrow> i64 option" where
  "pyro_add_ovf a b = builtin_ovf (sint a + sint b)"

definition pyro_sub_ovf :: "i64 \<Rightarrow> i64 \<Rightarrow> i64 option" where
  "pyro_sub_ovf a b = builtin_ovf (sint a - sint b)"

definition pyro_mul_ovf :: "i64 \<Rightarrow> i64 \<Rightarrow> i64 option" where
  "pyro_mul_ovf a b = builtin_ovf (sint a * sint b)"

text \<open>The portable branches; \<open>test c t\<close> evaluates \<open>t\<close> only when \<open>c\<close> holds, as \<open>&&\<close> does.\<close>

definition test :: "bool \<Rightarrow> bool outcome \<Rightarrow> bool outcome" where
  "test c t = (if c then t else Ok False)"

definition add_ovf_portable :: "i64 \<Rightarrow> i64 \<Rightarrow> i64 option outcome" where
  "add_ovf_portable a b =
     obind (test (0 <s b) (obind (c_i64 (sint i64_max - sint b)) (\<lambda>t. Ok (t <s a)))) (\<lambda>hi.
     obind (if hi then Ok True
            else test (b <s 0) (obind (c_i64 (sint i64_min - sint b)) (\<lambda>t. Ok (a <s t)))) (\<lambda>ovf.
     if ovf then Ok None else obind (c_i64 (sint a + sint b)) (\<lambda>r. Ok (Some r))))"

definition sub_ovf_portable :: "i64 \<Rightarrow> i64 \<Rightarrow> i64 option outcome" where
  "sub_ovf_portable a b =
     obind (test (b <s 0) (obind (c_i64 (sint i64_max + sint b)) (\<lambda>t. Ok (t <s a)))) (\<lambda>hi.
     obind (if hi then Ok True
            else test (0 <s b) (obind (c_i64 (sint i64_min + sint b)) (\<lambda>t. Ok (a <s t)))) (\<lambda>ovf.
     if ovf then Ok None else obind (c_i64 (sint a - sint b)) (\<lambda>r. Ok (Some r))))"

definition mul_ovf_portable :: "i64 \<Rightarrow> i64 \<Rightarrow> i64 option outcome" where
  "mul_ovf_portable a b =
     obind (if 0 <s a
            then if 0 <s b then obind (c_div i64_max b) (\<lambda>t. Ok (t <s a))
                 else obind (c_div i64_min a) (\<lambda>t. Ok (b <s t))
            else if 0 <s b then obind (c_div i64_min b) (\<lambda>t. Ok (a <s t))
                 else test (a \<noteq> 0) (obind (c_div i64_max a) (\<lambda>t. Ok (b <s t)))) (\<lambda>ovf.
     if ovf then Ok None else obind (c_i64 (sint a * sint b)) (\<lambda>r. Ok (Some r)))"

section \<open>Binary operators\<close>

definition str_concat :: "val \<Rightarrow> val \<Rightarrow> heap \<Rightarrow> (val \<times> heap) outcome" where
  "str_concat a b h =
     obind (value_to_string h a) (\<lambda>sa. obind (value_to_string h b) (\<lambda>sb. Ok (val_str (sa @ sb) h)))"

definition str_op :: "opcode \<Rightarrow> int \<Rightarrow> val option" where
  "str_op x cmp =
     (if x = opLT then Some (VBool (cmp < 0))
      else if x = opGT then Some (VBool (cmp > 0))
      else if x = opLE then Some (VBool (cmp \<le> 0))
      else if x = opGE then Some (VBool (cmp \<ge> 0))
      else None)"

definition float_op :: "opcode \<Rightarrow> f64 \<Rightarrow> f64 \<Rightarrow> val option" where
  "float_op op x y =
     (if op = opADD then Some (VFloat (f_add x y))
      else if op = opSUB then Some (VFloat (f_sub x y))
      else if op = opMUL then Some (VFloat (f_mul x y))
      else if op = opDIV then Some (VFloat (f_div x y))
      else if op = opMOD then Some (VFloat (f_fmod x y))
      else if op = opLT then Some (VBool (f_lt x y))
      else if op = opGT then Some (VBool (f_lt y x))
      else if op = opLE then Some (VBool (f_le x y))
      else if op = opGE then Some (VBool (f_le y x))
      else None)"

definition c_shl :: "i64 \<Rightarrow> i64 \<Rightarrow> i64 outcome" where
  "c_shl x y = obind (oguard (0 \<le> sint y \<and> sint y < 64) BadShift) (\<lambda>_.
     obind (oguard (0 \<le> sint x) SignedOverflow) (\<lambda>_. c_i64 (sint x * 2 ^ nat (sint y))))"

definition c_shr :: "i64 \<Rightarrow> i64 \<Rightarrow> i64 outcome" where
  \<comment> \<open>arithmetic, as every supported compiler defines it\<close>
  "c_shr x y = obind (oguard (0 \<le> sint y \<and> sint y < 64) BadShift) (\<lambda>_.
     Ok (signed_drop_bit (nat (sint y)) x))"

definition ovf_result :: "i64 option \<Rightarrow> string \<Rightarrow> val outcome" where
  "ovf_result r what = (case r of
       None \<Rightarrow> Fatal (''[Cryo Security] Overflow: integer '' @ what)
     | Some i \<Rightarrow> Ok (VInt i))"

definition int_op :: "opcode \<Rightarrow> i64 \<Rightarrow> i64 \<Rightarrow> val outcome" where
  "int_op op x y =
     (if op = opADD then ovf_result (pyro_add_ovf x y) ''addition''
      else if op = opSUB then ovf_result (pyro_sub_ovf x y) ''subtraction''
      else if op = opMUL then ovf_result (pyro_mul_ovf x y) ''multiplication''
      else if op = opDIV then
        if y = 0 then Fatal ''[Cryo Security] DivByZero: integer division''
        else if x = i64_min \<and> y = -1 then Fatal ''[Cryo Security] Overflow: INT64_MIN / -1''
        else obind (c_div x y) (\<lambda>r. Ok (VInt r))
      else if op = opMOD then
        if y = 0 then Fatal ''[Cryo Security] DivByZero: modulo''
        else if x = i64_min \<and> y = -1 then Ok (VInt 0)
        else obind (c_mod x y) (\<lambda>r. Ok (VInt r))
      else if op = opBAND then Ok (VInt (x AND y))
      else if op = opBOR then Ok (VInt (x OR y))
      else if op = opBXOR then Ok (VInt (x XOR y))
      else if op = opSHL then obind (c_shl x y) (\<lambda>r. Ok (VInt r))
      else if op = opSHR then obind (c_shr x y) (\<lambda>r. Ok (VInt r))
      else if op = opLT then Ok (VBool (x <s y))
      else if op = opGT then Ok (VBool (y <s x))
      else if op = opLE then Ok (VBool (x \<le>s y))
      else if op = opGE then Ok (VBool (y \<le>s x))
      else Fatal ''invalid opcode in bytecode'')"

definition bin_op :: "opcode \<Rightarrow> val \<Rightarrow> val \<Rightarrow> heap \<Rightarrow> (val \<times> heap) outcome" where
  "bin_op op a b h =
     (if op = opADD \<and> (is_str a \<or> is_str b) then str_concat a b h
      else if op = opEQ \<or> op = opNE then
        obind (value_eq h a b) (\<lambda>e. Ok (VBool (if op = opNE then \<not> e else e), h))
      else
        obind (if is_str a \<or> is_str b
               then obind (value_to_string h a) (\<lambda>sa. obind (value_to_string h b) (\<lambda>sb.
                    Ok (str_op op (strcmp sa sb))))
               else Ok None) (\<lambda>r1.
        obind (if r1 = None \<and> (is_float a \<or> is_float b)
               then obind (value_as_float a) (\<lambda>x. obind (value_as_float b) (\<lambda>y.
                    Ok (float_op op x y)))
               else Ok r1) (\<lambda>r2.
        case r2 of
          Some v \<Rightarrow> Ok (v, h)
        | None \<Rightarrow> obind (as_i a) (\<lambda>x. obind (as_i b) (\<lambda>y. obind (int_op op x y) (\<lambda>v. Ok (v, h)))))))"

section \<open>The overflow tests\<close>

lemma sint_i64_max [simp]: "sint i64_max = 2 ^ 63 - 1"
  unfolding i64_max_def by (rule sint_word_of_int_i64) (simp add: in_i64_def)

lemma sint_i64_min [simp]: "sint i64_min = -(2 ^ 63)"
  unfolding i64_min_def by (rule sint_word_of_int_i64) (simp add: in_i64_def)

lemma i64_bounds: "-(2 ^ 63) \<le> sint (x :: i64)" "sint (x :: i64) < 2 ^ 63"
  using sint_in_i64 [of x] by (simp_all add: in_i64_def)

lemma slt_sint: "(x <s y) = (sint x < sint (y :: i64))" "(x \<le>s y) = (sint x \<le> sint (y :: i64))"
  by (simp_all add: word_sless_alt word_sle_eq)

lemma c_i64_total: "in_i64 i \<Longrightarrow> c_i64 i = Ok (word_of_int i)"
  by (simp add: c_i64_def)

lemma add_ovf_portable_eq: "add_ovf_portable a b = Ok (pyro_add_ovf a b)"
proof -
  note bounds = i64_bounds [of a] i64_bounds [of b]
  have hi: "0 < sint b \<Longrightarrow> in_i64 (sint i64_max - sint b)"
    and lo: "sint b < 0 \<Longrightarrow> in_i64 (sint i64_min - sint b)"
    using bounds by (simp_all add: in_i64_def)
  show ?thesis
  proof (cases "in_i64 (sint a + sint b)")
    case True
    then show ?thesis using hi lo
      by (auto simp: add_ovf_portable_def pyro_add_ovf_def builtin_ovf_def test_def slt_sint c_i64_total
          simp del: of_int_add of_int_diff) (auto simp: in_i64_def)
  next
    case False
    then show ?thesis using hi lo bounds
      by (auto simp: add_ovf_portable_def pyro_add_ovf_def builtin_ovf_def test_def slt_sint c_i64_total
          simp del: of_int_add of_int_diff) (auto simp: in_i64_def)
  qed
qed

lemma sub_ovf_portable_eq: "sub_ovf_portable a b = Ok (pyro_sub_ovf a b)"
proof -
  note bounds = i64_bounds [of a] i64_bounds [of b]
  have hi: "sint b < 0 \<Longrightarrow> in_i64 (sint i64_max + sint b)"
    and lo: "0 < sint b \<Longrightarrow> in_i64 (sint i64_min + sint b)"
    using bounds by (simp_all add: in_i64_def)
  show ?thesis
  proof (cases "in_i64 (sint a - sint b)")
    case True
    then show ?thesis using hi lo
      by (auto simp: sub_ovf_portable_def pyro_sub_ovf_def builtin_ovf_def test_def slt_sint c_i64_total
          simp del: of_int_add of_int_diff) (auto simp: in_i64_def)
  next
    case False
    then show ?thesis using hi lo bounds
      by (auto simp: sub_ovf_portable_def pyro_sub_ovf_def builtin_ovf_def test_def slt_sint c_i64_total
          simp del: of_int_add of_int_diff) (auto simp: in_i64_def)
  qed
qed

text \<open>Division by a positive number, and the test it decides.\<close>

lemma sdiv_pos: "0 \<le> n \<Longrightarrow> 0 < d \<Longrightarrow> n sdiv d = n div (d :: int)"
  by (cases "n = 0") (simp_all add: signed_divide_int_def)

lemma sdiv_neg_left: "0 \<le> n \<Longrightarrow> 0 < d \<Longrightarrow> (- n) sdiv d = - (n div (d :: int))"
  by (cases "n = 0") (simp_all add: signed_divide_int_def)

lemma sdiv_neg_right: "0 \<le> n \<Longrightarrow> d < 0 \<Longrightarrow> n sdiv d = - (n div (- d :: int))"
  by (cases "n = 0") (simp_all add: signed_divide_int_def)

lemma div_less_mult:
  assumes "0 < d" shows "(n div d < k) = (n < k * (d :: int))"
proof
  have r: "n = n div d * d + n mod d" "0 \<le> n mod d" "n mod d < d" using assms by simp_all
  show "n < k * d" if "n div d < k"
  proof -
    have "(n div d + 1) * d \<le> k * d" using that assms by (intro mult_right_mono) auto
    then show ?thesis using r by (simp only: distrib_right mult_1)
  qed
  show "n div d < k" if "n < k * d"
  proof (rule ccontr)
    assume "\<not> n div d < k"
    then have "k * d \<le> n div d * d" using assms by (intro mult_right_mono) auto
    then show False using that r by linarith
  qed
qed

lemma div_le_dividend_int: "0 \<le> n \<Longrightarrow> 0 < d \<Longrightarrow> n div d \<le> (n :: int)"
  using div_mult_mod_eq [of n d] by (smt (verit) mult_le_cancel_left1 pos_imp_zdiv_nonneg_iff pos_mod_sign mult.commute)

lemma div_in_i64:
  assumes "0 \<le> n" "n < 2 ^ 63" "0 < d" shows "in_i64 (n div d)" "in_i64 (- (n div d))"
proof -
  have "0 \<le> n div d" "n div d \<le> n"
    using assms div_le_dividend_int [of n d] by (simp_all add: pos_imp_zdiv_nonneg_iff)
  with assms show "in_i64 (n div d)" "in_i64 (- (n div d))" by (simp_all add: in_i64_def)
qed

lemma min_div_in_i64:
  assumes "0 < d" shows "in_i64 (- (2 ^ 63 div d))"
proof -
  have "0 \<le> 2 ^ 63 div d" "2 ^ 63 div d \<le> (2 ^ 63 :: int)"
    using assms div_le_dividend_int [of "2 ^ 63" d] by (simp_all add: pos_imp_zdiv_nonneg_iff)
  then show ?thesis by (simp add: in_i64_def)
qed

lemma c_div_eq:
  assumes "sint y \<noteq> 0" "sint x sdiv sint y = q" "in_i64 q"
  shows "\<exists>t. c_div x y = Ok t \<and> sint t = q"
proof -
  have "y \<noteq> 0" using assms(1) by auto
  then have "c_div x y = Ok (word_of_int q)"
    using assms(2,3) by (simp only: c_div_def c_i64_total oguard_simps not_False_eq_True simp_thms obind.simps)
  then show ?thesis using sint_word_of_int_i64 [OF assms(3)] by blast
qed

lemma c_div_max_pos: "0 < sint b \<Longrightarrow> \<exists>t. c_div i64_max b = Ok t \<and> sint t = (2 ^ 63 - 1) div sint b"
  by (rule c_div_eq) (simp_all add: sdiv_pos div_in_i64)

lemma c_div_max_neg: "sint b < 0 \<Longrightarrow> \<exists>t. c_div i64_max b = Ok t \<and> sint t = - ((2 ^ 63 - 1) div (- sint b))"
  by (rule c_div_eq) (simp_all add: sdiv_neg_right div_in_i64)

lemma c_div_min_pos: "0 < sint b \<Longrightarrow> \<exists>t. c_div i64_min b = Ok t \<and> sint t = - (2 ^ 63 div sint b)"
  using min_div_in_i64 [of "sint b"] sdiv_neg_left [of "2 ^ 63" "sint b"]
  by (intro c_div_eq) (simp_all add: sint_i64_min del: power_numeral)

lemma mul_ovf_portable_eq: "mul_ovf_portable a b = Ok (pyro_mul_ovf a b)"
proof -
  let ?a = "sint a" and ?b = "sint b" and ?p = "sint a * sint b"
  have result: "obind (Ok ovf) (\<lambda>ovf. if ovf then Ok None else obind (c_i64 ?p) (\<lambda>r. Ok (Some r))) = Ok (pyro_mul_ovf a b)"
    if "ovf = (\<not> in_i64 ?p)" for ovf
    using that by (simp add: pyro_mul_ovf_def builtin_ovf_def c_i64_total)
  consider "0 < ?a" "0 < ?b" | "0 < ?a" "?b \<le> 0" | "?a \<le> 0" "0 < ?b" | "?a = 0" "?b \<le> 0" | "?a < 0" "?b \<le> 0"
    by linarith
  then show ?thesis
  proof cases
    case 1
    then obtain t where t: "c_div i64_max b = Ok t" "sint t = (2 ^ 63 - 1) div ?b"
      using c_div_max_pos by blast
    have "0 < ?p" using 1 by (rule mult_pos_pos)
    then have "(\<not> in_i64 ?p) = (2 ^ 63 - 1 < ?p)" by (auto simp only: in_i64_def)
    then have "(sint t < ?a) = (\<not> in_i64 ?p)"
      using div_less_mult [OF 1(2), of "2 ^ 63 - 1" ?a] by (simp only: t(2))
    then show ?thesis using 1 t(1) result by (simp add: mul_ovf_portable_def slt_sint)
  next
    case 2
    then obtain t where t: "c_div i64_min a = Ok t" "sint t = - (2 ^ 63 div ?a)"
      using c_div_min_pos by blast
    have "?p \<le> 0" using 2 by (simp add: mult_nonneg_nonpos)
    then have "(?b < sint t) = (\<not> in_i64 ?p)"
      using 2 div_less_mult [of ?a "2 ^ 63" "- ?b"] by (auto simp: t(2) in_i64_def mult.commute)
    then show ?thesis using 2 t(1) result by (simp add: mul_ovf_portable_def slt_sint)
  next
    case 3
    then obtain t where t: "c_div i64_min b = Ok t" "sint t = - (2 ^ 63 div ?b)"
      using c_div_min_pos by blast
    have "?p \<le> 0" using 3 by (simp add: mult_nonpos_nonneg)
    then have "(?a < sint t) = (\<not> in_i64 ?p)"
      using 3 div_less_mult [of ?b "2 ^ 63" "- ?a"] by (auto simp: t(2) in_i64_def)
    then show ?thesis using 3 t(1) result by (simp add: mul_ovf_portable_def slt_sint)
  next
    case 4
    then have "a = 0" by (metis signed_0 signed_word_eqI)
    then show ?thesis using 4 result [of False] by (simp add: mul_ovf_portable_def slt_sint test_def in_i64_def)
  next
    case 5
    then obtain t where t: "c_div i64_max a = Ok t" "sint t = - ((2 ^ 63 - 1) div (- ?a))"
      using c_div_max_neg by blast
    have "0 \<le> ?p" using 5 by (simp add: mult_nonpos_nonpos)
    then have "(?b < sint t) = (\<not> in_i64 ?p)"
      using 5 div_less_mult [of "- ?a" "2 ^ 63 - 1" "- ?b"] by (auto simp: t(2) in_i64_def mult.commute)
    moreover have "a \<noteq> 0" using 5 by auto
    ultimately show ?thesis using 5 t(1) result by (simp add: mul_ovf_portable_def slt_sint test_def)
  qed
qed

section \<open>Properties\<close>

text \<open>C24. The portable overflow tests of addition, subtraction and multiplication never overflow themselves and decide exactly as the compiler builtins do.\<close>

theorem overflow_tests_agree:
  "add_ovf_portable a b = Ok (pyro_add_ovf a b) \<and>
   sub_ovf_portable a b = Ok (pyro_sub_ovf a b) \<and>
   mul_ovf_portable a b = Ok (pyro_mul_ovf a b)"
  by (simp add: add_ovf_portable_eq sub_ovf_portable_eq mul_ovf_portable_eq)

lemma kinds [simp]:
  "\<not> is_str (VInt i)" "\<not> is_float (VInt i)" "\<not> is_bool (VInt i)" "is_str (VStr a)" "is_float (VFloat f)"
  "as_i (VInt i) = Ok i"
  by (simp_all add: is_str_def is_float_def is_bool_def as_i_def)

lemma bin_op_int: "x \<notin> {opEQ, opNE} \<Longrightarrow> bin_op x (VInt i) (VInt j) h = obind (int_op x i j) (\<lambda>v. Ok (v, h))"
  by (simp add: bin_op_def)


lemma smod_bounds:
  fixes i j :: int
  assumes "j \<noteq> 0"
  shows "\<bar>i smod j\<bar> < \<bar>j\<bar>" "0 \<le> i \<Longrightarrow> 0 \<le> i smod j" "i \<le> 0 \<Longrightarrow> i smod j \<le> 0"
proof -
  have "0 \<le> \<bar>i\<bar> mod \<bar>j\<bar>" using assms by (intro pos_mod_sign) simp
  then show "0 \<le> i \<Longrightarrow> 0 \<le> i smod j" "i \<le> 0 \<Longrightarrow> i smod j \<le> 0"
    by (auto simp: signed_modulo_int_def sgn_if)
  show "\<bar>i smod j\<bar> < \<bar>j\<bar>" using smod_int_range [of j i] assms by (auto simp: abs_less_iff)
qed

lemma sint_nonzero: "y \<noteq> 0 \<Longrightarrow> sint (y :: i64) \<noteq> 0"
  by (metis signed_0 signed_word_eqI)

lemma sdiv_abs: "\<bar>i sdiv j\<bar> = \<bar>i\<bar> div \<bar>j :: int\<bar>"
  by (auto simp: signed_divide_int_def abs_mult abs_sgn_eq pos_imp_zdiv_nonneg_iff)

lemma sdiv_in_i64:
  assumes "y \<noteq> (0 :: i64)" "\<not> (x = i64_min \<and> y = -1)"
  shows "in_i64 (sint x sdiv sint y)"
proof -
  have y: "sint y \<noteq> 0" using assms(1) by (rule sint_nonzero)
  have le: "\<bar>sint x\<bar> div \<bar>sint y\<bar> \<le> \<bar>sint x\<bar>" using y by (intro div_le_dividend_int) auto
  show ?thesis
  proof (cases "sint x = -(2 ^ 63) \<and> \<bar>sint y\<bar> = 1")
    case True
    then have "x = i64_min" by (metis sint_i64_min signed_word_eqI)
    moreover have "sint y = 1 \<or> sint y = sint (-1 :: i64)" using True by auto
    ultimately have "sint y = 1" using assms(2) by (metis signed_word_eqI)
    then show ?thesis using True by (simp add: in_i64_def signed_divide_int_def)
  next
    case False
    have "\<bar>sint x\<bar> div \<bar>sint y\<bar> < 2 ^ 63"
    proof (cases "\<bar>sint y\<bar> = 1")
      case True
      with False i64_bounds [of x] show ?thesis by auto
    next
      case c: False
      then have "2 \<le> \<bar>sint y\<bar>" using y by linarith
      moreover have "\<bar>sint x\<bar> \<le> 2 ^ 63" using i64_bounds [of x] by auto
      ultimately show ?thesis using div_less_mult [of "\<bar>sint y\<bar>" "\<bar>sint x\<bar>" "2 ^ 63"] y by simp
    qed
    then have "\<bar>sint x sdiv sint y\<bar> < 2 ^ 63" by (simp only: sdiv_abs)
    then show ?thesis by (simp add: in_i64_def abs_less_iff)
  qed
qed

text \<open>C26. Quotient and remainder satisfy the division law with truncation: the remainder is smaller than the divisor and has the sign of the dividend.\<close>

theorem int_div_mod_law:
  assumes "y \<noteq> 0" "\<not> (x = i64_min \<and> y = -1)"
  shows "\<exists>q r. bin_op opDIV (VInt x) (VInt y) h = Ok (VInt q, h) \<and> bin_op opMOD (VInt x) (VInt y) h = Ok (VInt r, h) \<and>
     sint x = sint q * sint y + sint r \<and> \<bar>sint r\<bar> < \<bar>sint y\<bar> \<and> (0 \<le> sint x \<longrightarrow> 0 \<le> sint r) \<and>
     (sint x \<le> 0 \<longrightarrow> sint r \<le> 0)"
proof -
  let ?q = "sint x sdiv sint y" and ?r = "sint x smod sint y"
  have y: "sint y \<noteq> 0" using assms(1) by (rule sint_nonzero)
  have q: "in_i64 ?q" using assms by (rule sdiv_in_i64)
  have r: "in_i64 ?r" using smod_bounds(1) [OF y, of "sint x"] i64_bounds [of y] by (auto simp: in_i64_def abs_less_iff abs_le_iff)
  have min: "\<not> (sint x = -(2 ^ 63) \<and> y = -1)"
    using assms(2) by (metis sint_i64_min signed_word_eqI)
  have div: "c_div x y = Ok (word_of_int ?q)" and md: "c_mod x y = Ok (word_of_int ?r)"
    using assms(1) min q r by (simp_all only: c_div_def c_mod_def c_i64_total oguard_simps obind.simps simp_thms not_False_eq_True)
  have "bin_op opDIV (VInt x) (VInt y) h = Ok (VInt (word_of_int ?q), h)"
      "bin_op opMOD (VInt x) (VInt y) h = Ok (VInt (word_of_int ?r), h)"
    using assms by (auto simp: bin_op_int int_op_def div md)
  moreover have "sint x = ?q * sint y + ?r" by (simp only: sdiv_mult_smod_eq)
  ultimately show ?thesis
    using smod_bounds [OF y, of "sint x"]
    by (intro exI [of _ "word_of_int ?q"] exI [of _ "word_of_int ?r"])
       (simp only: sint_word_of_int_i64 [OF q] sint_word_of_int_i64 [OF r], simp)
qed

theorem int_div_mod_law_witness:
  "\<exists>q r. bin_op opDIV (VInt (-7)) (VInt 2) [] = Ok (VInt q, []) \<and> bin_op opMOD (VInt (-7)) (VInt 2) [] = Ok (VInt r, []) \<and>
     sint (-7 :: i64) = sint q * sint (2 :: i64) + sint r \<and> \<bar>sint r\<bar> < \<bar>sint (2 :: i64)\<bar> \<and>
     (0 \<le> sint (-7 :: i64) \<longrightarrow> 0 \<le> sint r) \<and> (sint (-7 :: i64) \<le> 0 \<longrightarrow> sint r \<le> 0)"
  by (rule int_div_mod_law) simp_all

theorem int_division_errors:
  "bin_op opDIV (VInt x) (VInt 0) h = Fatal ''[Cryo Security] DivByZero: integer division'' \<and>
   bin_op opMOD (VInt x) (VInt 0) h = Fatal ''[Cryo Security] DivByZero: modulo'' \<and>
   bin_op opDIV (VInt i64_min) (VInt (-1)) h = Fatal ''[Cryo Security] Overflow: INT64_MIN / -1'' \<and>
   bin_op opMOD (VInt i64_min) (VInt (-1)) h = Ok (VInt 0, h)"
  by (simp add: bin_op_int int_op_def)

text \<open>C27. Integer operators have no undefined behaviour, except for shifts with a count outside the width or a left shift that does not fit.\<close>

theorem int_op_defined:
  assumes "op \<in> {opSHL, opSHR} \<longrightarrow> 0 \<le> sint y \<and> sint y < 64"
    and "op = opSHL \<longrightarrow> 0 \<le> sint x \<and> sint x * 2 ^ nat (sint y) < 2 ^ 63"
  shows "defined (int_op op x y)"
proof -
  have div: "defined (c_div x y)" if "y \<noteq> 0" "\<not> (x = i64_min \<and> y = -1)"
    using that sdiv_in_i64 [OF that] by (simp add: c_div_def c_i64_total)
  have md: "defined (c_mod x y)" if c: "y \<noteq> 0" "\<not> (x = i64_min \<and> y = -1)"
  proof -
    have "sint y \<noteq> 0" using c(1) by (rule sint_nonzero)
    then have "in_i64 (sint x smod sint y)"
      using smod_bounds(1) [of "sint y" "sint x"] i64_bounds [of y] by (auto simp: in_i64_def abs_less_iff abs_le_iff)
    moreover have "\<not> (sint x = -(2 ^ 63) \<and> y = -1)" using c(2) by (metis sint_i64_min signed_word_eqI)
    ultimately show ?thesis using c(1) by (simp add: c_mod_def c_i64_total)
  qed
  have shl: "defined (c_shl x y)" if "op = opSHL"
  proof -
    have "0 \<le> sint y \<and> sint y < 64" "0 \<le> sint x" "sint x * 2 ^ nat (sint y) < 2 ^ 63"
      using assms that by auto
    moreover have "0 \<le> sint x * 2 ^ nat (sint y)"
      using \<open>0 \<le> sint x\<close> by (intro mult_nonneg_nonneg zero_le_power) simp_all
    then have "in_i64 (sint x * 2 ^ nat (sint y))"
      using \<open>sint x * 2 ^ nat (sint y) < 2 ^ 63\<close> by (simp add: in_i64_def)
    ultimately show ?thesis by (simp only: c_shl_def oguard_simps obind.simps c_i64_total defined.simps simp_thms)
  qed
  have ovf: "defined (ovf_result r what)" for r what
    by (simp add: ovf_result_def split: option.splits)
  have map_ok: "defined (obind m (\<lambda>r. Ok (VInt r)))" if "defined m" for m
    using that by (cases m) auto
  show ?thesis
    using assms div md shl ovf by (cases op) (simp_all add: int_op_def c_shr_def map_ok)
qed

theorem int_op_defined_witness:
  "defined (int_op opSHL 3 4)"
  by (rule int_op_defined) simp_all

text \<open>C28. Comparison operators on strings are the lexicographic order of the bytes before the first NUL, and equality agrees with it.\<close>

theorem string_comparison_order:
  assumes "deref_str h a = Ok s" "deref_str h b = Ok t"
  shows "bin_op opLT (VStr a) (VStr b) h = Ok (VBool (c_str s < c_str t), h) \<and>
    bin_op opLE (VStr a) (VStr b) h = Ok (VBool (c_str s \<le> c_str t), h) \<and>
    bin_op opGT (VStr a) (VStr b) h = Ok (VBool (c_str t < c_str s), h) \<and>
    bin_op opGE (VStr a) (VStr b) h = Ok (VBool (c_str t \<le> c_str s), h) \<and>
    bin_op opEQ (VStr a) (VStr b) h = Ok (VBool (c_str s = c_str t), h)"
proof -
  have le: "strcmp x y \<le> 0 \<longleftrightarrow> x \<le> y" "strcmp x y \<ge> 0 \<longleftrightarrow> y \<le> x" for x y
    using strcmp_less [of x y] strcmp_greater [of x y] by (simp_all add: not_less [symmetric])
  show ?thesis
    by (simp add: bin_op_def value_to_string_VStr [OF assms(1)] value_to_string_VStr [OF assms(2)] str_op_def
        strcmp_less strcmp_greater le value_eq_def)
qed

theorem string_comparison_order_witness:
  "bin_op opLT (VStr 0) (VStr 1) [Some \<lparr>rc = 1, cbody = BStr ''ab''\<rparr>, Some \<lparr>rc = 1, cbody = BStr ''b''\<rparr>] =
     Ok (VBool (c_str ''ab'' < c_str ''b''), [Some \<lparr>rc = 1, cbody = BStr ''ab''\<rparr>, Some \<lparr>rc = 1, cbody = BStr ''b''\<rparr>])"
  by (rule conjunct1 [OF string_comparison_order]) (simp_all add: deref_str_def deref_def hget_def)

text \<open>Concatenation drops what follows an embedded NUL.\<close>

theorem string_concat_spec:
  assumes "deref_str h a = Ok s" "value_to_string h v = Ok t"
  shows "bin_op opADD (VStr a) v h = Ok (val_str (c_str s @ t) h) \<and>
    bin_op opADD v (VStr a) h = Ok (val_str (t @ c_str s) h)"
  using assms by (simp add: bin_op_def str_concat_def value_to_string_VStr)

theorem string_concat_spec_witness:
  "bin_op opADD (VStr 0) VNull [Some \<lparr>rc = 1, cbody = BStr ''a''\<rparr>] =
     Ok (val_str (c_str ''a'' @ ''null'') [Some \<lparr>rc = 1, cbody = BStr ''a''\<rparr>])"
  by (rule conjunct1 [OF string_concat_spec]) (simp_all add: deref_str_def deref_def hget_def value_to_string_def)

end
