(* ===== verification/Runtime.thy ===== *)
theory Runtime
  imports Containers Arith
begin

text \<open>
  The global state of the runtime (the file-scope variables of \<open>vm/pyro_runtime.c\<close>): the heap, what
  was written to \<open>stdout\<close> and is left of \<open>stdin\<close>, the log of what was asked of the operating system,
  the two sockets of the HTTP server, the sandbox flag and the two capability policies, the embedded assets and
  the state of the pseudo-random generator; and the operations on the last two (\<open>pyro_asset_add\<close>,
  \<open>splitmix64_next\<close>).
\<close>

unbundle bit_operations_syntax

section \<open>State\<close>

record policy =
  pol_active :: bool
  pol_fsread :: "string list"
  pol_fswrite :: "string list"
  pol_net :: "string list"
  pol_exec :: "string list"
  pol_env :: "string list"

record asset =
  as_name :: string
  as_data :: string

text \<open>
  What the builtins ask of the operating system. A call is logged before it is made; the answers come
  from the record \<open>os\<close>, whose functions see the log so far (newest first), so they may depend on
  everything the program did before. A connection delivers its bytes in pieces: an empty piece is an
  orderly close, the end of the list an error or the deadline. \<open>os_pow\<close> and \<open>os_hypot\<close> are the two
  functions of the C math library whose last bit the standard leaves open.
\<close>

datatype os_call =
    Dial nat string string int          \<comment> \<open>the client's connection: redirects followed, URL, host, port\<close>
  | Send string                         \<comment> \<open>on the client's connection\<close>
  | Curl nat string "string option"     \<comment> \<open>redirects followed, URL, the body of a POST\<close>
  | ReadFile string
  | WriteFile string string             \<comment> \<open>\<open>fopen(path, "wb")\<close> and what is written\<close>
  | WriteTemp string string string      \<comment> \<open>\<open>write_file_atomic\<close>: the path asked for, the file, the data\<close>
  | Rename string string
  | DropTemp string string              \<comment> \<open>the path asked for, the file removed\<close>
  | Stat string | IsDir string | ListDir string
  | MakeDir string string               \<comment> \<open>the path asked for, the directory made\<close>
  | Remove string
  | Getenv string
  | Popen string
  | Socket | Bind "16 word" | Listen
  | Accept | Respond string
  | Now | Sleep i64

type_synonym history = "os_call list"

record os =
  os_cwd :: string
  os_flag :: "history \<Rightarrow> bool"                  \<comment> \<open>did the last call succeed, or hold\<close>
  os_net :: "history \<Rightarrow> string list option"     \<comment> \<open>what the new connection delivers\<close>
  os_text :: "history \<Rightarrow> string option"         \<comment> \<open>a file, a variable, the output of a process\<close>
  os_write :: "history \<Rightarrow> bool option"          \<comment> \<open>\<open>None\<close>: not opened; else: everything was written\<close>
  os_names :: "history \<Rightarrow> string list option"
  os_number :: "history \<Rightarrow> i64"
  os_pow :: "f64 \<Rightarrow> f64 \<Rightarrow> f64"
  os_hypot :: "f64 \<Rightarrow> f64 \<Rightarrow> f64"

record rt =
  heap :: heap
  out :: string
  inp :: string                         \<comment> \<open>what is left of \<open>stdin\<close>\<close>
  argv :: "string list"
  calls :: history
  listening :: bool                     \<comment> \<open>\<open>g_http_srv\<close> is a socket\<close>
  connected :: bool                     \<comment> \<open>\<open>g_http_conn\<close> is a socket\<close>
  http_buf :: string                    \<comment> \<open>what was ever written to the server's static buffer\<close>
  start_ms :: i64
  sandboxed :: bool
  env_policy :: policy
  artifact_policy :: policy
  assets :: "asset list"
  prng :: "64 word"

definition no_policy :: policy where
  "no_policy = \<lparr>pol_active = False, pol_fsread = [], pol_fswrite = [], pol_net = [], pol_exec = [],
     pol_env = []\<rparr>"

definition initial_rt :: rt where
  "initial_rt = \<lparr>heap = [], out = [], inp = [], argv = [], calls = [], listening = False,
     connected = False, http_buf = [], start_ms = 0, sandboxed = False, env_policy = no_policy,
     artifact_policy = no_policy, assets = [], prng = 0x853c49e6748fea9b\<rparr>"

definition with_heap :: "(heap \<Rightarrow> heap outcome) \<Rightarrow> rt \<Rightarrow> rt outcome" where
  "with_heap f r = obind (f (heap r)) (\<lambda>h. Ok (r\<lparr>heap := h\<rparr>))"

definition with_heap_val :: "(heap \<Rightarrow> ('a \<times> heap) outcome) \<Rightarrow> rt \<Rightarrow> ('a \<times> rt) outcome" where
  "with_heap_val f r = obind (f (heap r)) (\<lambda>(v, h). Ok (v, r\<lparr>heap := h\<rparr>))"

definition ask :: "os_call \<Rightarrow> rt \<Rightarrow> rt" where
  "ask c r = r\<lparr>calls := c # calls r\<rparr>"

section \<open>Assets\<close>

definition pyro_asset_cmp :: "asset \<Rightarrow> asset \<Rightarrow> int" where
  "pyro_asset_cmp a b = strcmp (as_name a) (as_name b)"

definition pyro_asset_add :: "string \<Rightarrow> string \<Rightarrow> rt \<Rightarrow> rt" where
  \<comment> \<open>appends and sorts by name; the name is a C string, the data keep their length\<close>
  "pyro_asset_add name data r =
     r\<lparr>assets := sort_key as_name (assets r @ [\<lparr>as_name = c_str name, as_data = data\<rparr>])\<rparr>"

section \<open>The generator\<close>

definition splitmix64_next :: "rt \<Rightarrow> 64 word \<times> rt" where
  "splitmix64_next r =
     (let s = prng r + 0x9e3779b97f4a7c15;
          z1 = (s XOR drop_bit 30 s) * 0xbf58476d1ce4e5b9;
          z2 = (z1 XOR drop_bit 27 z1) * 0x94d049bb133111eb
      in (z2 XOR drop_bit 31 z2, r\<lparr>prng := s\<rparr>))"

section \<open>Messages\<close>

definition err_buf :: "string \<Rightarrow> string outcome" where
  \<comment> \<open>\<open>char err[1024]; sprintf(err, ...)\<close>\<close>
  "err_buf s = obind (oguard (int (length s) < 1024) BufferOverflow) (\<lambda>_. Ok s)"

end
