(* ===== verification/Machine.thy ===== *)
theory Machine
  imports Runtime
begin

unbundle bit_operations_syntax

text \<open>
  The execution engine (\<open>vm/main.c\<close>): the program and VM state, \<open>raise_exception\<close>, one definition
  per \<open>case\<close> of the dispatch loop of \<open>run_program\<close>, the guards at the head of the loop, and the loop
  as a step relation and as a function with fuel.

  The value stack and the frame and handler stacks are lists with the top first, so \<open>sp\<close>, \<open>fp\<close> and
  \<open>hp\<close> are their lengths; \<open>locals_stack\<close> is a function on its 65536 indices, and an access beyond
  them is \<open>UB LocalsRange\<close>. The natives are an argument \<open>nf\<close> of the step: the builtin's number, its
  arguments and the runtime state.
\<close>

section \<open>State\<close>

record func_info =
  fi_name :: string
  fi_entry :: "32 word"
  fi_nparams :: u8
  fi_nlocals :: "16 word"

record debug_entry =
  dbg_pc :: "32 word"
  dbg_line :: "32 word"

record program =
  p_consts :: "val list"
  p_funcs :: "func_info list"
  p_entryFn :: "16 word"
  p_code :: "u8 list"
  p_codelen :: "32 word"
  p_dbg :: "debug_entry list"
  p_sandboxed :: bool

record frame =
  fr_retpc :: int
  fr_base :: nat
  fr_nlocals :: nat
  fr_fn :: nat

record handler =
  h_catch :: int
  h_sp :: nat
  h_fp :: nat
  h_slot :: "16 word"

record vm =
  v_pc :: int
  v_stk :: "val list"
  v_locals :: "nat \<Rightarrow> val"
  v_frames :: "frame list"
  v_handlers :: "handler list"
  v_globals :: "val list"
  v_rt :: rt

type_synonym native_fn = "nat \<Rightarrow> val list \<Rightarrow> rt \<Rightarrow> (val \<times> rt) outcome"

datatype result = Next vm | Stop vm

section \<open>Stack, locals and operands\<close>

definition push :: "val \<Rightarrow> vm \<Rightarrow> vm" where
  "push v s = s\<lparr>v_stk := v # v_stk s\<rparr>"

definition pop :: "vm \<Rightarrow> (val \<times> vm) outcome" where
  "pop s = (case v_stk s of [] \<Rightarrow> UB StackUnderflow | v # vs \<Rightarrow> Ok (v, s\<lparr>v_stk := vs\<rparr>))"

definition popn :: "nat \<Rightarrow> vm \<Rightarrow> (val list \<times> vm) outcome" where
  \<comment> \<open>the top \<open>n\<close> slots, deepest first\<close>
  "popn n s = obind (oguard (n \<le> length (v_stk s)) StackUnderflow) (\<lambda>_.
     Ok (rev (take n (v_stk s)), s\<lparr>v_stk := drop n (v_stk s)\<rparr>))"

definition on_heap :: "(heap \<Rightarrow> heap outcome) \<Rightarrow> vm \<Rightarrow> vm outcome" where
  "on_heap f s = obind (with_heap f (v_rt s)) (\<lambda>r. Ok (s\<lparr>v_rt := r\<rparr>))"

definition on_heap_val :: "(heap \<Rightarrow> ('a \<times> heap) outcome) \<Rightarrow> vm \<Rightarrow> ('a \<times> vm) outcome" where
  "on_heap_val f s = obind (with_heap_val f (v_rt s)) (\<lambda>(v, r). Ok (v, s\<lparr>v_rt := r\<rparr>))"

definition the_heap :: "vm \<Rightarrow> heap" where
  "the_heap s = heap (v_rt s)"

definition release :: "val \<Rightarrow> vm \<Rightarrow> vm outcome" where
  "release v s = on_heap (release_value v) s"

definition retain :: "val \<Rightarrow> vm \<Rightarrow> vm outcome" where
  "retain v s = on_heap (retain_value v) s"

definition top_frame :: "vm \<Rightarrow> frame outcome" where
  "top_frame s = (case v_frames s of [] \<Rightarrow> UB FrameRange | f # fs \<Rightarrow> Ok f)"

definition get_local :: "nat \<Rightarrow> vm \<Rightarrow> val outcome" where
  "get_local i s = obind (oguard (int i < 65536) LocalsRange) (\<lambda>_. Ok (v_locals s i))"

definition set_local :: "nat \<Rightarrow> val \<Rightarrow> vm \<Rightarrow> vm outcome" where
  "set_local i v s = obind (oguard (int i < 65536) LocalsRange) (\<lambda>_. Ok (s\<lparr>v_locals := (v_locals s)(i := v)\<rparr>))"

definition set_locals :: "nat \<Rightarrow> val list \<Rightarrow> vm \<Rightarrow> vm outcome" where
  "set_locals base vs s = ofold (\<lambda>(i, v). set_local (base + i) v) (enumerate 0 vs) s"

definition null_locals :: "nat \<Rightarrow> nat \<Rightarrow> vm \<Rightarrow> vm outcome" where
  "null_locals base n s =
     obind (oguard (int base + int n \<le> 65536) LocalsRange) (\<lambda>_.
     Ok (s\<lparr>v_locals := (\<lambda>i. if base \<le> i \<and> i < base + n then VNull else v_locals s i)\<rparr>))"

definition next8 :: "program \<Rightarrow> vm \<Rightarrow> (u8 \<times> vm) outcome" where
  \<comment> \<open>\<open>code[pc++]\<close>\<close>
  "next8 p s = obind (fetch CodeRange (p_code p) (v_pc s)) (\<lambda>b.
     obind (c_int32 (v_pc s + 1)) (\<lambda>pc. Ok (b, s\<lparr>v_pc := pc\<rparr>)))"

definition next16 :: "program \<Rightarrow> vm \<Rightarrow> (nat \<times> vm) outcome" where
  "next16 p s = obind (read_u16 CodeRange (p_code p) (v_pc s)) (\<lambda>(w, pc). Ok (unat w, s\<lparr>v_pc := pc\<rparr>))"

definition next_i32 :: "program \<Rightarrow> vm \<Rightarrow> (int \<times> vm) outcome" where
  "next_i32 p s = obind (read_i32 CodeRange (p_code p) (v_pc s)) (\<lambda>(w, pc). Ok (w, s\<lparr>v_pc := pc\<rparr>))"

definition jump :: "program \<Rightarrow> int \<Rightarrow> vm \<Rightarrow> vm outcome" where
  "jump p rel s = obind (pyro_jump_to (v_pc s) rel (p_codelen p)) (\<lambda>pc. Ok (s\<lparr>v_pc := pc\<rparr>))"

section \<open>Stack traces\<close>

fun get_line_from :: "32 word \<Rightarrow> debug_entry list \<Rightarrow> 32 word \<Rightarrow> 32 word" where
  "get_line_from target [] line = line"
| "get_line_from target (d # ds) line =
     (if dbg_pc d \<le> target then get_line_from target ds (dbg_line d) else line)"

definition get_line_number :: "32 word \<Rightarrow> program \<Rightarrow> int" where
  "get_line_number target p = sint (get_line_from target (p_dbg p) 0)"

definition trace_line :: "program \<Rightarrow> string \<Rightarrow> int \<Rightarrow> string" where
  "trace_line p name line = ''    at '' @ name @ '' (line '' @ show_int line @ '')'' @ [CHR 0x0A]"

definition print_stack_trace :: "program \<Rightarrow> vm \<Rightarrow> string" where
  \<comment> \<open>what is written to \<open>stderr\<close>: the running frame at \<open>pc\<close>, the others at their own return address\<close>
  "print_stack_trace p s =
     (if p_dbg p = [] then []
      else ''  stack trace (most recent first):'' @ [CHR 0x0A] @
        concat (map (\<lambda>(i, f).
          trace_line p (if fr_fn f < length (p_funcs p) then fi_name (p_funcs p ! fr_fn f) else ''?'')
            (get_line_number (word_of_int (if i = 0 then v_pc s else fr_retpc f)) p))
          (enumerate 0 (v_frames s))))"

definition fatal_report :: "string \<Rightarrow> program \<Rightarrow> vm \<Rightarrow> string" where
  "fatal_report msg p s = ''[Pyro VM] '' @ msg @ [CHR 0x0A] @ print_stack_trace p s"

section \<open>Exceptions\<close>

definition release_locals :: "frame \<Rightarrow> vm \<Rightarrow> vm outcome" where
  "release_locals f s =
     ofold (\<lambda>i s. obind (get_local (fr_base f + i) s) (\<lambda>v. release v s)) [0..<fr_nlocals f] s"

fun unwind_stack :: "nat \<Rightarrow> val list \<Rightarrow> vm \<Rightarrow> vm outcome" where
  \<comment> \<open>\<open>while (sp > n) release_value(stack[--sp]);\<close> on the stack \<open>vs\<close>\<close>
  "unwind_stack n [] s = Ok (s\<lparr>v_stk := []\<rparr>)"
| "unwind_stack n (v # vs) s =
     (if n < length (v # vs)
      then obind (release v (s\<lparr>v_stk := vs\<rparr>)) (\<lambda>s'. unwind_stack n vs s')
      else Ok (s\<lparr>v_stk := v # vs\<rparr>))"

fun unwind_frames :: "nat \<Rightarrow> frame list \<Rightarrow> vm \<Rightarrow> vm outcome" where
  "unwind_frames n [] s = Ok (s\<lparr>v_frames := []\<rparr>)"
| "unwind_frames n (f # fs) s =
     (if n < length (f # fs)
      then obind (release_locals f (s\<lparr>v_frames := fs\<rparr>)) (\<lambda>s'. unwind_frames n fs s')
      else Ok (s\<lparr>v_frames := f # fs\<rparr>))"

definition raise_exception :: "val \<Rightarrow> vm \<Rightarrow> (bool \<times> vm) outcome" where
  "raise_exception v s =
     (case v_handlers s of
        [] \<Rightarrow> Ok (False, s)
      | h # hs \<Rightarrow>
          obind (unwind_stack (h_sp h) (v_stk s) (s\<lparr>v_handlers := hs\<rparr>)) (\<lambda>s1.
          obind (unwind_frames (h_fp h) (v_frames s1) s1) (\<lambda>s2.
          obind (if h_slot h \<noteq> 0xFFFF
                 then obind (top_frame s2) (\<lambda>f.
                      let i = fr_base f + unat (h_slot h)
                      in obind (get_local i s2) (\<lambda>old. obind (release old s2) (\<lambda>s3. set_local i v s3)))
                 else release v s2) (\<lambda>s4.
          Ok (True, s4\<lparr>v_pc := h_catch h\<rparr>)))))"

section \<open>Instructions: constants, stack, variables\<close>

definition op_CONST :: "program \<Rightarrow> vm \<Rightarrow> vm outcome" where
  "op_CONST p s =
     obind (next16 p s) (\<lambda>(idx, s1).
     obind (ofail (length (p_consts p) \<le> idx) ''malformed .pyro: constant index out of range'') (\<lambda>_.
     let v = p_consts p ! idx
     in obind (retain v s1) (\<lambda>s2. Ok (push v s2))))"

definition op_POP :: "vm \<Rightarrow> vm outcome" where
  "op_POP s = obind (pop s) (\<lambda>(v, s1). release v s1)"

definition op_LOAD :: "program \<Rightarrow> vm \<Rightarrow> vm outcome" where
  "op_LOAD p s =
     obind (next16 p s) (\<lambda>(slot, s1).
     obind (top_frame s1) (\<lambda>f.
     obind (get_local (fr_base f + slot) s1) (\<lambda>v.
     obind (retain v s1) (\<lambda>s2. Ok (push v s2)))))"

definition op_STORE :: "program \<Rightarrow> vm \<Rightarrow> vm outcome" where
  "op_STORE p s =
     obind (next16 p s) (\<lambda>(slot, s1).
     obind (top_frame s1) (\<lambda>f.
     obind (get_local (fr_base f + slot) s1) (\<lambda>old.
     obind (release old s1) (\<lambda>s2.
     obind (pop s2) (\<lambda>(v, s3). set_local (fr_base f + slot) v s3)))))"

definition op_GETGLOBAL :: "program \<Rightarrow> vm \<Rightarrow> vm outcome" where
  "op_GETGLOBAL p s =
     obind (next16 p s) (\<lambda>(slot, s1).
     let v = (if slot < length (v_globals s1) then v_globals s1 ! slot else VNull)
     in obind (retain v s1) (\<lambda>s2. Ok (push v s2)))"

definition op_SETGLOBAL :: "program \<Rightarrow> vm \<Rightarrow> vm outcome" where
  "op_SETGLOBAL p s =
     obind (next16 p s) (\<lambda>(slot, s1).
     let gs = v_globals s1;
         s2 = s1\<lparr>v_globals := gs @ replicate (Suc slot - length gs) VNull\<rparr>
     in obind (release (v_globals s2 ! slot) s2) (\<lambda>s3.
        obind (pop s3) (\<lambda>(v, s4). Ok (s4\<lparr>v_globals := (v_globals s4)[slot := v]\<rparr>))))"

section \<open>Instructions: operators\<close>

definition op_BIN :: "opcode \<Rightarrow> vm \<Rightarrow> vm outcome" where
  "op_BIN x s =
     obind (pop s) (\<lambda>(b, s1). obind (pop s1) (\<lambda>(a, s2).
     obind (on_heap_val (bin_op x a b) s2) (\<lambda>(res, s3).
     obind (release a (push res s3)) (\<lambda>s4. release b s4))))"

definition top_slot :: "vm \<Rightarrow> (val \<times> (val \<Rightarrow> vm \<Rightarrow> vm)) outcome" where
  \<comment> \<open>\<open>stack[sp - 1]\<close>: its value and how to overwrite it\<close>
  "top_slot s = (case v_stk s of [] \<Rightarrow> UB StackUnderflow
     | v # vs \<Rightarrow> Ok (v, \<lambda>w s. s\<lparr>v_stk := w # tl (v_stk s)\<rparr>))"

definition op_NEG :: "vm \<Rightarrow> vm outcome" where
  "op_NEG s =
     obind (top_slot s) (\<lambda>(a, set_top).
     case a of
       VFloat f \<Rightarrow> Ok (set_top (VFloat (f_neg f)) s)
     | _ \<Rightarrow> obind (as_i a) (\<lambda>i. obind (c_i64 (- sint i)) (\<lambda>r. Ok (set_top (VInt r) s))))"

definition op_BNOT :: "vm \<Rightarrow> vm outcome" where
  "op_BNOT s =
     obind (top_slot s) (\<lambda>(a, set_top). obind (as_i a) (\<lambda>i. Ok (set_top (VInt (NOT i)) s)))"

definition op_NOT :: "vm \<Rightarrow> vm outcome" where
  "op_NOT s =
     obind (top_slot s) (\<lambda>(a, set_top).
     obind (value_truthy (the_heap s) a) (\<lambda>t.
     obind (release a s) (\<lambda>s1. Ok (set_top (VBool (\<not> t)) s1))))"

definition op_COALESCE :: "vm \<Rightarrow> vm outcome" where
  "op_COALESCE s =
     obind (pop s) (\<lambda>(b, s1). obind (pop s1) (\<lambda>(a, s2).
     if a = VNull then release a (push b s2) else release b (push a s2)))"

section \<open>Instructions: control\<close>

definition op_JMP :: "program \<Rightarrow> vm \<Rightarrow> vm outcome" where
  "op_JMP p s = obind (next_i32 p s) (\<lambda>(rel, s1). jump p rel s1)"

definition op_JMPC :: "bool \<Rightarrow> program \<Rightarrow> vm \<Rightarrow> vm outcome" where
  \<comment> \<open>\<open>opJMPT\<close> jumps when the popped value is true, \<open>opJMPF\<close> when it is false\<close>
  "op_JMPC sense p s =
     obind (next_i32 p s) (\<lambda>(rel, s1).
     obind (pop s1) (\<lambda>(a, s2).
     obind (value_truthy (the_heap s2) a) (\<lambda>t.
     obind (release a s2) (\<lambda>s3.
     if t = sense then jump p rel s3 else Ok s3))))"

definition locals_limit :: "nat \<Rightarrow> func_info \<Rightarrow> unit outcome" where
  "locals_limit base f =
     ofail (65534 < int base + uint (fi_nlocals f))
       ''malformed .pyro: locals stack overflow (runaway recursion?)''"

definition enter_frame :: "nat \<Rightarrow> func_info \<Rightarrow> nat \<Rightarrow> vm \<Rightarrow> vm outcome" where
  \<comment> \<open>the frame limit, the new frame, and the jump to the function's entry\<close>
  "enter_frame fi f base s =
     obind (ofail (4094 < int (length (v_frames s)))
              ''malformed .pyro: call stack overflow (runaway recursion?)'') (\<lambda>_.
     Ok (s\<lparr>v_frames := \<lparr>fr_retpc = v_pc s, fr_base = base, fr_nlocals = unat (fi_nlocals f), fr_fn = fi\<rparr>
              # v_frames s,
           v_pc := sint (fi_entry f)\<rparr>))"

definition op_CALL :: "program \<Rightarrow> vm \<Rightarrow> vm outcome" where
  "op_CALL p s =
     obind (next16 p s) (\<lambda>(fi, s1). obind (next8 p s1) (\<lambda>(argc, s2).
     obind (ofail (length (p_funcs p) \<le> fi) ''malformed .pyro: function index out of range'') (\<lambda>_.
     let f = p_funcs p ! fi
     in obind (top_frame s2) (\<lambda>fr.
        let base = fr_base fr + fr_nlocals fr
        in obind (locals_limit base f) (\<lambda>_.
           obind (null_locals base (unat (fi_nlocals f)) s2) (\<lambda>s3.
           obind (popn (unat argc) s3) (\<lambda>(args, s4).
           obind (set_locals base args s4) (\<lambda>s5. enter_frame fi f base s5))))))))"

definition op_PUSHFN :: "program \<Rightarrow> vm \<Rightarrow> vm outcome" where
  "op_PUSHFN p s = obind (next16 p s) (\<lambda>(fi, s1). Ok (push (val_func (of_nat fi) None) s1))"

definition op_CLOSURE :: "program \<Rightarrow> vm \<Rightarrow> vm outcome" where
  "op_CLOSURE p s =
     obind (next16 p s) (\<lambda>(fi, s1). obind (next8 p s1) (\<lambda>(ncap, s2).
     obind (on_heap_val (\<lambda>h. Ok (rc_array_new h)) s2) (\<lambda>(cap, s3).
     obind (popn (unat ncap) s3) (\<lambda>(vs, s4).
     obind (ofold (\<lambda>v. on_heap (rc_array_push cap v)) vs s4) (\<lambda>s5.
     obind (ofold release vs s5) (\<lambda>s6.
     Ok (push (val_func (of_nat fi) (Some cap)) s6)))))))"

definition captures :: "addr option \<Rightarrow> vm \<Rightarrow> val list outcome" where
  "captures c s = (case c of None \<Rightarrow> Ok [] | Some a \<Rightarrow> obind (deref_arr (the_heap s) a) (\<lambda>(xs, _). Ok xs))"

definition op_CALLVALUE :: "program \<Rightarrow> vm \<Rightarrow> vm outcome" where
  "op_CALLVALUE p s =
     obind (next8 p s) (\<lambda>(argc, s1).
     obind (popn (Suc (unat argc)) s1) (\<lambda>(vs, s2).
     let fnval = hd vs; args = tl vs
     in case fnval of
          VFunc fi cap \<Rightarrow>
            obind (ofail (int (length (p_funcs p)) \<le> sint fi) ''malformed .pyro: function index out of range'') (\<lambda>_.
            obind (oguard (0 \<le> sint fi) FuncRange) (\<lambda>_.
            let f = p_funcs p ! nat (sint fi)
            in obind (top_frame s2) (\<lambda>fr.
               let base = fr_base fr + fr_nlocals fr
               in obind (locals_limit base f) (\<lambda>_.
                  obind (null_locals base (unat (fi_nlocals f)) s2) (\<lambda>s3.
                  obind (captures cap s3) (\<lambda>cs.
                  obind (ofold (\<lambda>(i, c) s. obind (retain c s) (set_local (base + i) c))
                           (enumerate 0 cs) s3) (\<lambda>s4.
                  obind (set_locals (base + length cs) args s4) (\<lambda>s5.
                  obind (release fnval s5) (\<lambda>s6.
                  enter_frame (nat (sint fi)) f base s6)))))))))
        | _ \<Rightarrow> Fatal ''call of a non-function value''))"

definition op_RET :: "vm \<Rightarrow> result outcome" where
  "op_RET s =
     obind (pop s) (\<lambda>(ret, s1).
     case v_frames s1 of
       [] \<Rightarrow> Fatal ''malformed .pyro: return with no frame to return to''
     | f # fs \<Rightarrow>
         obind (release_locals f (s1\<lparr>v_frames := fs\<rparr>)) (\<lambda>s2.
         if fr_retpc f < 0 then obind (release ret s2) (\<lambda>s3. Ok (Stop s3))
         else Ok (Next (push ret (s2\<lparr>v_pc := fr_retpc f\<rparr>)))))"

section \<open>Instructions: output and containers\<close>

definition print :: "string \<Rightarrow> vm \<Rightarrow> vm" where
  "print t s = s\<lparr>v_rt := (v_rt s)\<lparr>out := out (v_rt s) @ t\<rparr>\<rparr>"

definition op_PRINT :: "vm \<Rightarrow> vm outcome" where
  "op_PRINT s =
     obind (pop s) (\<lambda>(v, s1). obind (value_to_string (the_heap s1) v) (\<lambda>t.
     release v (print (t @ [CHR 0x0A]) s1)))"

definition op_NEWARR :: "program \<Rightarrow> vm \<Rightarrow> vm outcome" where
  "op_NEWARR p s =
     obind (next16 p s) (\<lambda>(n, s1).
     obind (ofail (length (v_stk s1) < n) ''malformed .pyro: array literal larger than the stack'') (\<lambda>_.
     obind (on_heap_val (\<lambda>h. Ok (rc_array_new h)) s1) (\<lambda>(arr, s2).
     obind (popn n s2) (\<lambda>(vs, s3).
     obind (ofold (\<lambda>v s. obind (on_heap (rc_array_push arr v) s) (release v)) vs s3) (\<lambda>s4.
     obind (on_heap_val (val_array arr) s4) (\<lambda>(v, s5). Ok (push v s5)))))))"

fun pairs :: "'a list \<Rightarrow> ('a \<times> 'a) list" where
  "pairs (k # v # xs) = (k, v) # pairs xs"
| "pairs xs = []"

definition op_NEWMAP :: "program \<Rightarrow> vm \<Rightarrow> vm outcome" where
  "op_NEWMAP p s =
     obind (next16 p s) (\<lambda>(n, s1).
     obind (ofail (length (v_stk s1) < 2 * n) ''malformed .pyro: map literal larger than the stack'') (\<lambda>_.
     obind (on_heap_val (\<lambda>h. Ok (rc_map_new h)) s1) (\<lambda>(m, s2).
     obind (popn (2 * n) s2) (\<lambda>(vs, s3).
     obind (ofold (\<lambda>(k, v) s. obind (on_heap (rc_map_set m k v) s) (\<lambda>s'. obind (release k s') (release v)))
              (pairs vs) s3) (\<lambda>s4.
     obind (on_heap_val (val_map m) s4) (\<lambda>(v, s5). Ok (push v s5)))))))"

definition op_INDEX :: "vm \<Rightarrow> vm outcome" where
  "op_INDEX s =
     obind (pop s) (\<lambda>(key, s1). obind (pop s1) (\<lambda>(cont, s2).
     obind (on_heap_val (index_get cont key) s2) (\<lambda>(v, s3).
     obind (release key (push v s3)) (release cont))))"

definition op_SETIDX :: "vm \<Rightarrow> vm outcome" where
  "op_SETIDX s =
     obind (pop s) (\<lambda>(v, s1). obind (pop s1) (\<lambda>(key, s2). obind (pop s2) (\<lambda>(cont, s3).
     obind (on_heap (index_set cont key v) s3) (\<lambda>s4.
     obind (release v s4) (\<lambda>s5. obind (release key s5) (release cont))))))"

definition op_LEN :: "vm \<Rightarrow> vm outcome" where
  "op_LEN s =
     obind (top_slot s) (\<lambda>(v, set_top).
     obind (value_length (the_heap s) v) (\<lambda>n.
     obind (release v s) (\<lambda>s1. Ok (set_top (VInt n) s1))))"

definition op_APPEND :: "vm \<Rightarrow> vm outcome" where
  "op_APPEND s =
     obind (pop s) (\<lambda>(v, s1). obind (pop s1) (\<lambda>(arr, s2).
     case arr of
       VArr a \<Rightarrow>
         obind (on_heap (rc_array_push a v) s2) (\<lambda>s3.
         obind (release v s3) (\<lambda>s4.
         obind (deref_arr (the_heap s4) a) (\<lambda>(xs, cap).
         obind (release arr s4) (\<lambda>s5. Ok (push (VInt (of_nat (length xs))) s5)))))
     | _ \<Rightarrow> Fatal ''push on a non-array value''))"

definition op_HAS :: "vm \<Rightarrow> vm outcome" where
  "op_HAS s =
     obind (pop s) (\<lambda>(key, s1). obind (top_slot s1) (\<lambda>(mp, set_top).
     obind (case mp of VMap a \<Rightarrow> rc_map_has a key (the_heap s1) | _ \<Rightarrow> Ok False) (\<lambda>b.
     obind (release key s1) (\<lambda>s2. obind (release mp s2) (\<lambda>s3. Ok (set_top (VBool b) s3))))))"

definition op_KEYS :: "vm \<Rightarrow> vm outcome" where
  "op_KEYS s =
     obind (top_slot s) (\<lambda>(mp, set_top).
     case mp of
       VMap a \<Rightarrow>
         obind (on_heap_val (rc_map_keys_sorted a) s) (\<lambda>(arr, s1).
         obind (release mp s1) (\<lambda>s2.
         obind (on_heap_val (val_array arr) s2) (\<lambda>(v, s3). Ok (set_top v s3))))
     | _ \<Rightarrow> Fatal ''keys() applied to a non-map value'')"

definition op_NATIVE :: "native_fn \<Rightarrow> program \<Rightarrow> vm \<Rightarrow> vm outcome" where
  "op_NATIVE nf p s =
     obind (next8 p s) (\<lambda>(nid, s1). obind (next8 p s1) (\<lambda>(argc, s2).
     obind (popn (unat argc) s2) (\<lambda>(args, s3).
     obind (nf (unat nid) args (v_rt s2)) (\<lambda>(res, r).
     obind (ofold release args (s3\<lparr>v_rt := r\<rparr>)) (\<lambda>s4. Ok (push res s4))))))"

section \<open>Instructions: exceptions\<close>

definition op_TRYPUSH :: "program \<Rightarrow> vm \<Rightarrow> vm outcome" where
  "op_TRYPUSH p s =
     obind (next_i32 p s) (\<lambda>(rel, s1). obind (next16 p s1) (\<lambda>(slot, s2).
     obind (pyro_jump_to (v_pc s2) rel (p_codelen p)) (\<lambda>catch_pc.
     obind (ofail (4094 < int (length (v_handlers s2))) ''malformed .pyro: exception handler stack overflow'') (\<lambda>_.
     Ok (s2\<lparr>v_handlers := \<lparr>h_catch = catch_pc, h_sp = length (v_stk s2), h_fp = length (v_frames s2),
              h_slot = of_nat slot\<rparr> # v_handlers s2\<rparr>)))))"

definition op_TRYPOP :: "vm \<Rightarrow> vm outcome" where
  "op_TRYPOP s = Ok (s\<lparr>v_handlers := tl (v_handlers s)\<rparr>)"

definition op_THROW :: "vm \<Rightarrow> vm outcome" where
  "op_THROW s =
     obind (pop s) (\<lambda>(v, s1).
     obind (raise_exception v s1) (\<lambda>(caught, s2).
     if caught then Ok s2
     else obind (value_to_string (the_heap s2) v) (\<lambda>t.
          obind (err_buf (''uncaught exception: '' @ t)) (\<lambda>e. Fatal e))))"

definition op_ASSERT :: "vm \<Rightarrow> vm outcome" where
  "op_ASSERT s =
     obind (pop s) (\<lambda>(cond, s1). obind (pop s1) (\<lambda>(msg, s2).
     obind (value_truthy (the_heap s2) cond) (\<lambda>t.
     obind (if t then Ok s2
            else obind (value_to_string (the_heap s2) msg) (\<lambda>m.
                 obind (err_buf (''[Cryo Assert] '' @ m)) (\<lambda>e.
                 obind (on_heap_val (\<lambda>h. Ok (val_str e h)) s2) (\<lambda>(v, s3).
                 obind (raise_exception v s3) (\<lambda>(caught, s4).
                 if caught then Ok s4 else Fatal e))))) (\<lambda>s5.
     obind (release cond s5) (release msg)))))"

definition op_UNWRAP :: "vm \<Rightarrow> vm outcome" where
  "op_UNWRAP s =
     obind (top_slot s) (\<lambda>(a, _).
     if a = VNull
     then obind (pop s) (\<lambda>(_, s1).
          obind (on_heap_val (\<lambda>h. Ok (val_str ''[Cryo Security] unwrap of null value'' h)) s1) (\<lambda>(v, s2).
          obind (raise_exception v s2) (\<lambda>(caught, s3).
          if caught then Ok s3 else Fatal ''[Cryo Security] unwrap of null value'')))
     else Ok s)"

section \<open>The dispatch loop\<close>

definition next_vm :: "vm outcome \<Rightarrow> result outcome" where
  "next_vm m = obind m (\<lambda>s. Ok (Next s))"

primrec exec_op :: "opcode \<Rightarrow> native_fn \<Rightarrow> program \<Rightarrow> vm \<Rightarrow> result outcome" where
  "exec_op opHALT nf p s = Ok (Stop s)"
| "exec_op opCONST nf p s = next_vm (op_CONST p s)"
| "exec_op opTRUE nf p s = Ok (Next (push (VBool True) s))"
| "exec_op opFALSE nf p s = Ok (Next (push (VBool False) s))"
| "exec_op opNULL nf p s = Ok (Next (push VNull s))"
| "exec_op opPOP nf p s = next_vm (op_POP s)"
| "exec_op opLOAD nf p s = next_vm (op_LOAD p s)"
| "exec_op opSTORE nf p s = next_vm (op_STORE p s)"
| "exec_op opADD nf p s = next_vm (op_BIN opADD s)"
| "exec_op opSUB nf p s = next_vm (op_BIN opSUB s)"
| "exec_op opMUL nf p s = next_vm (op_BIN opMUL s)"
| "exec_op opDIV nf p s = next_vm (op_BIN opDIV s)"
| "exec_op opMOD nf p s = next_vm (op_BIN opMOD s)"
| "exec_op opNEG nf p s = next_vm (op_NEG s)"
| "exec_op opBAND nf p s = next_vm (op_BIN opBAND s)"
| "exec_op opBOR nf p s = next_vm (op_BIN opBOR s)"
| "exec_op opBXOR nf p s = next_vm (op_BIN opBXOR s)"
| "exec_op opSHL nf p s = next_vm (op_BIN opSHL s)"
| "exec_op opSHR nf p s = next_vm (op_BIN opSHR s)"
| "exec_op opBNOT nf p s = next_vm (op_BNOT s)"
| "exec_op opEQ nf p s = next_vm (op_BIN opEQ s)"
| "exec_op opNE nf p s = next_vm (op_BIN opNE s)"
| "exec_op opLT nf p s = next_vm (op_BIN opLT s)"
| "exec_op opGT nf p s = next_vm (op_BIN opGT s)"
| "exec_op opLE nf p s = next_vm (op_BIN opLE s)"
| "exec_op opGE nf p s = next_vm (op_BIN opGE s)"
| "exec_op opNOT nf p s = next_vm (op_NOT s)"
| "exec_op opJMP nf p s = next_vm (op_JMP p s)"
| "exec_op opJMPF nf p s = next_vm (op_JMPC False p s)"
| "exec_op opJMPT nf p s = next_vm (op_JMPC True p s)"
| "exec_op opCALL nf p s = next_vm (op_CALL p s)"
| "exec_op opRET nf p s = op_RET s"
| "exec_op opPUSHFN nf p s = next_vm (op_PUSHFN p s)"
| "exec_op opCALLVALUE nf p s = next_vm (op_CALLVALUE p s)"
| "exec_op opCLOSURE nf p s = next_vm (op_CLOSURE p s)"
| "exec_op opPRINT nf p s = next_vm (op_PRINT s)"
| "exec_op opASSERT nf p s = next_vm (op_ASSERT s)"
| "exec_op opPRINTLN nf p s = Ok (Next (print [CHR 0x0A] s))"
| "exec_op opNEWARR nf p s = next_vm (op_NEWARR p s)"
| "exec_op opNEWMAP nf p s = next_vm (op_NEWMAP p s)"
| "exec_op opINDEX nf p s = next_vm (op_INDEX s)"
| "exec_op opSETIDX nf p s = next_vm (op_SETIDX s)"
| "exec_op opLEN nf p s = next_vm (op_LEN s)"
| "exec_op opAPPEND nf p s = next_vm (op_APPEND s)"
| "exec_op opHAS nf p s = next_vm (op_HAS s)"
| "exec_op opKEYS nf p s = next_vm (op_KEYS s)"
| "exec_op opNATIVE nf p s = next_vm (op_NATIVE nf p s)"
| "exec_op opTRYPUSH nf p s = next_vm (op_TRYPUSH p s)"
| "exec_op opTRYPOP nf p s = next_vm (op_TRYPOP s)"
| "exec_op opTHROW nf p s = next_vm (op_THROW s)"
| "exec_op opCOALESCE nf p s = next_vm (op_COALESCE s)"
| "exec_op opUNWRAP nf p s = next_vm (op_UNWRAP s)"
| "exec_op opGETGLOBAL nf p s = next_vm (op_GETGLOBAL p s)"
| "exec_op opSETGLOBAL nf p s = next_vm (op_SETGLOBAL p s)"
| "exec_op opSPAWN nf p s = Fatal (''[Cryo Concurrency] spawn/await need the Go VM '' @ map char_of [0xE2, 0x80, 0x94 :: nat] @
     '' this C VM has no scheduler (roadmap 12.5)'')"
| "exec_op opAWAIT nf p s = Fatal (''[Cryo Concurrency] spawn/await need the Go VM '' @ map char_of [0xE2, 0x80, 0x94 :: nat] @
     '' this C VM has no scheduler (roadmap 12.5)'')"

definition tail_safe :: "opcode \<Rightarrow> bool" where
  \<comment> \<open>the operand-less opcodes the tail check lets pass by name\<close>
  "tail_safe x \<longleftrightarrow> x \<notin> {opCONST, opLOAD, opSTORE, opNEWARR, opNEWMAP, opPUSHFN, opGETGLOBAL, opSETGLOBAL,
     opJMP, opJMPF, opJMPT, opCALL, opNATIVE, opTRYPUSH, opCLOSURE, opCALLVALUE, opSPAWN, opAWAIT}"

definition check_operand :: "program \<Rightarrow> u8 \<Rightarrow> vm \<Rightarrow> unit outcome" where
  "check_operand p b s =
     (let pc = word_of_int (v_pc s) :: 32 word
      in ofail (p_codelen p < pc + 6 \<and>
                (case decode_op b of None \<Rightarrow> True | Some x \<Rightarrow> \<not> tail_safe x) \<and>
                p_codelen p < pc + of_nat (pyro_operand_width b))
           ''malformed .pyro: instruction operand runs past the end of the code'')"

definition step :: "native_fn \<Rightarrow> program \<Rightarrow> vm \<Rightarrow> result outcome" where
  "step nf p s =
     obind (ofail (p_codelen p \<le> word_of_int (v_pc s))
              ''malformed .pyro: execution ran past the end of the code'') (\<lambda>_.
     obind (ofail (65532 < int (length (v_stk s))) ''malformed .pyro: value stack overflow'') (\<lambda>_.
     obind (next8 p s) (\<lambda>(b, s1).
     obind (check_operand p b s1) (\<lambda>_.
     case decode_op b of
       None \<Rightarrow> Fatal ''invalid opcode in bytecode''
     | Some x \<Rightarrow> exec_op x nf p s1))))"

definition start :: "program \<Rightarrow> rt \<Rightarrow> vm outcome" where
  \<comment> \<open>\<open>run_program\<close> up to the loop\<close>
  "start p r =
     (let f = p_funcs p ! unat (p_entryFn p); n = unat (fi_nlocals f)
      in obind (oguard (unat (p_entryFn p) < length (p_funcs p)) FuncRange) (\<lambda>_.
         Ok \<lparr>v_pc = sint (fi_entry f), v_stk = [],
             v_locals = (\<lambda>i. if i < n then VNull else VInt 0),
             v_frames = [\<lparr>fr_retpc = -1, fr_base = 0, fr_nlocals = n, fr_fn = unat (p_entryFn p)\<rparr>],
             v_handlers = [], v_globals = [],
             v_rt = r\<lparr>sandboxed := sandboxed r \<or> p_sandboxed p\<rparr>\<rparr>))"

primrec run :: "nat \<Rightarrow> native_fn \<Rightarrow> program \<Rightarrow> vm \<Rightarrow> vm outcome option" where
  \<comment> \<open>at most \<open>n\<close> instructions; \<open>None\<close> when the program is still running\<close>
  "run 0 nf p s = None"
| "run (Suc n) nf p s = (case step nf p s of
       Ok (Next s') \<Rightarrow> run n nf p s'
     | Ok (Stop s') \<Rightarrow> Some (Ok s')
     | Fatal m \<Rightarrow> Some (Fatal m)
     | UB u \<Rightarrow> Some (UB u)
     | Diverge \<Rightarrow> Some Diverge)"

definition run_program :: "nat \<Rightarrow> native_fn \<Rightarrow> program \<Rightarrow> rt \<Rightarrow> vm outcome option" where
  "run_program n nf p r = (case start p r of
       Ok s \<Rightarrow> run n nf p s
     | Fatal m \<Rightarrow> Some (Fatal m)
     | UB u \<Rightarrow> Some (UB u)
     | Diverge \<Rightarrow> Some Diverge)"

text \<open>The states an execution goes through.\<close>

inductive reachable :: "native_fn \<Rightarrow> program \<Rightarrow> rt \<Rightarrow> vm \<Rightarrow> bool" for nf p r where
  init: "start p r = Ok s \<Longrightarrow> reachable nf p r s"
| step: "reachable nf p r s \<Longrightarrow> step nf p s = Ok (Next s') \<Longrightarrow> reachable nf p r s'"

end
