(* ===== verification/Engine.thy ===== *)
theory Engine
  imports Machine
begin

text \<open>
  What the loader's checks and the guards of the dispatch loop guarantee: in every state an execution
  reaches, whatever the bytecode and whatever the values, the program counter stays in the code
  section, instruction fetch and operand reads stay inside it, the frame stack is never empty, never
  overflows and lays the frames' locals out contiguously, and the handler and value stacks stay below
  their array bounds. \<open>quiet\<close> computations are those of the runtime, which never touch the engine's
  own arrays.
\<close>

section \<open>Computations that leave the engine's arrays alone\<close>

definition quiet :: "'a outcome \<Rightarrow> bool" where
  "quiet m \<longleftrightarrow> m \<noteq> UB CodeRange \<and> m \<noteq> UB FrameRange"

named_theorems quiet_intros \<open>runtime functions never index the engine's arrays\<close>

lemma quiet_simps [simp]:
  "quiet (Ok x)" "quiet (Fatal e)" "quiet Diverge"
  "quiet (UB u) \<longleftrightarrow> u \<noteq> CodeRange \<and> u \<noteq> FrameRange"
  "quiet (ofail b e)"
  "quiet (oguard b u) \<longleftrightarrow> b \<or> u \<noteq> CodeRange \<and> u \<noteq> FrameRange"
  by (auto simp: quiet_def)

lemma quiet_obind [quiet_intros]: "quiet m \<Longrightarrow> (\<And>x. m = Ok x \<Longrightarrow> quiet (f x)) \<Longrightarrow> quiet (obind m f)"
  by (cases m) (auto simp: quiet_def)

lemma quiet_ofold [quiet_intros]: "(\<And>x s. x \<in> set xs \<Longrightarrow> quiet (f x s)) \<Longrightarrow> quiet (ofold f xs s)"
  by (induction xs arbitrary: s) (auto intro!: quiet_obind)

lemma quiet_omap [quiet_intros]: "(\<And>x. x \<in> set xs \<Longrightarrow> quiet (f x)) \<Longrightarrow> quiet (omap f xs)"
  by (induction xs) (auto intro!: quiet_obind)

lemma quiet_if [quiet_intros]: "quiet m \<Longrightarrow> quiet m' \<Longrightarrow> quiet (if b then m else m')"
  by simp

lemma quiet_deref [quiet_intros, simp]: "quiet (deref h a)"
  by (simp add: deref_def split: option.splits)

lemma quiet_deref_kinds [quiet_intros, simp]:
  "quiet (deref_str h a)" "quiet (deref_arr h a)" "quiet (deref_map h a)" "quiet (hset_body h a b)"
  by (auto simp: deref_str_def deref_arr_def deref_map_def hset_body_def intro!: quiet_obind split: body.splits)

lemma quiet_incref [quiet_intros, simp]: "quiet (incref a h)"
  by (auto simp: incref_def intro!: quiet_obind)

lemma quiet_retain_value [quiet_intros, simp]: "quiet (retain_value v h)"
  by (auto simp: retain_value_def split: option.splits)

lemma quiet_release_fuel: "quiet (release_fuel n v h)"
proof (induction n arbitrary: v h)
  case (Suc n)
  then show ?case
    by (auto simp: Let_def intro!: quiet_obind quiet_ofold split: option.splits)
qed (simp split: option.splits)

lemma quiet_release_value [quiet_intros, simp]: "quiet (release_value v h)"
  by (simp add: release_value_def quiet_release_fuel)

lemma quiet_as_i [quiet_intros, simp]: "quiet (as_i v)"
  by (simp add: as_i_def split: val.splits option.splits)

lemma quiet_to_str_fuel: "quiet (to_str_fuel n h v)"
proof (induction n arbitrary: v)
  case (Suc n)
  then show ?case
    by (auto intro!: quiet_obind quiet_omap split: val.splits)
qed simp

lemma quiet_value_to_string [quiet_intros, simp]: "quiet (value_to_string h v)"
  unfolding value_to_string_def by (rule quiet_to_str_fuel)

lemma quiet_value_as_float [quiet_intros, simp]: "quiet (value_as_float v)"
  by (auto simp: value_as_float_def intro!: quiet_obind split: val.splits)

lemma quiet_value_eq [quiet_intros, simp]: "quiet (value_eq h a b)"
  by (cases a; cases b) (auto simp: value_eq_def is_str_def is_float_def is_bool_def intro!: quiet_obind)

lemma quiet_value_truthy [quiet_intros, simp]: "quiet (value_truthy h v)" "quiet (value_length h v)"
  by (auto simp: value_truthy_def value_length_def intro!: quiet_obind split: val.splits)

lemma quiet_hash_value [quiet_intros, simp]: "quiet (hash_value h v)"
  by (auto simp: hash_value_def intro!: quiet_obind split: val.splits)

lemma quiet_tbl_index [quiet_intros]: "(\<And>k. quiet (hash k)) \<Longrightarrow> quiet (tbl_index hash bs k)"
  by (auto simp: tbl_index_def intro!: quiet_obind)

lemma quiet_buckets [quiet_intros]:
  assumes "\<And>x y. quiet (eq x y)"
  shows "quiet (bucket_lookup eq k b)" "quiet (bucket_put eq k v b)" "quiet (bucket_del eq k b)"
  using assms by (induction b) (auto intro!: quiet_obind)

lemma quiet_tables [quiet_intros]:
  assumes "\<And>x y. quiet (eq x y)" "\<And>k. quiet (hash k)"
  shows "quiet (tbl_lookup eq hash bs k)" "quiet (tbl_put eq hash bs k v)" "quiet (tbl_del eq hash bs k)"
    "quiet (tbl_push hash kv bs)" "quiet (tbl_resize hash bs)"
  using assms
  by (auto simp: tbl_lookup_def tbl_put_def tbl_del_def tbl_push_def tbl_resize_def intro!: quiet_intros)

lemma quiet_maps [quiet_intros, simp]:
  "quiet (rc_map_resize a h)" "quiet (rc_map_get a k h)" "quiet (rc_map_has a k h)" "quiet (rc_map_put a k v h)"
  by (auto simp: rc_map_resize_def rc_map_get_def rc_map_has_def rc_map_put_def intro!: quiet_intros
      split: option.splits)

lemma quiet_rc_map_set [quiet_intros, simp]: "quiet (rc_map_set a k v h)"
  by (auto simp: rc_map_set_def intro!: quiet_intros)

lemma quiet_arrays [quiet_intros, simp]:
  "quiet (rc_array_push a v h)" "quiet (rc_array_get a i h)" "quiet (rc_array_set a i v h)"
  by (auto simp: rc_array_push_def rc_array_get_def rc_array_set_def Let_def intro!: quiet_intros)

lemma quiet_index [quiet_intros, simp]: "quiet (index_get c k h)" "quiet (index_set c k v h)"
  by (auto simp: index_get_def index_set_def intro!: quiet_intros split: val.splits)

lemma quiet_keys [quiet_intros, simp]: "quiet (rc_map_keys_sorted a h)"
  by (auto simp: rc_map_keys_sorted_def intro!: quiet_intros split: prod.splits)

lemma quiet_c_i64 [quiet_intros, simp]: "quiet (c_i64 i)"
  by (simp add: c_i64_def)

lemma quiet_c_ops [quiet_intros, simp]:
  "quiet (c_div x y)" "quiet (c_mod x y)" "quiet (c_shl x y)" "quiet (c_shr x y)" "quiet (ovf_result r t)"
  by (auto simp: c_div_def c_mod_def c_shl_def c_shr_def ovf_result_def intro!: quiet_obind split: option.splits)

lemma quiet_int_op [quiet_intros, simp]: "quiet (int_op x i j)"
  unfolding int_op_def by (intro quiet_intros quiet_simps)

lemma quiet_str_concat [quiet_intros, simp]: "quiet (str_concat a b h)"
  by (simp add: str_concat_def quiet_obind)

lemma quiet_case_option: "(m = None \<Longrightarrow> quiet f) \<Longrightarrow> (\<And>x. m = Some x \<Longrightarrow> quiet (g x)) \<Longrightarrow>
    quiet (case m of None \<Rightarrow> f | Some x \<Rightarrow> g x)"
  by (simp split: option.split)

lemma quiet_bin_op [quiet_intros, simp]: "quiet (bin_op x a b h)"
  unfolding bin_op_def by (intro quiet_intros quiet_simps quiet_case_option)

section \<open>Well-formed programs and control states\<close>

definition prog_ok :: "program \<Rightarrow> bool" where
  \<comment> \<open>what the loader has checked\<close>
  "prog_ok p \<longleftrightarrow>
     uint (p_codelen p) = int (length (p_code p)) \<and> int (length (p_code p)) < 2 ^ 31 \<and>
     unat (p_entryFn p) < length (p_funcs p) \<and>
     list_all (\<lambda>f. fi_entry f \<le> p_codelen p) (p_funcs p)"

definition frame_size_ok :: "program \<Rightarrow> frame \<Rightarrow> bool" where
  "frame_size_ok p f \<longleftrightarrow> fr_fn f < length (p_funcs p) \<and> fr_nlocals f = unat (fi_nlocals (p_funcs p ! fr_fn f))"

fun frames_ok :: "program \<Rightarrow> frame list \<Rightarrow> bool" where
  "frames_ok p [] = False"
| "frames_ok p [f] = (fr_retpc f = -1 \<and> fr_base f = 0 \<and> frame_size_ok p f)"
| "frames_ok p (f # g # fs) =
     (0 \<le> fr_retpc f \<and> fr_retpc f \<le> uint (p_codelen p) \<and> fr_base f = fr_base g + fr_nlocals g \<and>
      fr_base f + fr_nlocals f \<le> 65534 \<and> frame_size_ok p f \<and> frames_ok p (g # fs))"

definition handler_ok :: "program \<Rightarrow> handler \<Rightarrow> bool" where
  "handler_ok p h \<longleftrightarrow> 0 \<le> h_catch h \<and> h_catch h \<le> uint (p_codelen p) \<and> 1 \<le> h_fp h"

definition pc_ok :: "program \<Rightarrow> vm \<Rightarrow> bool" where
  "pc_ok p s \<longleftrightarrow> 0 \<le> v_pc s \<and> v_pc s \<le> uint (p_codelen p)"

definition ctl_ok :: "program \<Rightarrow> vm \<Rightarrow> bool" where
  "ctl_ok p s \<longleftrightarrow> pc_ok p s \<and> frames_ok p (v_frames s) \<and> length (v_frames s) \<le> 4095 \<and>
     list_all (handler_ok p) (v_handlers s) \<and> length (v_handlers s) \<le> 4095"

section \<open>What each helper leaves unchanged\<close>

definition same :: "vm \<Rightarrow> vm \<Rightarrow> bool" where
  "same s s' \<longleftrightarrow> v_pc s' = v_pc s \<and> v_frames s' = v_frames s \<and> v_handlers s' = v_handlers s \<and> v_stk s' = v_stk s"

lemma same_refl [simp]: "same s s"
  by (simp add: same_def)

lemma same_trans: "same s s' \<Longrightarrow> same s' s'' \<Longrightarrow> same s s''"
  by (simp add: same_def)

lemma sameD: "same s s' \<Longrightarrow> v_pc s' = v_pc s \<and> v_frames s' = v_frames s \<and> v_handlers s' = v_handlers s \<and> v_stk s' = v_stk s"
  by (simp add: same_def)

lemma same_on_heap: "on_heap f s = Ok s' \<Longrightarrow> same s s'"
  by (auto simp: on_heap_def outcome_simps same_def)

lemma same_on_heap_val: "on_heap_val f s = Ok (v, s') \<Longrightarrow> same s s'"
  by (auto simp: on_heap_val_def outcome_simps same_def)

lemma same_release: "release v s = Ok s' \<Longrightarrow> same s s'"
  unfolding release_def by (rule same_on_heap)

lemma same_retain: "retain v s = Ok s' \<Longrightarrow> same s s'"
  unfolding retain_def by (rule same_on_heap)

lemma same_set_local: "set_local i v s = Ok s' \<Longrightarrow> same s s'"
  by (auto simp: set_local_def outcome_simps same_def)

lemma same_ofold:
  assumes "\<And>x s s'. f x s = Ok s' \<Longrightarrow> same s s'" "ofold f xs s = Ok s'"
  shows "same s s'"
  by (rule ofold_invariant [OF assms(2), of "same s"]) (auto intro: same_trans assms(1))

lemma same_set_locals: "set_locals b vs s = Ok s' \<Longrightarrow> same s s'"
  unfolding set_locals_def by (rule same_ofold) (auto intro: same_set_local)

lemma same_null_locals: "null_locals b n s = Ok s' \<Longrightarrow> same s s'"
  by (auto simp: null_locals_def outcome_simps same_def)

lemma same_release_locals: "release_locals f s = Ok s' \<Longrightarrow> same s s'"
  unfolding release_locals_def by (rule same_ofold) (auto simp: outcome_simps dest: same_release)

lemmas same_rules = same_on_heap same_on_heap_val same_release same_retain same_set_local same_set_locals
  same_null_locals same_release_locals

lemmas same_dests = same_rules [THEN sameD]

lemma same_release_all: "ofold release vs s = Ok s' \<Longrightarrow> same s s'"
  by (rule same_ofold [OF same_release])

lemma same_push_release:
  "ofold (\<lambda>v s. obind (on_heap (f v) s) (release v)) vs s = Ok s' \<Longrightarrow> same s s'"
  by (erule same_ofold [rotated]) (auto simp: outcome_simps intro: same_trans same_on_heap same_release)

lemma same_set_release:
  "ofold (\<lambda>(k, v) s. obind (on_heap (f k v) s) (\<lambda>s'. obind (release k s') (release v))) vs s = Ok s' \<Longrightarrow> same s s'"
  by (erule same_ofold [rotated], auto simp: outcome_simps dest!: same_on_heap same_release) (meson same_trans)

lemma same_on_heap_all: "ofold (\<lambda>v. on_heap (f v)) vs s = Ok s' \<Longrightarrow> same s s'"
  by (rule same_ofold [OF same_on_heap])

lemma same_captures:
  "ofold (\<lambda>(i, c) s. obind (retain c s) (set_local (b + i) c)) ics s = Ok s' \<Longrightarrow> same s s'"
  by (erule same_ofold [rotated]) (auto simp: outcome_simps dest!: same_retain same_set_local intro: same_trans)

lemmas same_loops = same_release_all same_push_release same_set_release same_on_heap_all same_captures

lemmas loop_dests = same_loops [THEN sameD]

lemma pop_Ok: "pop s = Ok (v, s') \<longleftrightarrow> v_stk s \<noteq> [] \<and> v = hd (v_stk s) \<and> s' = s\<lparr>v_stk := tl (v_stk s)\<rparr>"
  by (auto simp: pop_def split: list.splits)

lemma popn_Ok: "popn n s = Ok (vs, s') \<longleftrightarrow>
    n \<le> length (v_stk s) \<and> vs = rev (take n (v_stk s)) \<and> s' = s\<lparr>v_stk := drop n (v_stk s)\<rparr>"
  by (auto simp: popn_def outcome_simps)

lemma top_slot_Ok: "top_slot s = Ok (v, f) \<longleftrightarrow>
    v_stk s \<noteq> [] \<and> v = hd (v_stk s) \<and> f = (\<lambda>w s. s\<lparr>v_stk := w # tl (v_stk s)\<rparr>)"
  by (auto simp: top_slot_def split: list.splits)

lemma top_frame_Ok: "top_frame s = Ok f \<longleftrightarrow> (\<exists>fs. v_frames s = f # fs)"
  by (auto simp: top_frame_def split: list.splits)

lemma push_simps [simp]:
  "v_pc (push v s) = v_pc s" "v_frames (push v s) = v_frames s" "v_handlers (push v s) = v_handlers s"
  "v_stk (push v s) = v # v_stk s"
  by (simp_all add: push_def)

lemma print_simps [simp]:
  "v_pc (print t s) = v_pc s" "v_frames (print t s) = v_frames s" "v_handlers (print t s) = v_handlers s"
  "v_stk (print t s) = v_stk s"
  by (simp_all add: print_def)

text \<open>Operand reads advance the program counter and stay in the code.\<close>

definition advanced :: "program \<Rightarrow> int \<Rightarrow> vm \<Rightarrow> vm \<Rightarrow> bool" where
  "advanced p n s s' \<longleftrightarrow> v_pc s' = v_pc s + n \<and> v_pc s' \<le> int (length (p_code p)) \<and>
     v_frames s' = v_frames s \<and> v_handlers s' = v_handlers s \<and> v_stk s' = v_stk s \<and> v_rt s' = v_rt s"

lemma advanced_next8: "next8 p s = Ok (b, s') \<Longrightarrow> advanced p 1 s s'"
  by (auto simp: next8_def outcome_simps fetch_Ok_iff advanced_def)

lemma advanced_next16: "next16 p s = Ok (n, s') \<Longrightarrow> advanced p 2 s s'"
  by (auto simp: next16_def read_u16_def outcome_simps fetch_Ok_iff advanced_def)

lemma advanced_next_i32: "next_i32 p s = Ok (i, s') \<Longrightarrow> advanced p 4 s s'"
  by (auto simp: next_i32_def read_i32_def read_u32_def outcome_simps fetch_Ok_iff advanced_def)

lemma advancedD: "advanced p n s s' \<Longrightarrow> v_pc s' = v_pc s + n \<and> v_pc s' \<le> int (length (p_code p)) \<and>
     v_frames s' = v_frames s \<and> v_handlers s' = v_handlers s \<and> v_stk s' = v_stk s"
  by (simp add: advanced_def)

lemmas operand_dests = advanced_next8 [THEN advancedD] advanced_next16 [THEN advancedD] advanced_next_i32 [THEN advancedD]

lemma jump_target_ok: "pyro_jump_to pc rel (p_codelen p) = Ok d \<Longrightarrow> prog_ok p \<Longrightarrow> 0 \<le> d \<and> d \<le> uint (p_codelen p)"
  using pyro_jump_to_Ok(1,2) [of pc rel "p_codelen p" d] by (simp add: prog_ok_def)

lemma jump_Ok: "jump p rel s = Ok s' \<Longrightarrow> prog_ok p \<Longrightarrow> pc_ok p s' \<and> v_frames s' = v_frames s \<and>
    v_handlers s' = v_handlers s \<and> v_stk s' = v_stk s"
  by (auto simp: jump_def outcome_simps pc_ok_def dest: jump_target_ok)

section \<open>Every instruction keeps the control state well formed\<close>

definition keeps :: "program \<Rightarrow> vm \<Rightarrow> vm \<Rightarrow> bool" where
  "keeps p s s' \<longleftrightarrow> ctl_ok p s' \<and> length (v_stk s') \<le> Suc (length (v_stk s))"

lemma keepsI:
  "ctl_ok p s \<Longrightarrow> pc_ok p s' \<Longrightarrow> v_frames s' = v_frames s \<Longrightarrow> v_handlers s' = v_handlers s \<Longrightarrow>
     length (v_stk s') \<le> Suc (length (v_stk s)) \<Longrightarrow> keeps p s s'"
  by (simp add: keeps_def ctl_ok_def)

lemma pc_ok_same: "ctl_ok p s \<Longrightarrow> v_pc s' = v_pc s \<Longrightarrow> pc_ok p s'"
  by (simp add: ctl_ok_def pc_ok_def)

lemma pc_ok_advanced: "prog_ok p \<Longrightarrow> ctl_ok p s \<Longrightarrow> v_pc s \<le> v_pc s' \<Longrightarrow> v_pc s' \<le> int (length (p_code p)) \<Longrightarrow> pc_ok p s'"
  by (simp add: ctl_ok_def pc_ok_def prog_ok_def)

lemmas op_simps = outcome_simps pop_Ok popn_Ok top_slot_Ok top_frame_Ok Let_def

lemma keeps_plain:
  assumes "ctl_ok p s"
  shows
    "op_POP s = Ok s' \<Longrightarrow> keeps p s s'"
    "op_BIN x s = Ok s' \<Longrightarrow> keeps p s s'"
    "op_NOT s = Ok s' \<Longrightarrow> keeps p s s'"
    "op_BNOT s = Ok s' \<Longrightarrow> keeps p s s'"
    "op_COALESCE s = Ok s' \<Longrightarrow> keeps p s s'"
    "op_PRINT s = Ok s' \<Longrightarrow> keeps p s s'"
    "op_INDEX s = Ok s' \<Longrightarrow> keeps p s s'"
    "op_SETIDX s = Ok s' \<Longrightarrow> keeps p s s'"
    "op_LEN s = Ok s' \<Longrightarrow> keeps p s s'"
    "op_HAS s = Ok s' \<Longrightarrow> keeps p s s'"
  using assms
  by (auto simp: op_POP_def op_BIN_def op_NOT_def op_BNOT_def op_COALESCE_def op_PRINT_def op_INDEX_def
      op_SETIDX_def op_LEN_def op_HAS_def op_simps dest!: same_dests intro!: keepsI intro: pc_ok_same split: if_splits)

lemma keeps_NEG: "ctl_ok p s \<Longrightarrow> op_NEG s = Ok s' \<Longrightarrow> keeps p s s'"
  by (auto simp: op_NEG_def op_simps split: val.splits intro!: keepsI intro: pc_ok_same)

lemma keeps_APPEND: "ctl_ok p s \<Longrightarrow> op_APPEND s = Ok s' \<Longrightarrow> keeps p s s'"
  by (auto simp: op_APPEND_def op_simps split: val.splits dest!: same_dests intro!: keepsI intro: pc_ok_same)

lemma keeps_KEYS: "ctl_ok p s \<Longrightarrow> op_KEYS s = Ok s' \<Longrightarrow> keeps p s s'"
  by (auto simp: op_KEYS_def op_simps split: val.splits dest!: same_dests intro!: keepsI intro: pc_ok_same)

lemma keeps_TRYPOP: "ctl_ok p s \<Longrightarrow> op_TRYPOP s = Ok s' \<Longrightarrow> keeps p s s'"
  by (cases "v_handlers s") (auto simp: op_TRYPOP_def keeps_def ctl_ok_def pc_ok_def)

lemma keeps_operand:
  assumes "prog_ok p" "ctl_ok p s"
  shows
    "op_CONST p s = Ok s' \<Longrightarrow> keeps p s s'"
    "op_LOAD p s = Ok s' \<Longrightarrow> keeps p s s'"
    "op_STORE p s = Ok s' \<Longrightarrow> keeps p s s'"
    "op_GETGLOBAL p s = Ok s' \<Longrightarrow> keeps p s s'"
    "op_SETGLOBAL p s = Ok s' \<Longrightarrow> keeps p s s'"
    "op_PUSHFN p s = Ok s' \<Longrightarrow> keeps p s s'"
  using assms
  by (auto simp: op_CONST_def op_LOAD_def op_STORE_def op_GETGLOBAL_def op_SETGLOBAL_def op_PUSHFN_def op_simps
      dest!: same_dests operand_dests intro!: keepsI intro: pc_ok_advanced)

lemma keeps_containers:
  assumes "prog_ok p" "ctl_ok p s"
  shows
    "op_NEWARR p s = Ok s' \<Longrightarrow> keeps p s s'"
    "op_NEWMAP p s = Ok s' \<Longrightarrow> keeps p s s'"
    "op_CLOSURE p s = Ok s' \<Longrightarrow> keeps p s s'"
    "op_NATIVE nf p s = Ok s' \<Longrightarrow> keeps p s s'"
  using assms
  by (auto simp: op_NEWARR_def op_NEWMAP_def op_CLOSURE_def op_NATIVE_def op_simps
      dest!: same_dests loop_dests operand_dests intro!: keepsI intro: pc_ok_advanced)

lemma keeps_JMP:
  assumes "prog_ok p" "ctl_ok p s" "op_JMP p s = Ok s'" shows "keeps p s s'"
proof -
  from assms(3) obtain rel s1 where s1: "next_i32 p s = Ok (rel, s1)" "jump p rel s1 = Ok s'"
    by (auto simp: op_JMP_def op_simps)
  with operand_dests(3) [OF s1(1)] jump_Ok [OF s1(2) assms(1)] assms(2) show ?thesis
    by (intro keepsI) auto
qed

lemma keeps_JMPC:
  assumes "prog_ok p" "ctl_ok p s" "op_JMPC b p s = Ok s'" shows "keeps p s s'"
proof -
  from assms(3) obtain rel s1 a s2 t s3 where s1: "next_i32 p s = Ok (rel, s1)" "pop s1 = Ok (a, s2)"
      "release a s2 = Ok s3" "(if t = b then jump p rel s3 else Ok s3) = Ok s'"
    by (auto simp only: op_JMPC_def outcome_simps split_paired_all prod.case)
  have s3: "v_pc s3 = v_pc s + 4" "v_pc s3 \<le> int (length (p_code p))" "v_frames s3 = v_frames s"
      "v_handlers s3 = v_handlers s" "length (v_stk s3) \<le> length (v_stk s)"
    using operand_dests(3) [OF s1(1)] s1(2) same_release [OF s1(3)] by (auto simp: pop_Ok same_def)
  show ?thesis
  proof (cases "t = b")
    case True
    with s1(4) have "jump p rel s3 = Ok s'" by simp
    from jump_Ok [OF this assms(1)] s3 assms(2) show ?thesis by (intro keepsI) auto
  next
    case False
    with s1(4) s3 assms show ?thesis by (intro keepsI) (auto intro: pc_ok_advanced)
  qed
qed

lemma keeps_TRYPUSH:
  assumes "prog_ok p" "ctl_ok p s" "op_TRYPUSH p s = Ok s'"
  shows "keeps p s s'"
proof -
  have "1 \<le> length (v_frames s)" using assms(2) by (cases "v_frames s") (auto simp: ctl_ok_def)
  moreover from assms(3) obtain rel s1 slot s2 d where s2: "next_i32 p s = Ok (rel, s1)"
      "next16 p s1 = Ok (slot, s2)" "pyro_jump_to (v_pc s2) rel (p_codelen p) = Ok d"
      "\<not> 4094 < length (v_handlers s2)"
      "s' = s2\<lparr>v_handlers := \<lparr>h_catch = d, h_sp = length (v_stk s2), h_fp = length (v_frames s2),
              h_slot = of_nat slot\<rparr> # v_handlers s2\<rparr>"
    by (auto simp: op_TRYPUSH_def outcome_simps)
  moreover have "pc_ok p s2"
    using operand_dests(3) [OF s2(1)] operand_dests(2) [OF s2(2)] assms(1,2) by (intro pc_ok_advanced [of p s]) auto
  ultimately show ?thesis
    using assms(2) operand_dests(3) [OF s2(1)] operand_dests(2) [OF s2(2)] jump_target_ok [OF s2(3) assms(1)]
    by (simp add: keeps_def ctl_ok_def handler_ok_def pc_ok_def)
qed

text \<open>Calls push a frame that continues the locals of the one below.\<close>

lemma entry_in_code: "prog_ok p \<Longrightarrow> fi < length (p_funcs p) \<Longrightarrow>
    0 \<le> sint (fi_entry (p_funcs p ! fi)) \<and> sint (fi_entry (p_funcs p ! fi)) \<le> uint (p_codelen p)"
proof -
  assume p: "prog_ok p" "fi < length (p_funcs p)"
  let ?e = "fi_entry (p_funcs p ! fi)"
  from p have "?e \<le> p_codelen p" by (auto simp: prog_ok_def list_all_length)
  then have le: "uint ?e \<le> uint (p_codelen p)" by (simp add: word_le_def)
  with p(1) have "uint ?e < 2 ^ 31" by (simp add: prog_ok_def)
  then have "signed_take_bit 31 (uint ?e) = uint ?e"
  proof (intro signed_take_bit_int_eq_self)
    show "- (2 ^ 31) \<le> uint ?e" by (rule order_trans [OF _ uint_ge_0]) simp
  qed
  then have "sint ?e = uint ?e" by (simp add: sint_uint)
  with le show ?thesis by simp
qed

lemma enter_frame_ok:
  assumes p: "prog_ok p" and s: "ctl_ok p s" "v_frames s = fr # frs" and f: "fi < length (p_funcs p)" "f = p_funcs p ! fi"
    and base: "base = fr_base fr + fr_nlocals fr" and lim: "locals_limit base f = Ok ()"
    and run: "enter_frame fi f base s = Ok s'"
  shows "ctl_ok p s' \<and> v_stk s' = v_stk s"
proof -
  have "int base + uint (fi_nlocals f) \<le> 65534" using lim by (simp add: locals_limit_def)
  then have lim': "base + unat (fi_nlocals f) \<le> 65534" unfolding uint_nat by linarith
  from run have s': "length (v_frames s) \<le> 4094"
      "v_frames s' = \<lparr>fr_retpc = v_pc s, fr_base = base, fr_nlocals = unat (fi_nlocals f), fr_fn = fi\<rparr> # fr # frs"
      "v_pc s' = sint (fi_entry f)" "v_handlers s' = v_handlers s" "v_stk s' = v_stk s"
    by (auto simp: enter_frame_def outcome_simps s(2))
  have "frames_ok p (v_frames s')"
    using s f lim' base unfolding s'(2) by (simp add: ctl_ok_def pc_ok_def frame_size_ok_def)
  moreover have "pc_ok p s'"
    using entry_in_code [OF p f(1)] by (simp add: pc_ok_def s'(3) f(2))
  moreover have "length (v_frames s') \<le> 4095" using s'(1) s(2) by (simp add: s'(2))
  ultimately show ?thesis using s(1) s'(4,5) by (simp add: ctl_ok_def)
qed

lemma ctl_ok_same:
  "ctl_ok p s \<Longrightarrow> pc_ok p s' \<Longrightarrow> v_frames s' = v_frames s \<Longrightarrow> v_handlers s' = v_handlers s \<Longrightarrow> ctl_ok p s'"
  by (simp add: ctl_ok_def)

lemma keeps_CALL:
  assumes p: "prog_ok p" and s: "ctl_ok p s" and run: "op_CALL p s = Ok s'"
  shows "keeps p s s'"
proof -
  from run obtain fi s1 argc s2 fr u s3 args s4 s5 where
      r1: "next16 p s = Ok (fi, s1)" "next8 p s1 = Ok (argc, s2)" "fi < length (p_funcs p)"
        "top_frame s2 = Ok fr" and
      r2: "locals_limit (fr_base fr + fr_nlocals fr) (p_funcs p ! fi) = Ok u"
        "null_locals (fr_base fr + fr_nlocals fr) (unat (fi_nlocals (p_funcs p ! fi))) s2 = Ok s3"
        "popn (unat argc) s3 = Ok (args, s4)" "set_locals (fr_base fr + fr_nlocals fr) args s4 = Ok s5"
        "enter_frame fi (p_funcs p ! fi) (fr_base fr + fr_nlocals fr) s5 = Ok s'"
    by (auto simp: op_CALL_def outcome_simps Let_def)
  obtain frs where frs: "v_frames s2 = fr # frs" using r1(4) by (auto simp: top_frame_Ok)
  have s5: "v_pc s5 = v_pc s + 3" "v_pc s5 \<le> int (length (p_code p))" "v_frames s5 = v_frames s"
      "v_handlers s5 = v_handlers s" "length (v_stk s5) \<le> length (v_stk s)" "v_frames s5 = fr # frs"
    using operand_dests(2) [OF r1(1)] operand_dests(1) [OF r1(2)] same_null_locals [OF r2(2)]
      same_set_locals [OF r2(4)] r2(3) frs by (auto simp: popn_Ok same_def)
  have "ctl_ok p s5" by (rule ctl_ok_same [OF s pc_ok_advanced [OF p s _ s5(2)] s5(3,4)]) (simp add: s5(1))
  from enter_frame_ok [OF p this s5(6) r1(3) refl refl _ r2(5)] r2(1) s5(5) show ?thesis
    by (simp add: keeps_def)
qed

lemma keeps_CALLVALUE:
  assumes p: "prog_ok p" and s: "ctl_ok p s" and run: "op_CALLVALUE p s = Ok s'"
  shows "keeps p s s'"
proof -
  from run obtain argc s1 vs s2 where
      r: "next8 p s = Ok (argc, s1)" "popn (Suc (unat argc)) s1 = Ok (vs, s2)"
    by (auto simp: op_CALLVALUE_def obind_Ok_iff)
  with run obtain fi cap where "hd vs = VFunc fi cap"
    by (cases "hd vs") (simp_all add: op_CALLVALUE_def Let_def)
  with r have r0: "next8 p s = Ok (argc, s1)" "popn (Suc (unat argc)) s1 = Ok (vs, s2)" "hd vs = VFunc fi cap"
    by simp_all
  with run obtain fr u s3 cs s4 s5 s6 where
      r1: "sint fi < int (length (p_funcs p))" "0 \<le> sint fi" "top_frame s2 = Ok fr" and
      r2: "locals_limit (fr_base fr + fr_nlocals fr) (p_funcs p ! nat (sint fi)) = Ok u"
        "null_locals (fr_base fr + fr_nlocals fr) (unat (fi_nlocals (p_funcs p ! nat (sint fi)))) s2 = Ok s3"
        "ofold (\<lambda>(i, c) s. obind (retain c s) (set_local (fr_base fr + fr_nlocals fr + i) c)) (enumerate 0 cs) s3 = Ok s4"
        "set_locals (fr_base fr + fr_nlocals fr + length cs) (tl vs) s4 = Ok s5" "release (hd vs) s5 = Ok s6"
        "enter_frame (nat (sint fi)) (p_funcs p ! nat (sint fi)) (fr_base fr + fr_nlocals fr) s6 = Ok s'"
    by (auto simp: op_CALLVALUE_def outcome_simps Let_def)
  obtain frs where frs: "v_frames s2 = fr # frs" using r1(3) by (auto simp: top_frame_Ok)
  have s6: "v_pc s6 = v_pc s + 1" "v_pc s6 \<le> int (length (p_code p))" "v_frames s6 = v_frames s"
      "v_handlers s6 = v_handlers s" "length (v_stk s6) \<le> length (v_stk s)" "v_frames s6 = fr # frs"
    using operand_dests(1) [OF r0(1)] r0(2) same_null_locals [OF r2(2)] same_captures [OF r2(3)]
      same_set_locals [OF r2(4)] same_release [OF r2(5)] frs by (auto simp: popn_Ok same_def)
  have fi: "nat (sint fi) < length (p_funcs p)" using r1(1,2) by linarith
  have "ctl_ok p s6" by (rule ctl_ok_same [OF s pc_ok_advanced [OF p s _ s6(2)] s6(3,4)]) (simp add: s6(1))
  from enter_frame_ok [OF p this s6(6) fi refl refl _ r2(6)] r2(1) s6(5) show ?thesis
    by (simp add: keeps_def)
qed

lemma frames_ok_tl: "frames_ok p (f # fs) \<Longrightarrow> 0 \<le> fr_retpc f \<Longrightarrow> frames_ok p fs \<and> fr_retpc f \<le> uint (p_codelen p)"
  by (cases fs) auto

lemma keeps_RET:
  assumes s: "ctl_ok p s" and run: "op_RET s = Ok (Next s')"
  shows "keeps p s s'"
proof -
  from run obtain ret s1 where r0: "pop s = Ok (ret, s1)"
    by (auto simp: op_RET_def obind_Ok_iff)
  with run obtain f fs where r1: "v_frames s1 = f # fs"
    by (cases "v_frames s1") (simp_all add: op_RET_def)
  with run r0 obtain s2 where
      r: "pop s = Ok (ret, s1)" "v_frames s1 = f # fs" "release_locals f (s1\<lparr>v_frames := fs\<rparr>) = Ok s2"
        "0 \<le> fr_retpc f" "s' = push ret (s2\<lparr>v_pc := fr_retpc f\<rparr>)"
    by (auto simp: op_RET_def outcome_simps not_less split: if_splits)
  have "v_frames s = f # fs" "v_frames s2 = fs" "v_handlers s2 = v_handlers s" "length (v_stk s2) \<le> length (v_stk s)"
    using r(1,2) same_release_locals [OF r(3)] by (auto simp: pop_Ok same_def)
  moreover from this s have "frames_ok p (f # fs)" by (simp add: ctl_ok_def)
  then have "frames_ok p fs" "fr_retpc f \<le> uint (p_codelen p)"
    using r(4) frames_ok_tl by blast+
  ultimately show ?thesis using s r(4,5) by (simp add: keeps_def ctl_ok_def pc_ok_def)
qed

text \<open>Unwinding leaves a suffix of the frames, and never the empty one.\<close>

lemma unwind_stack_Ok:
  "unwind_stack n vs s = Ok s' \<Longrightarrow> v_stk s' = drop (length vs - n) vs \<and> v_pc s' = v_pc s \<and>
     v_frames s' = v_frames s \<and> v_handlers s' = v_handlers s"
proof (induction n vs s arbitrary: s' rule: unwind_stack.induct)
  case (2 n v vs s)
  show ?case
  proof (cases "n < length (v # vs)")
    case True
    with "2.prems" obtain s1 where s1: "release v (s\<lparr>v_stk := vs\<rparr>) = Ok s1" "unwind_stack n vs s1 = Ok s'"
      by (auto simp: outcome_simps)
    have "length (v # vs) - n = Suc (length vs - n)" using True by (simp add: Suc_diff_le)
    with "2.IH" [OF True s1(1,2)] same_release [OF s1(1)] show ?thesis by (simp add: same_def)
  next
    case False
    with "2.prems" show ?thesis by auto
  qed
qed auto

lemma unwind_frames_Ok:
  "unwind_frames n fs s = Ok s' \<Longrightarrow> v_frames s' = drop (length fs - n) fs \<and> v_pc s' = v_pc s \<and>
     v_stk s' = v_stk s \<and> v_handlers s' = v_handlers s"
proof (induction n fs s arbitrary: s' rule: unwind_frames.induct)
  case (2 n f fs s)
  show ?case
  proof (cases "n < length (f # fs)")
    case True
    with "2.prems" obtain s1 where s1: "release_locals f (s\<lparr>v_frames := fs\<rparr>) = Ok s1" "unwind_frames n fs s1 = Ok s'"
      by (auto simp: outcome_simps)
    have "length (f # fs) - n = Suc (length fs - n)" using True by (simp add: Suc_diff_le)
    with "2.IH" [OF True s1(1,2)] same_release_locals [OF s1(1)] show ?thesis by (simp add: same_def)
  next
    case False
    with "2.prems" show ?thesis by auto
  qed
qed auto

lemma frames_ok_drop: "frames_ok p fs \<Longrightarrow> i < length fs \<Longrightarrow> frames_ok p (drop i fs)"
proof (induction fs arbitrary: i)
  case (Cons f fs)
  show ?case
  proof (cases i)
    case (Suc j)
    with Cons.prems(2) have "j < length fs" by simp
    moreover then have "frames_ok p fs" using Cons.prems(1) by (cases fs) auto
    ultimately show ?thesis using Cons.IH Suc by simp
  qed (use Cons.prems in simp)
qed simp

lemma raise_exception_ok:
  assumes s: "ctl_ok p s" and run: "raise_exception v s = Ok (caught, s')"
  shows "ctl_ok p s'" "length (v_stk s') \<le> length (v_stk s)"
    and "caught \<longleftrightarrow> v_handlers s \<noteq> []" "\<not> caught \<Longrightarrow> s' = s"
    and "v_handlers s = h # hs \<Longrightarrow>
      v_pc s' = h_catch h \<and> v_handlers s' = hs \<and>
      v_stk s' = drop (length (v_stk s) - h_sp h) (v_stk s) \<and>
      v_frames s' = drop (length (v_frames s) - h_fp h) (v_frames s)"
proof -
  have all: "ctl_ok p s' \<and> length (v_stk s') \<le> length (v_stk s) \<and> caught \<and>
      v_pc s' = h_catch h \<and> v_handlers s' = hs \<and>
      v_stk s' = drop (length (v_stk s) - h_sp h) (v_stk s) \<and>
      v_frames s' = drop (length (v_frames s) - h_fp h) (v_frames s)"
    if h: "v_handlers s = h # hs" for h hs
  proof -
    from run h obtain s1 s2 s4 where
        r: "unwind_stack (h_sp h) (v_stk s) (s\<lparr>v_handlers := hs\<rparr>) = Ok s1"
          "unwind_frames (h_fp h) (v_frames s1) s1 = Ok s2" "s' = s4\<lparr>v_pc := h_catch h\<rparr>" "caught" and
        r4: "(if h_slot h \<noteq> 0xFFFF
                 then obind (top_frame s2) (\<lambda>f.
                      let i = fr_base f + unat (h_slot h)
                      in obind (get_local i s2) (\<lambda>old. obind (release old s2) (\<lambda>s3. set_local i v s3)))
                 else release v s2) = Ok s4"
      by (auto simp: raise_exception_def outcome_simps)
    have same: "same s2 s4"
      using r4 by (auto simp: outcome_simps Let_def split: if_splits dest!: same_release same_set_local intro: same_trans)
    note u1 = unwind_stack_Ok [OF r(1)] and u2 = unwind_frames_Ok [OF r(2)]
    have fields: "v_handlers s' = hs" "v_pc s' = h_catch h"
        "v_stk s' = drop (length (v_stk s) - h_sp h) (v_stk s)"
        "v_frames s' = drop (length (v_frames s) - h_fp h) (v_frames s)"
      using u1 u2 same r(3) by (simp_all add: same_def)
    have hok: "handler_ok p h" "list_all (handler_ok p) hs" using s h by (simp_all add: ctl_ok_def)
    have frs: "frames_ok p (v_frames s)" using s by (simp add: ctl_ok_def)
    then have "v_frames s \<noteq> []" by auto
    then have "length (v_frames s) - h_fp h < length (v_frames s)" using hok(1) by (simp add: handler_ok_def)
    then have "frames_ok p (v_frames s')" unfolding fields using frames_ok_drop [OF frs] by blast
    moreover have "length (v_frames s') \<le> length (v_frames s)" "length (v_stk s') \<le> length (v_stk s)"
      unfolding fields by simp_all
    moreover have "length (v_frames s) \<le> 4095" "length hs \<le> 4095" using s h by (simp_all add: ctl_ok_def)
    moreover have "pc_ok p s'" using hok(1) unfolding pc_ok_def handler_ok_def fields by simp
    ultimately have "length (v_frames s') \<le> 4095" "frames_ok p (v_frames s')" "pc_ok p s'"
        "length (v_handlers s') \<le> 4095" "length (v_stk s') \<le> length (v_stk s)"
      unfolding fields(1) by linarith+
    moreover have "list_all (handler_ok p) (v_handlers s')" unfolding fields(1) by (rule hok(2))
    ultimately have "ctl_ok p s' \<and> length (v_stk s') \<le> length (v_stk s)"
      unfolding ctl_ok_def by (intro conjI)
    then show ?thesis using r(4) fields by (elim conjE, intro conjI)
  qed
  have nil: "\<not> caught \<and> s' = s" if "v_handlers s = []"
    using run that by (simp add: raise_exception_def)
  have cons: "ctl_ok p s' \<and> length (v_stk s') \<le> length (v_stk s) \<and> caught" if ne: "v_handlers s \<noteq> []"
  proof -
    obtain h hs where "v_handlers s = h # hs" using ne by (cases "v_handlers s") simp_all
    from all [OF this] show ?thesis by (elim conjE, intro conjI)
  qed
  show "ctl_ok p s'" "length (v_stk s') \<le> length (v_stk s)" "caught \<longleftrightarrow> v_handlers s \<noteq> []" "\<not> caught \<Longrightarrow> s' = s"
    using nil cons s by (cases "v_handlers s = []"; simp)+
  show "v_handlers s = h # hs \<Longrightarrow>
      v_pc s' = h_catch h \<and> v_handlers s' = hs \<and>
      v_stk s' = drop (length (v_stk s) - h_sp h) (v_stk s) \<and>
      v_frames s' = drop (length (v_frames s) - h_fp h) (v_frames s)"
    using all by blast
qed

lemma ctl_ok_stk: "ctl_ok p s \<Longrightarrow> ctl_ok p (s\<lparr>v_stk := vs\<rparr>)"
  by (simp add: ctl_ok_def pc_ok_def)

lemma ctl_ok_same2: "same s s' \<Longrightarrow> ctl_ok p s \<Longrightarrow> ctl_ok p s'"
  by (simp add: same_def ctl_ok_def pc_ok_def)

lemma keeps_THROW:
  assumes s: "ctl_ok p s" and run: "op_THROW s = Ok s'"
  shows "keeps p s s'"
proof -
  from run obtain v s1 where r: "pop s = Ok (v, s1)" "raise_exception v s1 = Ok (True, s')"
    by (auto simp: op_THROW_def outcome_simps err_buf_def split: if_splits)
  have "ctl_ok p s1" "length (v_stk s1) \<le> length (v_stk s)"
    using r(1) ctl_ok_stk [OF s] by (auto simp: pop_Ok)
  with raise_exception_ok(1,2) [OF this(1) r(2)] show ?thesis by (simp add: keeps_def)
qed

lemma keeps_UNWRAP:
  assumes s: "ctl_ok p s" and run: "op_UNWRAP s = Ok s'"
  shows "keeps p s s'"
proof (cases "hd (v_stk s) = VNull")
  case True
  from run have "v_stk s \<noteq> []" by (auto simp: op_UNWRAP_def outcome_simps top_slot_Ok)
  with run True obtain w s1 v s2 where r: "pop s = Ok (w, s1)"
      "on_heap_val (\<lambda>h. Ok (val_str ''[Cryo Security] unwrap of null value'' h)) s1 = Ok (v, s2)"
      "raise_exception v s2 = Ok (True, s')"
    by (auto simp: op_UNWRAP_def obind_Ok_iff top_slot_Ok split: if_splits)
  have "ctl_ok p s1" "length (v_stk s1) \<le> length (v_stk s)"
    using r(1) ctl_ok_stk [OF s] by (auto simp: pop_Ok)
  with ctl_ok_same2 [OF same_on_heap_val [OF r(2)]] sameD [OF same_on_heap_val [OF r(2)]]
  have "ctl_ok p s2" "length (v_stk s2) \<le> length (v_stk s)" by auto
  with raise_exception_ok(1,2) [OF this(1) r(3)] show ?thesis by (simp add: keeps_def)
next
  case False
  with run have "s' = s" by (auto simp: op_UNWRAP_def outcome_simps top_slot_Ok)
  with s show ?thesis by (simp add: keeps_def)
qed

lemma keeps_ASSERT:
  assumes s: "ctl_ok p s" and run: "op_ASSERT s = Ok s'"
  shows "keeps p s s'"
proof -
  from run obtain c s1 m s2 t s5 s6 where r: "pop s = Ok (c, s1)" "pop s1 = Ok (m, s2)"
      "release c s5 = Ok s6" "release m s6 = Ok s'" and
    r5: "(if t then Ok s2
            else obind (value_to_string (the_heap s2) m) (\<lambda>m.
                 obind (err_buf (''[Cryo Assert] '' @ m)) (\<lambda>e.
                 obind (on_heap_val (\<lambda>h. Ok (val_str e h)) s2) (\<lambda>(v, s3).
                 obind (raise_exception v s3) (\<lambda>(caught, s4).
                 if caught then Ok s4 else Fatal e))))) = Ok s5"
    by (auto simp only: op_ASSERT_def obind_Ok_iff split_paired_all prod.case)
  have s2: "ctl_ok p s2" "length (v_stk s2) \<le> length (v_stk s)"
    using r(1,2) ctl_ok_stk [OF s] by (auto simp: pop_Ok)
  have "ctl_ok p s5 \<and> length (v_stk s5) \<le> length (v_stk s2)"
  proof (cases t)
    case False
    with r5 obtain e v s3 where r3: "on_heap_val (\<lambda>h. Ok (val_str e h)) s2 = Ok (v, s3)"
        "raise_exception v s3 = Ok (True, s5)"
      by (auto simp: outcome_simps split: if_splits)
    note same3 = same_on_heap_val [OF r3(1)]
    show ?thesis
      using raise_exception_ok(1,2) [OF ctl_ok_same2 [OF same3 s2(1)] r3(2)] same3 by (simp add: same_def)
  qed (use r5 s2 in auto)
  with s2 same_trans [OF same_release [OF r(3)] same_release [OF r(4)]] show ?thesis
    by (auto simp: keeps_def same_def intro: ctl_ok_same2 [of s5])
qed

section \<open>The whole loop\<close>

lemma next_vm_Ok: "next_vm m = Ok (Next s') \<longleftrightarrow> m = Ok s'"
  by (cases m) (simp_all add: next_vm_def)

lemma keeps_exec_op:
  assumes p: "prog_ok p" and s: "ctl_ok p s" and run: "exec_op x nf p s = Ok (Next s')"
  shows "keeps p s s'"
proof -
  have pushed: "push v s = s' \<Longrightarrow> keeps p s s'" "print t s = s' \<Longrightarrow> keeps p s s'" for v t
    using s by (auto intro!: keepsI intro: pc_ok_same)
  note rules = keeps_plain [OF s] keeps_operand [OF p s] keeps_containers [OF p s] keeps_JMP [OF p s]
    keeps_JMPC [OF p s] keeps_NEG [OF s] keeps_APPEND [OF s] keeps_KEYS [OF s] keeps_TRYPOP [OF s]
    keeps_TRYPUSH [OF p s] keeps_CALL [OF p s] keeps_CALLVALUE [OF p s] keeps_RET [OF s] keeps_THROW [OF s]
    keeps_UNWRAP [OF s] keeps_ASSERT [OF s] pushed
  show ?thesis
    using run
    by (cases x; simp only: exec_op.simps next_vm_Ok outcome.inject outcome.distinct result.inject result.distinct)
       (erule rules)+
qed

definition state_ok :: "program \<Rightarrow> vm \<Rightarrow> bool" where
  "state_ok p s \<longleftrightarrow> ctl_ok p s \<and> int (length (v_stk s)) \<le> 65533"

lemma step_state_ok:
  assumes p: "prog_ok p" and s: "state_ok p s" and run: "step nf p s = Ok (Next s')"
  shows "state_ok p s'"
proof -
  from run obtain b s1 where r: "int (length (v_stk s)) \<le> 65532" "next8 p s = Ok (b, s1)"
    by (auto simp: step_def obind_Ok_iff)
  with run obtain x where x: "decode_op b = Some x" "exec_op x nf p s1 = Ok (Next s')"
    by (cases "decode_op b") (auto simp: step_def obind_Ok_iff)
  note adv = operand_dests(1) [OF r(2)]
  have "ctl_ok p s1" using s p adv
    by (auto simp: state_ok_def intro!: ctl_ok_same [of p s] pc_ok_advanced [of p s])
  from keeps_exec_op [OF p this x(2)] r(1) adv show ?thesis
    by (simp add: keeps_def state_ok_def)
qed

lemma start_state_ok:
  assumes "prog_ok p" "start p r = Ok s" shows "state_ok p s"
proof -
  have "unat (p_entryFn p) < length (p_funcs p)" using assms(1) by (simp add: prog_ok_def)
  with assms entry_in_code [OF assms(1) this] show ?thesis
    by (auto simp: start_def Let_def outcome_simps state_ok_def ctl_ok_def pc_ok_def frame_size_ok_def)
qed

lemma reachable_state_ok: "reachable nf p r s \<Longrightarrow> prog_ok p \<Longrightarrow> state_ok p s"
  by (induction rule: reachable.induct) (auto intro: start_state_ok step_state_ok)

section \<open>No instruction reads outside the engine's arrays\<close>

definition room :: "int \<Rightarrow> program \<Rightarrow> vm \<Rightarrow> bool" where
  \<comment> \<open>\<open>n\<close> operand bytes follow, and there is a frame to run in\<close>
  "room n p s \<longleftrightarrow> 0 \<le> v_pc s \<and> v_pc s + n \<le> int (length (p_code p)) \<and> int (length (p_code p)) < 2 ^ 31 \<and>
     v_frames s \<noteq> []"

lemma quiet_next8 [quiet_intros]: "room 1 p s \<Longrightarrow> quiet (next8 p s)"
  by (auto simp: next8_def room_def fetch_total c_int32_def intro!: quiet_obind)

lemma quiet_next16 [quiet_intros]: "room 2 p s \<Longrightarrow> quiet (next16 p s)"
  by (auto simp: next16_def read_u16_def room_def fetch_total c_int32_def intro!: quiet_obind)

lemma quiet_next_i32 [quiet_intros]: "room 4 p s \<Longrightarrow> quiet (next_i32 p s)"
  by (auto simp: next_i32_def read_i32_def read_u32_def room_def fetch_total c_int32_def intro!: quiet_obind)

lemma room_mono: "room n p s \<Longrightarrow> m \<le> n \<Longrightarrow> room m p s"
  by (simp add: room_def)

lemma room_next:
  "next8 p s = Ok (b, s') \<Longrightarrow> room n p s \<Longrightarrow> 1 \<le> n \<Longrightarrow> room (n - 1) p s'"
  "next16 p s = Ok (w, s') \<Longrightarrow> room n p s \<Longrightarrow> 2 \<le> n \<Longrightarrow> room (n - 2) p s'"
  "next_i32 p s = Ok (i, s') \<Longrightarrow> room n p s \<Longrightarrow> 4 \<le> n \<Longrightarrow> room (n - 4) p s'"
  by (auto simp: room_def dest!: operand_dests)

lemma quiet_pop [quiet_intros, simp]: "quiet (pop s)" "quiet (popn n s)" "quiet (top_slot s)"
  by (auto simp: pop_def popn_def top_slot_def intro!: quiet_obind split: list.splits)

lemma quiet_on_heap [quiet_intros]: "(\<And>h. quiet (f h)) \<Longrightarrow> quiet (on_heap f s)"
  by (auto simp: on_heap_def with_heap_def intro!: quiet_obind)

lemma quiet_on_heap_val [quiet_intros]: "(\<And>h. quiet (f h)) \<Longrightarrow> quiet (on_heap_val f s)"
  by (auto simp: on_heap_val_def with_heap_val_def intro!: quiet_obind)

lemma quiet_release [quiet_intros, simp]: "quiet (release v s)" "quiet (retain v s)"
  by (auto simp: release_def retain_def intro!: quiet_on_heap)

lemma quiet_locals [quiet_intros, simp]:
  "quiet (get_local i s)" "quiet (set_local i v s)" "quiet (set_locals b vs s)" "quiet (null_locals b n s)"
  by (auto simp: get_local_def set_local_def set_locals_def null_locals_def intro!: quiet_obind quiet_ofold)

lemma quiet_release_locals [quiet_intros, simp]: "quiet (release_locals f s)"
  unfolding release_locals_def by (intro quiet_intros)

lemma quiet_val_array [quiet_intros, simp]: "quiet (val_array a h)" "quiet (val_map a h)"
  by (auto simp: val_array_def val_map_def intro!: quiet_obind)

lemma quiet_jump [quiet_intros, simp]: "quiet (pyro_jump_to pc rel n)" "quiet (jump p rel s)"
  by (auto simp: quiet_def jump_def outcome_simps)

lemma quiet_top_frame: "v_frames s \<noteq> [] \<Longrightarrow> quiet (top_frame s)"
  by (simp add: top_frame_def split: list.splits)

lemma quiet_err_buf [quiet_intros, simp]: "quiet (err_buf e)"
  by (simp add: err_buf_def quiet_obind)

lemma quiet_limits [quiet_intros, simp]: "quiet (locals_limit b f)" "quiet (enter_frame fi f b s)"
  by (auto simp: locals_limit_def enter_frame_def intro!: quiet_obind)

lemma quiet_captures [quiet_intros, simp]: "quiet (captures c s)"
  by (auto simp: captures_def intro!: quiet_obind split: option.splits)

lemma quiet_unwind [quiet_intros, simp]: "quiet (unwind_stack n vs s)" "quiet (unwind_frames n fs s)"
proof -
  show "quiet (unwind_stack n vs s)"
    by (induction n vs s rule: unwind_stack.induct) (auto intro!: quiet_obind)
  show "quiet (unwind_frames n fs s)"
    by (induction n fs s rule: unwind_frames.induct) (auto intro!: quiet_obind)
qed

lemma quiet_raise:
  assumes "ctl_ok p s" shows "quiet (raise_exception v s)"
proof (cases "v_handlers s")
  case (Cons h hs)
  have ne: "v_frames s2 \<noteq> []"
    if "unwind_stack (h_sp h) (v_stk s) (s\<lparr>v_handlers := hs\<rparr>) = Ok s1" "unwind_frames (h_fp h) (v_frames s1) s1 = Ok s2" for s1 s2
  proof -
    have "v_frames s2 = drop (length (v_frames s) - h_fp h) (v_frames s)"
      using unwind_stack_Ok [OF that(1)] unwind_frames_Ok [OF that(2)] by simp
    moreover have "v_frames s \<noteq> []" "1 \<le> h_fp h"
      using assms Cons by (cases "v_frames s"; simp add: ctl_ok_def handler_ok_def)+
    ultimately show ?thesis by (cases "v_frames s") auto
  qed
  show ?thesis
    unfolding raise_exception_def Cons list.case Let_def
    by (intro quiet_intros quiet_simps quiet_top_frame ne)
qed (simp add: raise_exception_def)

lemma quiet_plain_ops [simp]:
  "quiet (op_POP s)" "quiet (op_BIN x s)" "quiet (op_NOT s)" "quiet (op_BNOT s)" "quiet (op_NEG s)"
  "quiet (op_COALESCE s)" "quiet (op_PRINT s)" "quiet (op_INDEX s)" "quiet (op_SETIDX s)" "quiet (op_LEN s)"
  "quiet (op_HAS s)" "quiet (op_APPEND s)" "quiet (op_KEYS s)" "quiet (op_TRYPOP s)" "quiet (op_RET s)"
  by (auto simp: op_POP_def op_BIN_def op_NOT_def op_BNOT_def op_NEG_def op_COALESCE_def op_PRINT_def op_INDEX_def
      op_SETIDX_def op_LEN_def op_HAS_def op_APPEND_def op_KEYS_def op_TRYPOP_def op_RET_def
      intro!: quiet_intros split: val.splits list.splits)

lemma quiet_operand_ops:
  assumes "room 2 p s"
  shows "quiet (op_CONST p s)" "quiet (op_LOAD p s)" "quiet (op_STORE p s)" "quiet (op_GETGLOBAL p s)"
    "quiet (op_SETGLOBAL p s)" "quiet (op_PUSHFN p s)" "quiet (op_NEWARR p s)" "quiet (op_NEWMAP p s)"
  using assms room_next(2) [of p s _ _ 2]
  by (auto simp: op_CONST_def op_LOAD_def op_STORE_def op_GETGLOBAL_def op_SETGLOBAL_def op_PUSHFN_def
      op_NEWARR_def op_NEWMAP_def Let_def room_def
      intro!: quiet_intros quiet_top_frame)

lemma quiet_jumps:
  assumes "room 4 p s" shows "quiet (op_JMP p s)" "quiet (op_JMPC b p s)"
  using assms by (auto simp: op_JMP_def op_JMPC_def intro!: quiet_intros)

lemma quiet_CALL: "room 3 p s \<Longrightarrow> quiet (op_CALL p s)"
  using room_next(2) [of p s _ _ 3] room_next(1) [of p _ _ _ 1]
  by (auto simp: op_CALL_def Let_def room_def intro!: quiet_intros quiet_top_frame)

lemma quiet_CLOSURE: "room 3 p s \<Longrightarrow> quiet (op_CLOSURE p s)"
  using room_next(2) [of p s _ _ 3]
  by (auto simp: op_CLOSURE_def Let_def room_def intro!: quiet_intros)

lemma quiet_CALLVALUE: "room 1 p s \<Longrightarrow> quiet (op_CALLVALUE p s)"
  by (auto simp: op_CALLVALUE_def Let_def popn_Ok intro!: quiet_intros quiet_top_frame split: val.splits
      dest!: room_next(1) [where n = 1]) (auto simp: room_def)

lemma quiet_NATIVE: "(\<And>i vs r. quiet (nf i vs r)) \<Longrightarrow> room 2 p s \<Longrightarrow> quiet (op_NATIVE nf p s)"
  using room_next(1) [of p s _ _ 2] room_mono [of 2 p s 1]
  by (auto simp: op_NATIVE_def intro!: quiet_intros)

lemma quiet_TRYPUSH: "room 6 p s \<Longrightarrow> quiet (op_TRYPUSH p s)"
  using room_next(3) [of p s _ _ 6] room_mono [of 6 p s 4]
  by (auto simp: op_TRYPUSH_def intro!: quiet_intros)

lemma quiet_raising_ops:
  assumes "ctl_ok p s"
  shows "quiet (op_THROW s)" "quiet (op_UNWRAP s)" "quiet (op_ASSERT s)"
proof -
  note stk = ctl_ok_stk [OF assms]
  show "quiet (op_THROW s)"
    using quiet_raise [OF stk] by (auto simp: op_THROW_def pop_Ok intro!: quiet_intros)
  show "quiet (op_UNWRAP s)"
    by (auto simp: op_UNWRAP_def pop_Ok intro!: quiet_intros
        intro: quiet_raise [OF ctl_ok_same2 [OF same_on_heap_val stk]])
  show "quiet (op_ASSERT s)"
    by (auto simp: op_ASSERT_def pop_Ok intro!: quiet_intros
        intro: quiet_raise [OF ctl_ok_same2 [OF same_on_heap_val stk]])
qed

lemma decode_op_Some: "decode_op b = Some x \<Longrightarrow> b = op_byte x"
  by (auto simp: decode_op_def find_Some_iff)

lemma tail_safe_width: "tail_safe x \<Longrightarrow> pyro_operand_width (op_byte x) = 0"
  by (auto simp: tail_safe_def pyro_operand_width_def)

lemma width_le_6: "pyro_operand_width b \<le> 6"
  by (auto simp: pyro_operand_width_def split: option.splits)

lemma check_operand_room:
  assumes p: "prog_ok p" and s: "ctl_ok p s" and ok: "check_operand p (op_byte x) s = Ok u"
  shows "room (int (pyro_operand_width (op_byte x))) p s"
proof -
  let ?w = "int (pyro_operand_width (op_byte x))"
  have bounds: "0 \<le> v_pc s" "v_pc s \<le> int (length (p_code p))" "int (length (p_code p)) < 2 ^ 31"
      "uint (p_codelen p) = int (length (p_code p))" "v_frames s \<noteq> []"
    using p s by (cases "v_frames s"; simp add: prog_ok_def ctl_ok_def pc_ok_def)+
  have w: "0 \<le> ?w" "?w \<le> 6" using width_le_6 [of "op_byte x"] by simp_all
  have sum: "uint (word_of_int (v_pc s) + word_of_int n :: 32 word) = v_pc s + n" if "0 \<le> n" "n \<le> 6" for n
  proof -
    have "uint (word_of_int (v_pc s + n) :: 32 word) = v_pc s + n"
      using bounds that by (simp only: uint_word_of_int) (simp add: take_bit_int_eq_self_iff mod_pos_pos_trivial)
    then show ?thesis by simp
  qed
  from ok consider "uint (word_of_int (v_pc s) + word_of_int 6 :: 32 word) \<le> uint (p_codelen p)"
    | "tail_safe x" | "uint (word_of_int (v_pc s) + word_of_int ?w :: 32 word) \<le> uint (p_codelen p)"
    by (auto simp: check_operand_def Let_def word_less_def not_less of_nat_nat split: if_splits)
  then have "v_pc s + ?w \<le> int (length (p_code p))"
  proof cases
    case 1
    have six: "uint (word_of_int (v_pc s) + word_of_int 6 :: 32 word) = v_pc s + 6" by (rule sum) simp_all
    from 1 show ?thesis unfolding six bounds(4) using w by linarith
  next
    case 2
    with bounds tail_safe_width show ?thesis by simp
  next
    case 3
    from 3 show ?thesis unfolding sum [OF w] bounds(4) .
  qed
  with bounds show ?thesis by (simp add: room_def)
qed

lemma operand_widths [simp]:
  "pyro_operand_width (op_byte opCONST) = 2" "pyro_operand_width (op_byte opLOAD) = 2"
  "pyro_operand_width (op_byte opSTORE) = 2" "pyro_operand_width (op_byte opGETGLOBAL) = 2"
  "pyro_operand_width (op_byte opSETGLOBAL) = 2" "pyro_operand_width (op_byte opPUSHFN) = 2"
  "pyro_operand_width (op_byte opNEWARR) = 2" "pyro_operand_width (op_byte opNEWMAP) = 2"
  "pyro_operand_width (op_byte opJMP) = 4" "pyro_operand_width (op_byte opJMPF) = 4"
  "pyro_operand_width (op_byte opJMPT) = 4" "pyro_operand_width (op_byte opCALL) = 3"
  "pyro_operand_width (op_byte opNATIVE) = 2" "pyro_operand_width (op_byte opTRYPUSH) = 6"
  "pyro_operand_width (op_byte opCLOSURE) = 3" "pyro_operand_width (op_byte opCALLVALUE) = 1"
  by (simp_all add: pyro_operand_width_def del: op_byte.simps)

lemma quiet_next_vm: "quiet m \<Longrightarrow> quiet (next_vm m)"
  by (simp add: next_vm_def quiet_obind)

lemma quiet_exec_op:
  assumes nf: "\<And>i vs r. quiet (nf i vs r)" and s: "ctl_ok p s"
    and room: "room (int (pyro_operand_width (op_byte x))) p s"
  shows "quiet (exec_op x nf p s)"
  using room
  by (cases x; simp only: exec_op.simps operand_widths of_nat_numeral of_nat_1; intro quiet_next_vm quiet_simps quiet_plain_ops
      quiet_operand_ops quiet_jumps quiet_CALL quiet_CLOSURE quiet_CALLVALUE quiet_NATIVE [OF nf] quiet_TRYPUSH
      quiet_raising_ops [OF s])

lemma quiet_step:
  assumes p: "prog_ok p" and s: "state_ok p s" and nf: "\<And>i vs r. quiet (nf i vs r)"
  shows "quiet (step nf p s)"
proof (cases "p_codelen p \<le> word_of_int (v_pc s)")
  case True
  then show ?thesis by (simp add: step_def)
next
  case False
  have bounds: "0 \<le> v_pc s" "v_pc s \<le> int (length (p_code p))" "int (length (p_code p)) < 2 ^ 31"
      "uint (p_codelen p) = int (length (p_code p))" "v_frames s \<noteq> []"
    using p s by (cases "v_frames s"; simp add: prog_ok_def state_ok_def ctl_ok_def pc_ok_def)+
  have "uint (word_of_int (v_pc s) :: 32 word) = v_pc s"
    using bounds by (simp add: uint_word_of_int take_bit_int_eq_self_iff mod_pos_pos_trivial)
  with False bounds have "room 1 p s" by (simp add: room_def word_le_def)
  then have fetch: "quiet (next8 p s)" by (rule quiet_next8)
  have rest: "quiet (case decode_op b of None \<Rightarrow> Fatal ''invalid opcode in bytecode'' | Some x \<Rightarrow> exec_op x nf p s1)"
    if b: "next8 p s = Ok (b, s1)" and ok: "check_operand p b s1 = Ok u" for b s1 u
  proof (cases "decode_op b")
    case (Some x)
    note adv = operand_dests(1) [OF b]
    have s1: "ctl_ok p s1" using s p adv
      by (auto simp: state_ok_def intro!: ctl_ok_same [of p s] pc_ok_advanced [of p s])
    have "b = op_byte x" using Some by (rule decode_op_Some)
    with quiet_exec_op [OF nf s1, where x = x] check_operand_room [OF p s1, of x] ok Some show ?thesis by simp
  qed simp
  have check: "quiet (check_operand p b s1)" for b s1
    by (simp add: check_operand_def Let_def)
  show ?thesis
    unfolding step_def
    by (intro quiet_obind quiet_simps) (auto intro: fetch rest check quiet_obind)
qed

end
