(* ===== verification/Execution.thy ===== *)
theory Execution
  imports Engine
begin

text \<open>
  What executions of the engine do: the control invariant of every reachable state, what a raised
  exception unwinds, how a call passes its arguments and a return comes back, and what a whole run
  can end in. The small programs and states at the head of each group are the inputs on which the
  theorems are exercised.
\<close>

unbundle bit_operations_syntax

section \<open>Sample programs\<close>

definition tiny :: program where
  \<comment> \<open>\<open>1 + 2\<close>, printed, then halt\<close>
  "tiny = \<lparr>p_consts = [VInt 1, VInt 2],
     p_funcs = [\<lparr>fi_name = ''main'', fi_entry = 0, fi_nparams = 0, fi_nlocals = 1\<rparr>],
     p_entryFn = 0, p_code = map op_byte [opCONST] @ [0, 0] @ map op_byte [opCONST] @ [1, 0] @ map op_byte [opADD, opPRINT, opHALT],
     p_codelen = 9, p_dbg = [], p_sandboxed = False\<rparr>"

definition no_native :: native_fn where
  "no_native i vs r = Fatal ''unknown native''"

lemma tiny_ok: "prog_ok tiny"
  by (simp add: tiny_def prog_ok_def)

lemma no_native_quiet: "quiet (no_native i vs r)"
  by (simp add: no_native_def)

lemma tiny_starts: "\<exists>s. reachable no_native tiny initial_rt s \<and> v_pc s = 0"
  by (rule exI, rule conjI, rule reachable.init) (auto simp: start_def tiny_def Let_def)

text \<open>C13. In every reachable state of a loaded program the program counter is inside the code, the value, frame and handler stacks are below their limits, and the frames tile the locals of their callers.\<close>

theorem reachable_control_invariant:
  assumes "prog_ok p" "reachable nf p r s"
  shows "0 \<le> v_pc s \<and> v_pc s \<le> uint (p_codelen p) \<and> int (length (v_stk s)) \<le> 65533 \<and>
    frames_ok p (v_frames s) \<and> length (v_frames s) \<le> 4095 \<and>
    list_all (handler_ok p) (v_handlers s) \<and> length (v_handlers s) \<le> 4095"
  using reachable_state_ok [OF assms(2,1)] by (simp add: state_ok_def ctl_ok_def pc_ok_def)

theorem reachable_control_invariant_witness:
  "\<exists>s. reachable no_native tiny initial_rt s \<and> frames_ok tiny (v_frames s) \<and> length (v_frames s) \<le> 4095"
  using tiny_starts reachable_control_invariant [OF tiny_ok] by blast

theorem reachable_step_stays_in_code:
  assumes "prog_ok p" "\<And>i vs r. quiet (nf i vs r)" "reachable nf p r s"
  shows "step nf p s \<noteq> UB CodeRange \<and> step nf p s \<noteq> UB FrameRange"
  using quiet_step [OF assms(1) reachable_state_ok [OF assms(3,1)] assms(2)] by (auto simp: quiet_def)

theorem reachable_step_stays_in_code_witness:
  "\<exists>s. reachable no_native tiny initial_rt s \<and> step no_native tiny s \<noteq> UB CodeRange"
  proof -
  obtain s where s: "reachable no_native tiny initial_rt s" using tiny_starts by blast
  from reachable_step_stays_in_code [OF tiny_ok no_native_quiet this] s show ?thesis by blast
qed

text \<open>C15. A raised exception is refused when there is no handler; otherwise it removes the newest handler, resumes at its catch address with the value and frame stacks cut to the recorded heights, and keeps the control invariant.\<close>

theorem raise_exception_unwinds:
  assumes "ctl_ok p s" "raise_exception v s = Ok (caught, s')"
  shows "case v_handlers s of
      [] \<Rightarrow> \<not> caught \<and> s' = s
    | h # hs \<Rightarrow> caught \<and> v_pc s' = h_catch h \<and> v_handlers s' = hs \<and>
        v_stk s' = drop (length (v_stk s) - h_sp h) (v_stk s) \<and>
        v_frames s' = drop (length (v_frames s) - h_fp h) (v_frames s) \<and> ctl_ok p s'"
proof (cases "v_handlers s")
  case Nil
  with raise_exception_ok(3,4) [OF assms] show ?thesis by simp
next
  case (Cons h hs)
  with raise_exception_ok(1,3) [OF assms] raise_exception_ok(5) [OF assms Cons] show ?thesis by simp
qed


definition thrower :: vm where
  \<comment> \<open>a handler set up in the only frame, with two values pushed since\<close>
  "thrower = \<lparr>v_pc = 4, v_stk = [VInt 8, VInt 7], v_locals = (\<lambda>_. VNull),
     v_frames = [\<lparr>fr_retpc = -1, fr_base = 0, fr_nlocals = 1, fr_fn = 0\<rparr>],
     v_handlers = [\<lparr>h_catch = 8, h_sp = 1, h_fp = 1, h_slot = 0\<rparr>], v_globals = [], v_rt = initial_rt\<rparr>"

theorem raise_exception_unwinds_witness:
  "\<exists>s'. raise_exception (VInt 5) thrower = Ok (True, s') \<and> v_pc s' = 8 \<and> v_stk s' = [VInt 7]"
proof -
  have ok: "ctl_ok tiny thrower"
    by (simp add: ctl_ok_def thrower_def pc_ok_def tiny_def frame_size_ok_def handler_ok_def)
  obtain s' where run: "raise_exception (VInt 5) thrower = Ok (True, s')"
    by (simp add: raise_exception_def thrower_def release_def on_heap_def with_heap_def release_value_def initial_rt_def
        top_frame_def get_local_def set_local_def)
  from raise_exception_unwinds [OF ok run] run show ?thesis by (auto simp: thrower_def)
qed

lemma release_unboxed: "val_addr v = None \<Longrightarrow> release v s = Ok s"
  by (cases "length (heap (v_rt s))"; simp add: release_def on_heap_def with_heap_def release_value_def)

text \<open>C37. A return out of a try block leaves the handler of the finished function installed; a later exception in the caller resumes at the catch address of the finished function with the frames of the caller.\<close>

theorem return_leaves_stale_handler:
  assumes s: "ctl_ok p s" "v_handlers s = h # hs" "h_fp h = length (v_frames s)"
    and ret: "op_RET s = Ok (Next s1)"
    and later: "ctl_ok p s2" "v_frames s2 = v_frames s1" "v_handlers s2 = v_handlers s1"
    and throw: "raise_exception v s2 = Ok (caught, s3)"
  shows "caught \<and> v_pc s3 = h_catch h \<and> v_frames s3 = tl (v_frames s) \<and> length (v_frames s3) < h_fp h"
proof -
  obtain f fs where f: "v_frames s = f # fs" using s(1) by (cases "v_frames s") (auto simp: ctl_ok_def)
  have "v_frames s1 = fs \<and> v_handlers s1 = h # hs"
    using ret f s(2) by (auto simp: op_RET_def outcome_simps pop_Ok dest!: same_dests split: if_splits)
  with raise_exception_ok(3) [OF later(1) throw] raise_exception_ok(5) [OF later(1) throw, of h hs] later f s(3)
  show ?thesis by auto
qed

definition leaving :: vm where
  \<comment> \<open>inside the callee's \<open>try\<close> block, about to return \<open>null\<close>\<close>
  "leaving = \<lparr>v_pc = 7, v_stk = [VNull], v_locals = (\<lambda>_. VNull),
     v_frames = [\<lparr>fr_retpc = 4, fr_base = 1, fr_nlocals = 1, fr_fn = 0\<rparr>,
       \<lparr>fr_retpc = -1, fr_base = 0, fr_nlocals = 1, fr_fn = 0\<rparr>],
     v_handlers = [\<lparr>h_catch = 8, h_sp = 0, h_fp = 2, h_slot = 0xFFFF\<rparr>], v_globals = [], v_rt = initial_rt\<rparr>"

theorem return_leaves_stale_handler_witness:
  "\<exists>s1 s3. op_RET leaving = Ok (Next s1) \<and> raise_exception (VInt 5) s1 = Ok (True, s3) \<and> v_pc s3 = 8 \<and>
     v_frames s3 = tl (v_frames leaving)"
proof -
  let ?s1 = "leaving\<lparr>v_pc := 4, v_frames := tl (v_frames leaving)\<rparr>"
  let ?s3 = "?s1\<lparr>v_pc := 8, v_stk := [], v_handlers := []\<rparr>"
  have ok: "ctl_ok tiny leaving" "ctl_ok tiny ?s1"
    by (simp_all add: ctl_ok_def leaving_def pc_ok_def tiny_def frame_size_ok_def handler_ok_def)
  have ret: "op_RET leaving = Ok (Next ?s1)"
    by (simp add: op_RET_def leaving_def pop_def release_locals_def get_local_def release_unboxed push_def)
  have throw: "raise_exception (VInt 5) ?s1 = Ok (True, ?s3)"
    by (simp add: raise_exception_def leaving_def release_unboxed)
  have "True \<and> v_pc ?s3 = 8 \<and> v_frames ?s3 = tl (v_frames leaving) \<and> length (v_frames ?s3) < 2"
    using return_leaves_stale_handler [OF ok(1) _ _ ret ok(2) refl refl throw] by (simp add: leaving_def)
  with ret throw show ?thesis by blast
qed

lemma set_locals_spec:
  assumes "set_locals base vs s = Ok s'"
  shows "v_locals s' i = (if base \<le> i \<and> i < base + length vs then vs ! (i - base) else v_locals s i)"
proof -
  have "v_locals s' i = (if base + k \<le> i \<and> i < base + k + length vs then vs ! (i - base - k) else v_locals s i)"
    if "ofold (\<lambda>(i, v). set_local (base + i) v) (enumerate k vs) s = Ok s'" for k
    using that
  proof (induction vs arbitrary: k s)
    case (Cons v vs)
    then obtain t where t: "set_local (base + k) v s = Ok t"
        "ofold (\<lambda>(i, v). set_local (base + i) v) (enumerate (Suc k) vs) t = Ok s'"
      by (auto simp: outcome_simps)
    then have "v_locals t = (v_locals s)(base + k := v)" by (auto simp: set_local_def outcome_simps)
    with Cons.IH [OF t(2)] show ?case
      by (auto simp: nth_Cons' Suc_diff_le dest!: le_neq_implies_less)
  qed auto
  from this [of 0] assms show ?thesis by (simp add: set_locals_def)
qed

lemma null_locals_spec:
  "null_locals base n s = Ok s' \<Longrightarrow> v_locals s' i = (if base \<le> i \<and> i < base + n then VNull else v_locals s i)"
  by (auto simp: null_locals_def outcome_simps)

definition caller :: program where
  "caller = tiny\<lparr>p_code := [op_byte opCALL, 0, 0, 1] @ p_code tiny, p_codelen := 13,
     p_funcs := [\<lparr>fi_name = ''main'', fi_entry = 0, fi_nparams = 1, fi_nlocals = 2\<rparr>]\<rparr>"

definition calling :: vm where
  \<comment> \<open>at the operands of a call with one argument\<close>
  "calling = \<lparr>v_pc = 1, v_stk = [VInt 9, VInt 8], v_locals = (\<lambda>_. VNull),
     v_frames = [\<lparr>fr_retpc = -1, fr_base = 0, fr_nlocals = 2, fr_fn = 0\<rparr>],
     v_handlers = [], v_globals = [], v_rt = initial_rt\<rparr>"

lemma call_runs: "\<exists>s'. op_CALL caller calling = Ok s' \<and> v_stk s' = [VInt 8] \<and>
    v_frames s' = \<lparr>fr_retpc = 4, fr_base = 2, fr_nlocals = 2, fr_fn = 0\<rparr> # v_frames calling \<and>
    v_locals s' 2 = VInt 9 \<and> v_locals s' 3 = VNull"
  by (simp add: op_CALL_def caller_def tiny_def calling_def next16_def read_u16_def next8_def fetch_def c_int32_def
      in_i32_def top_frame_def locals_limit_def null_locals_def popn_def set_locals_def set_local_def enter_frame_def Let_def)



text \<open>C36. A return from a called function comes back behind the call instruction, with the frames of the caller and the result on top of the stack.\<close>

theorem call_then_return:
  assumes call: "op_CALL p s = Ok s1" and ret: "op_RET s2 = Ok r"
    and body: "v_frames s2 = v_frames s1" "v_stk s2 = v # v_stk s1" and pc: "0 \<le> v_pc s"
  shows "\<exists>s3. r = Next s3 \<and> v_pc s3 = v_pc s + 3 \<and> v_frames s3 = v_frames s \<and> v_stk s3 = v # v_stk s1"
proof -
  have s1: "\<exists>f. v_frames s1 = f # v_frames s \<and> fr_retpc f = v_pc s + 3"
    using call by (auto simp: op_CALL_def enter_frame_def op_simps dest!: operand_dests same_dests)
  then obtain f where f: "v_frames s2 = f # v_frames s" "fr_retpc f = v_pc s + 3" using body(1) by auto
  with ret body(2) pc show ?thesis
    by (auto simp: op_RET_def outcome_simps pop_Ok push_def dest!: same_dests split: if_splits)
qed

theorem call_then_return_witness:
  "\<exists>s1 s3. op_CALL caller calling = Ok s1 \<and> op_RET (s1\<lparr>v_stk := VNull # v_stk s1\<rparr>) = Ok (Next s3) \<and> v_pc s3 = 4 \<and>
     v_frames s3 = v_frames calling"
proof -
  obtain s1 where s1: "op_CALL caller calling = Ok s1" "v_stk s1 = [VInt 8]"
      "v_frames s1 = \<lparr>fr_retpc = 4, fr_base = 2, fr_nlocals = 2, fr_fn = 0\<rparr> # v_frames calling"
      "v_locals s1 2 = VInt 9" "v_locals s1 3 = VNull"
    using call_runs by blast
  let ?s2 = "s1\<lparr>v_stk := VNull # v_stk s1\<rparr>"
  have "op_RET ?s2 = Ok (Next (s1\<lparr>v_stk := VNull # v_stk s1, v_frames := v_frames calling, v_pc := 4\<rparr>))"
    using s1 by (simp add: op_RET_def pop_def release_locals_def get_local_def release_unboxed upt_rec push_def
      s1(4) [unfolded numeral_2_eq_2] s1(5) [unfolded numeral_3_eq_3])
  then obtain r where r: "op_RET ?s2 = Ok r" by blast
  from call_then_return [OF s1(1) r, of VNull] r s1(1) show ?thesis by (auto simp: calling_def)
qed

lemma run_quiet:
  assumes "prog_ok p" "\<And>i vs r. quiet (nf i vs r)"
  shows "state_ok p s \<Longrightarrow> run n nf p s = Some res \<Longrightarrow> quiet res"
proof (induction n arbitrary: s)
  case (Suc n)
  have step: "quiet (step nf p s)"
    by (rule quiet_step [OF assms(1) Suc.prems(1)]) (rule assms(2))
  show ?case
  proof (cases "step nf p s")
    case (Ok r)
    show ?thesis
    proof (cases r)
      case (Next s')
      with Ok step_state_ok [OF assms(1) Suc.prems(1)] Suc show ?thesis by auto
    qed (use Ok Suc.prems in auto)
  qed (use Suc.prems step in auto)
qed simp

lemma run_halts_reachable:
  assumes "reachable nf p r s" "run n nf p s = Some (Ok s')"
  shows "\<exists>t. reachable nf p r t \<and> step nf p t = Ok (Stop s')"
  using assms
proof (induction n arbitrary: s)
  case (Suc n)
  then show ?case by (auto split: outcome.splits result.splits intro: reachable.step)
qed simp

definition halter :: program where
  "halter = tiny\<lparr>p_code := [op_byte opHALT], p_codelen := 1\<rparr>"

lemma halter_ok: "prog_ok halter"
  by (simp add: halter_def tiny_def prog_ok_def)

lemma halter_runs: "\<exists>s. run_program 3 no_native halter initial_rt = Some (Ok s)"
  by (simp add: run_program_def start_def halter_def tiny_def step_def next8_def fetch_def c_int32_def in_i32_def
      check_operand_def numeral_3_eq_3 Let_def ofail_def tail_safe_def del: op_byte.simps)

text \<open>C22. Whatever a run with fuel ends in is reached by steps: a normal end is a stop of a reachable state, and no run ends in a read outside the code or the frames.\<close>

theorem run_program_sound:
  assumes "prog_ok p" "\<And>i vs r. quiet (nf i vs r)" "run_program n nf p r = Some res"
  shows "res \<noteq> UB CodeRange \<and> res \<noteq> UB FrameRange \<and>
    (\<forall>s'. res = Ok s' \<longrightarrow> (\<exists>t. reachable nf p r t \<and> step nf p t = Ok (Stop s')))"
proof -
  obtain s where s: "start p r = Ok s" using assms(1) by (auto simp: start_def prog_ok_def Let_def)
  then have run: "run n nf p s = Some res" using assms(3) by (simp add: run_program_def)
  have "quiet res" by (rule run_quiet [OF assms(1) _ start_state_ok [OF assms(1) s] run]) (rule assms(2))
  with run_halts_reachable [OF reachable.init [OF s]] run show ?thesis by (auto simp: quiet_def)
qed

theorem run_program_sound_witness:
  "\<exists>res. run_program 3 no_native halter initial_rt = Some res \<and> res \<noteq> UB CodeRange"
proof -
  obtain res where "run_program 3 no_native halter initial_rt = Some res" using halter_runs by blast
  with run_program_sound [OF halter_ok no_native_quiet this] show ?thesis by blast
qed

text \<open>With a debug table sorted by address, the reported line is the one of the last entry at or before the address, and 0 when there is none.\<close>

theorem get_line_number_last:
  assumes "sorted (map dbg_pc (p_dbg p))"
  shows "get_line_number t p =
    (case filter (\<lambda>d. dbg_pc d \<le> t) (p_dbg p) of [] \<Rightarrow> 0 | ds \<Rightarrow> sint (dbg_line (last ds)))"
proof -
  have "get_line_from t ds l = (case filter (\<lambda>d. dbg_pc d \<le> t) ds of [] \<Rightarrow> l | es \<Rightarrow> dbg_line (last es))"
    if "sorted (map dbg_pc ds)" for ds l
    using that
  proof (induction ds arbitrary: l)
    case (Cons d ds)
    show ?case
    proof (cases "dbg_pc d \<le> t")
      case True
      with Cons show ?thesis by (auto split: list.splits)
    next
      case False
      then have "filter (\<lambda>d. dbg_pc d \<le> t) ds = []"
        using Cons.prems by (auto simp: filter_empty_conv)
      with False show ?thesis by simp
    qed
  qed simp
  from this [OF assms] show ?thesis by (auto simp: get_line_number_def split: list.splits)
qed

theorem get_line_number_last_witness:
  "get_line_number 4 (tiny\<lparr>p_dbg := [\<lparr>dbg_pc = 0, dbg_line = 1\<rparr>, \<lparr>dbg_pc = 3, dbg_line = 2\<rparr>]\<rparr>) = 2"
  using get_line_number_last [of "tiny\<lparr>p_dbg := [\<lparr>dbg_pc = 0, dbg_line = 1\<rparr>, \<lparr>dbg_pc = 3, dbg_line = 2\<rparr>]\<rparr>" 4]
  by simp

end
