(* ===== verification/Loader.thy ===== *)
theory Loader
  imports Engine
begin

unbundle bit_operations_syntax

text \<open>
  The bytecode loader (\<open>need_bytes\<close>, \<open>rd_u8\<close>, \<open>rd_u16\<close>, \<open>rd_u32\<close>, \<open>load_program\<close> of \<open>vm/main.c\<close>),
  over the bytes of the file. Each section of the file has its own definition, in the order the code
  reads them, threading the position and, where strings are created, the runtime state. A read
  outside the file is \<open>UB DataRange\<close>. The policy embedded in the file is handed to the argument
  \<open>set_policy\<close>, which stands for \<open>pyro_policy_artifact\<close>.
\<close>

section \<open>Checked reads\<close>

definition hex_msg :: "string \<Rightarrow> int \<Rightarrow> int \<Rightarrow> int \<Rightarrow> string" where
  \<comment> \<open>\<open>char msg[256]; snprintf(...)\<close>\<close>
  "hex_msg what want pos sz = take 255
     (''malformed .pyro: '' @ what @ '' needs '' @ show_int want @ '' byte(s) at offset '' @ show_int pos @
      '', but the file is only '' @ show_int sz @ '' bytes'')"

definition need_bytes :: "u8 list \<Rightarrow> int \<Rightarrow> int \<Rightarrow> string \<Rightarrow> unit outcome" where
  "need_bytes data pos want what =
     (let sz = int (length data)
      in ofail (pos < 0 \<or> sz < pos \<or> sz - pos < want) (hex_msg what want pos sz))"

definition rd_u8 :: "u8 list \<Rightarrow> string \<Rightarrow> int \<Rightarrow> (u8 \<times> int) outcome" where
  "rd_u8 data what pos =
     obind (need_bytes data pos 1 what) (\<lambda>_.
     obind (fetch DataRange data pos) (\<lambda>b. obind (c_int32 (pos + 1)) (\<lambda>pos'. Ok (b, pos'))))"

definition rd_u16 :: "u8 list \<Rightarrow> string \<Rightarrow> int \<Rightarrow> (16 word \<times> int) outcome" where
  "rd_u16 data what pos = obind (need_bytes data pos 2 what) (\<lambda>_. read_u16 DataRange data pos)"

definition rd_u32 :: "u8 list \<Rightarrow> string \<Rightarrow> int \<Rightarrow> (32 word \<times> int) outcome" where
  "rd_u32 data what pos = obind (need_bytes data pos 4 what) (\<lambda>_. read_u32 DataRange data pos)"

definition rd_block :: "u8 list \<Rightarrow> string \<Rightarrow> 32 word \<Rightarrow> int \<Rightarrow> (u8 list \<times> int) outcome" where
  \<comment> \<open>\<open>need_bytes(pos, len, what)\<close>, a copy of \<open>len\<close> bytes, \<open>pos += (int)len\<close>\<close>
  "rd_block data what len pos =
     obind (need_bytes data pos (uint len) what) (\<lambda>_.
     obind (oguard (0 \<le> pos \<and> pos + uint len \<le> int (length data)) DataRange) (\<lambda>_.
     obind (c_int32 (pos + sint len)) (\<lambda>pos'.
     Ok (take (unat len) (drop (nat pos) data), pos'))))"

definition chars :: "u8 list \<Rightarrow> string" where
  "chars bs = map (\<lambda>b. char_of (unat b)) bs"

section \<open>The sections of the file\<close>

definition load_const :: "u8 \<Rightarrow> u8 list \<Rightarrow> int \<Rightarrow> rt \<Rightarrow> (val \<times> int \<times> rt) outcome" where
  "load_const ver data pos0 r =
     obind (rd_u8 data ''constant tag'' pos0) (\<lambda>(tag, pos).
     if tag = 1 then
       obind (need_bytes data pos 8 ''int constant'') (\<lambda>_.
       obind (read_u64 DataRange data pos) (\<lambda>(i, pos'). Ok (VInt i, pos', r)))
     else if tag = 2 then
       obind (need_bytes data pos 8 ''float constant'') (\<lambda>_.
       obind (read_u64 DataRange data pos) (\<lambda>(f, pos'). Ok (VFloat f, pos', r)))
     else if tag = 3 then
       obind (if 3 \<le> ver then rd_u32 data ''string length'' pos
              else obind (rd_u16 data ''string length'' pos) (\<lambda>(w, pos'). Ok (ucast w, pos'))) (\<lambda>(len, pos1).
       obind (rd_block data ''string constant'' len pos1) (\<lambda>(bs, pos2).
       let (v, h) = val_str (chars bs) (heap r) in Ok (v, pos2, r\<lparr>heap := h\<rparr>)))
     else if tag = 4 then
       obind (rd_u8 data ''bool constant'' pos) (\<lambda>(b, pos'). Ok (VBool (b \<noteq> 0), pos', r))
     else Fatal ''unknown constant tag'')"

primrec load_consts :: "nat \<Rightarrow> u8 \<Rightarrow> u8 list \<Rightarrow> int \<Rightarrow> rt \<Rightarrow> (val list \<times> int \<times> rt) outcome" where
  "load_consts 0 ver data pos r = Ok ([], pos, r)"
| "load_consts (Suc n) ver data pos r =
     obind (load_const ver data pos r) (\<lambda>(v, pos1, r1).
     obind (load_consts n ver data pos1 r1) (\<lambda>(vs, pos2, r2). Ok (v # vs, pos2, r2)))"

definition load_func :: "val list \<Rightarrow> heap \<Rightarrow> u8 list \<Rightarrow> int \<Rightarrow> (func_info \<times> int) outcome" where
  "load_func consts h data pos0 =
     obind (rd_u16 data ''function name index'' pos0) (\<lambda>(nameidx, pos1).
     obind (ofail (length consts \<le> unat nameidx) ''malformed .pyro: function name index out of range'') (\<lambda>_.
     obind (rd_u32 data ''function entry'' pos1) (\<lambda>(entry, pos2).
     obind (fetch DataRange data pos2) (\<lambda>nparams.
     obind (c_int32 (pos2 + 1)) (\<lambda>pos3.
     obind (rd_u16 data ''function locals'' pos3) (\<lambda>(nlocals, pos4).
     obind (value_to_string h (consts ! unat nameidx)) (\<lambda>fname.
     Ok (\<lparr>fi_name = fname, fi_entry = entry, fi_nparams = nparams, fi_nlocals = nlocals\<rparr>, pos4))))))))"

primrec load_list :: "nat \<Rightarrow> (int \<Rightarrow> ('a \<times> int) outcome) \<Rightarrow> int \<Rightarrow> ('a list \<times> int) outcome" where
  "load_list 0 f pos = Ok ([], pos)"
| "load_list (Suc n) f pos =
     obind (f pos) (\<lambda>(x, pos1). obind (load_list n f pos1) (\<lambda>(xs, pos2). Ok (x # xs, pos2)))"

definition load_debug_entry :: "u8 list \<Rightarrow> int \<Rightarrow> (debug_entry \<times> int) outcome" where
  "load_debug_entry data pos0 =
     obind (rd_u32 data ''debug pc'' pos0) (\<lambda>(pc, pos1).
     obind (rd_u32 data ''debug line'' pos1) (\<lambda>(line, pos2).
     Ok (\<lparr>dbg_pc = pc, dbg_line = line\<rparr>, pos2)))"

definition load_debug :: "u8 \<Rightarrow> u8 list \<Rightarrow> int \<Rightarrow> (debug_entry list \<times> int) outcome" where
  "load_debug flags data pos0 =
     (if flags AND 0x02 \<noteq> 0 then
        obind (rd_u32 data ''debug entry count'' pos0) (\<lambda>(n, pos1).
        obind (need_bytes data pos1 (uint n * 8) ''debug section'') (\<lambda>_.
        load_list (unat n) (load_debug_entry data) pos1))
      else Ok ([], pos0))"

definition load_asset :: "u8 list \<Rightarrow> int \<Rightarrow> ((string \<times> string) \<times> int) outcome" where
  "load_asset data pos0 =
     obind (rd_u32 data ''asset name length'' pos0) (\<lambda>(nl, pos1).
     obind (rd_block data ''asset name'' nl pos1) (\<lambda>(name, pos2).
     obind (rd_u32 data ''asset data length'' pos2) (\<lambda>(dl, pos3).
     obind (rd_block data ''asset data'' dl pos3) (\<lambda>(blob, pos4).
     Ok ((chars name, chars blob), pos4)))))"

definition load_assets :: "u8 \<Rightarrow> u8 list \<Rightarrow> int \<Rightarrow> rt \<Rightarrow> (int \<times> rt) outcome" where
  "load_assets flags data pos0 r =
     (if flags AND 0x08 \<noteq> 0 then
        obind (rd_u32 data ''asset count'' pos0) (\<lambda>(n, pos1).
        obind (need_bytes data pos1 (uint n * 8) ''asset table'') (\<lambda>_.
        obind (load_list (unat n) (load_asset data) pos1) (\<lambda>(xs, pos2).
        Ok (pos2, fold (\<lambda>(name, blob). pyro_asset_add name blob) xs r))))
      else Ok (pos0, r))"

definition load_permissions ::
  "(string \<Rightarrow> rt \<Rightarrow> rt outcome) \<Rightarrow> u8 \<Rightarrow> u8 list \<Rightarrow> int \<Rightarrow> rt \<Rightarrow> (int \<times> rt) outcome"
where
  "load_permissions set_policy flags data pos0 r =
     (if flags AND 0x10 \<noteq> 0 then
        obind (rd_u32 data ''permissions length'' pos0) (\<lambda>(n, pos1).
        obind (rd_block data ''permissions section'' n pos1) (\<lambda>(spec, pos2).
        obind (set_policy (c_str (chars spec)) r) (\<lambda>r'. Ok (pos2, r'))))
      else Ok (pos0, r))"

definition check_entries :: "func_info list \<Rightarrow> 32 word \<Rightarrow> unit outcome" where
  "check_entries fs codelen =
     ofail (list_ex (\<lambda>f. codelen < fi_entry f) fs)
       ''malformed .pyro: function entry point past the end of the code''"

definition magic :: "u8 list" where
  "magic = [0x50, 0x59, 0x52, 0x4F]"

definition load_program ::
  "(string \<Rightarrow> rt \<Rightarrow> rt outcome) \<Rightarrow> u8 list \<Rightarrow> rt \<Rightarrow> (program \<times> rt) outcome"
where
  "load_program set_policy data r0 =
     obind (ofail (length data < 6 \<or> take 4 data \<noteq> magic) ''invalid .pyro file (magic)'') (\<lambda>_.
     let ver = data ! 4; flags = data ! 5
     in obind (ofail (ver \<noteq> 2 \<and> ver \<noteq> 3) ''unsupported .pyro version (expected v2 or v3)'') (\<lambda>_.
        obind (rd_u16 data ''constant count'' 6) (\<lambda>(nconsts, pos1).
        obind (need_bytes data pos1 (uint nconsts) ''constant table'') (\<lambda>_.
        obind (load_consts (unat nconsts) ver data pos1 r0) (\<lambda>(consts, pos2, r1).
        obind (rd_u16 data ''function count'' pos2) (\<lambda>(nfuncs, pos3).
        obind (need_bytes data pos3 (uint nfuncs * 9) ''function table'') (\<lambda>_.
        obind (load_list (unat nfuncs) (load_func consts (heap r1) data) pos3) (\<lambda>(funcs, pos4).
        obind (rd_u16 data ''entry function'' pos4) (\<lambda>(entryFn, pos5).
        obind (ofail (nfuncs \<le> entryFn) ''malformed .pyro: entry function index out of range'') (\<lambda>_.
        obind (rd_u32 data ''code length'' pos5) (\<lambda>(codelen, pos6).
        obind (rd_block data ''code section'' codelen pos6) (\<lambda>(code, pos7).
        let code' = (if flags AND 0x01 \<noteq> 0 then xor_decode code else code)
        in obind (load_debug flags data pos7) (\<lambda>(dbg, pos8).
           obind (load_assets flags data pos8 r1) (\<lambda>(pos9, r2).
           obind (load_permissions set_policy flags data pos9 r2) (\<lambda>(pos10, r3).
           obind (check_entries funcs codelen) (\<lambda>_.
           Ok (\<lparr>p_consts = consts, p_funcs = funcs, p_entryFn = entryFn, p_code = code',
                p_codelen = codelen, p_dbg = dbg, p_sandboxed = (flags AND 0x04 \<noteq> 0)\<rparr>, r3)))))))))))))))))"

section \<open>Reading stays inside the file\<close>

definition safely :: "('a \<Rightarrow> bool) \<Rightarrow> 'a outcome \<Rightarrow> bool" where
  \<comment> \<open>no undefined behaviour, and a result satisfies \<open>P\<close>\<close>
  "safely P m \<longleftrightarrow> (case m of Ok x \<Rightarrow> P x | Fatal e \<Rightarrow> True | UB u \<Rightarrow> False | Diverge \<Rightarrow> True)"

named_theorems safely_intros \<open>reads that stay inside the file\<close>

lemma safely_simps [simp]:
  "safely P (Ok x) \<longleftrightarrow> P x" "safely P (Fatal e)" "safely P Diverge" "\<not> safely P (UB u)"
  "safely Q (oguard b u) \<longleftrightarrow> b \<and> Q ()" "safely Q (ofail b e) \<longleftrightarrow> b \<or> Q ()"
  by (auto simp: safely_def oguard_def ofail_def)

lemma safely_obind: "safely P m \<Longrightarrow> (\<And>x. m = Ok x \<Longrightarrow> P x \<Longrightarrow> safely Q (f x)) \<Longrightarrow> safely Q (obind m f)"
  by (cases m) (auto simp: safely_def)

lemma safely_mono: "safely P m \<Longrightarrow> (\<And>x. m = Ok x \<Longrightarrow> P x \<Longrightarrow> Q x) \<Longrightarrow> safely Q m"
  by (cases m) (auto simp: safely_def)

lemma safely_Ok: "safely P m \<Longrightarrow> m = Ok x \<Longrightarrow> P x"
  by (simp add: safely_def)

lemma safely_defined: "safely P m \<Longrightarrow> defined m"
  by (cases m) (auto simp: safely_def)

lemma safelyI: "\<exists>x. m = Ok x \<and> P x \<Longrightarrow> safely P m"
  by auto

definition small :: "u8 list \<Rightarrow> bool" where
  "small data \<longleftrightarrow> int (length data) < 2 ^ 31"

definition at :: "u8 list \<Rightarrow> int \<Rightarrow> bool" where
  "at data pos \<longleftrightarrow> 0 \<le> pos \<and> pos \<le> int (length data)"

definition by_n :: "u8 list \<Rightarrow> int \<Rightarrow> int \<Rightarrow> 'a \<times> int \<Rightarrow> bool" where
  \<comment> \<open>the read advanced by \<open>n\<close> and is still inside\<close>
  "by_n data pos n x \<longleftrightarrow> snd x = pos + n \<and> snd x \<le> int (length data)"

lemma small_i32: "small data \<Longrightarrow> at data pos \<Longrightarrow> in_i32 pos"
  by (simp add: small_def at_def in_i32_def)

lemma need_bytes_Ok: "need_bytes data pos n what = Ok u \<longleftrightarrow> 0 \<le> pos \<and> pos \<le> int (length data) \<and> pos + n \<le> int (length data)"
  by (auto simp: need_bytes_def Let_def)

lemma safely_need_bytes [safely_intros]:
  "safely (\<lambda>_. 0 \<le> pos \<and> pos \<le> int (length data) \<and> pos + n \<le> int (length data)) (need_bytes data pos n what)"
  by (auto simp: need_bytes_def Let_def)

lemma safely_rd_u8:
  assumes "small data" shows "safely (by_n data pos 1) (rd_u8 data what pos)"
  unfolding rd_u8_def
  by (rule safely_obind [OF safely_need_bytes])
     (use assms in \<open>auto simp: fetch_total c_int32_def in_i32_def small_def by_n_def\<close>)

lemma safely_rd_u16:
  assumes "small data" shows "safely (by_n data pos 2) (rd_u16 data what pos)"
  unfolding rd_u16_def
proof (rule safely_obind [OF safely_need_bytes])
  assume "0 \<le> pos \<and> pos \<le> int (length data) \<and> pos + 2 \<le> int (length data)"
  with assms read_u16_total [of pos data DataRange] show "safely (by_n data pos 2) (read_u16 DataRange data pos)"
    by (auto simp: small_def in_i32_def by_n_def)
qed

lemma safely_rd_u32:
  assumes "small data" shows "safely (by_n data pos 4) (rd_u32 data what pos)"
  unfolding rd_u32_def
proof (rule safely_obind [OF safely_need_bytes])
  assume "0 \<le> pos \<and> pos \<le> int (length data) \<and> pos + 4 \<le> int (length data)"
  with assms read_u32_total [of pos data DataRange] show "safely (by_n data pos 4) (read_u32 DataRange data pos)"
    by (auto simp: small_def in_i32_def by_n_def)
qed

lemma safely_read_u64:
  assumes "small data" "0 \<le> pos" "pos + 8 \<le> int (length data)"
  shows "safely (by_n data pos 8) (read_u64 DataRange data pos)"
  using assms read_u64_total [of pos data DataRange] by (auto simp: small_def in_i32_def by_n_def)

lemma sint_small: "uint (w :: 32 word) < 2 ^ 31 \<Longrightarrow> sint w = uint w"
proof -
  assume "uint w < 2 ^ 31"
  then have "signed_take_bit 31 (uint w) = uint w"
  proof (intro signed_take_bit_int_eq_self)
    show "- (2 ^ 31) \<le> uint w" by (rule order_trans [OF _ uint_ge_0]) simp
  qed
  then show ?thesis by (simp add: sint_uint)
qed

lemma safely_rd_block:
  assumes "small data"
  shows "safely (\<lambda>x. by_n data pos (uint len) x \<and> int (length (fst x)) = uint len) (rd_block data what len pos)"
  unfolding rd_block_def
proof (rule safely_obind [OF safely_need_bytes])
  assume a: "0 \<le> pos \<and> pos \<le> int (length data) \<and> pos + uint len \<le> int (length data)"
  then have "uint len < 2 ^ 31" using assms by (simp add: small_def)
  then have s: "sint len = uint len" by (rule sint_small)
  have i: "in_i32 (pos + uint len)"
  proof -
    have "0 \<le> pos + uint len" using a by (intro add_nonneg_nonneg uint_ge_0) simp
    then have "- (2 ^ 31) \<le> pos + uint len" by (rule order_trans [rotated]) simp
    moreover have "pos + uint len < 2 ^ 31" using a assms by (simp add: small_def)
    ultimately show ?thesis by (simp only: in_i32_def)
  qed
  have l: "int (length (take (unat len) (drop (nat pos) data))) = uint len"
  proof -
    have "nat pos + unat len \<le> length data" using a unfolding uint_nat by linarith
    then have "length (take (unat len) (drop (nat pos) data)) = unat len" by simp
    then show ?thesis by simp
  qed
  have g: "0 \<le> pos" using a by blast
  have le: "pos + uint len \<le> int (length data)" using a by blast
  show "safely (\<lambda>x. by_n data pos (uint len) x \<and> int (length (fst x)) = uint len)
     (obind (oguard (0 \<le> pos \<and> pos + uint len \<le> int (length data)) DataRange) (\<lambda>_.
      obind (c_int32 (pos + sint len)) (\<lambda>pos'. Ok (take (unat len) (drop (nat pos) data), pos'))))"
    by (simp only: g s obind.simps oguard_simps c_int32_def i if_True safely_simps by_n_def fst_conv snd_conv l le simp_thms)
qed

section \<open>Constants and functions\<close>

definition const_ok :: "heap \<Rightarrow> val \<Rightarrow> bool" where
  "const_ok h v = (case v of
       VInt i \<Rightarrow> True | VFloat f \<Rightarrow> True | VBool b \<Rightarrow> True
     | VStr a \<Rightarrow> (case deref_str h a of Ok s \<Rightarrow> True | _ \<Rightarrow> False)
     | _ \<Rightarrow> False)"

definition grows :: "heap \<Rightarrow> heap \<Rightarrow> bool" where
  "grows h h' \<longleftrightarrow> (\<exists>cs. h' = h @ cs)"

lemma grows_trans: "grows h h' \<Longrightarrow> grows h' h'' \<Longrightarrow> grows h h''"
  by (auto simp: grows_def)

lemma const_ok_grows: "grows h h' \<Longrightarrow> const_ok h v \<Longrightarrow> const_ok h' v"
  by (auto simp: grows_def const_ok_def deref_str_def deref_def hget_def nth_append
      split: val.splits option.splits if_splits)

lemma const_to_string: "const_ok h v \<Longrightarrow> \<exists>s. value_to_string h v = Ok s"
  by (auto simp: const_ok_def value_to_string_def split: val.splits outcome.splits)

text \<open>
  What loading a constant promises: it ends inside the file, the heap only grows, the value is one a
  constant can be, and it owns what it holds.
\<close>

definition const_post :: "u8 list \<Rightarrow> val list \<Rightarrow> rt \<Rightarrow> val \<times> int \<times> rt \<Rightarrow> bool" where
  "const_post data R r x = (case x of (v, pos, r') \<Rightarrow>
     at data pos \<and> grows (heap r) (heap r') \<and> const_ok (heap r') v \<and> rc_sound (v # R) (heap r'))"

lemma rc_sound_unboxed: "val_addr v = None \<Longrightarrow> rc_sound (v # R) h = rc_sound R h"
  by (simp add: rc_sound_def rc_inv_Cons_None)

lemma by_n_at: "by_n data pos n x \<Longrightarrow> at data pos \<Longrightarrow> 0 \<le> n \<Longrightarrow> at data (snd x)"
  by (simp add: by_n_def at_def)

lemma val_str_post:
  assumes "rc_sound R (heap r)" "val_str t (heap r) = (v, h)" "at data pos"
  shows "const_post data R r (v, pos, r\<lparr>heap := h\<rparr>)"
proof -
  have v: "v = VStr (length (heap r))" "h = heap r @ [Some \<lparr>rc = 1, cbody = BStr t\<rparr>]"
    using assms(2) by (auto simp: val_str_def new_rc_string_def halloc_def)
  have "rc_sound (v # R) h"
    by (rule alloc_sound [of "BStr t" R "heap r" "length (heap r)"])
       (use assms(1) v in \<open>auto simp: halloc_def\<close>)
  moreover have "const_ok h v" by (simp add: const_ok_def v deref_str_def)
  ultimately show ?thesis using assms(3) by (simp add: const_post_def grows_def v)
qed

lemma safely_load_const:
  assumes sm: "small data" and pos: "at data pos0" and R: "rc_sound R (heap r)"
  shows "safely (const_post data R r) (load_const ver data pos0 r)"
  unfolding load_const_def
proof (rule safely_obind [OF safely_rd_u8 [OF sm]], clarify)
  fix tag :: u8 and pos assume "by_n data pos0 1 (tag, pos)"
  with pos have pos: "at data pos" using by_n_at by fastforce
  have unboxed: "const_post data R r (v, q, r)" if "at data q" "val_addr v = None" "const_ok (heap r) v" for v q
    using that R by (simp add: const_post_def grows_def rc_sound_unboxed)
  have word: "safely (const_post data R r) (obind (need_bytes data pos 8 what) (\<lambda>_.
       obind (read_u64 DataRange data pos) (\<lambda>(i, pos'). Ok (K i, pos', r))))"
    if "\<And>i. val_addr (K i) = None" "\<And>i. const_ok (heap r) (K i)" for what K
  proof (rule safely_obind [OF safely_need_bytes], rule safely_obind [OF safely_read_u64 [OF sm]], simp, simp)
    fix x :: "64 word \<times> int" assume "by_n data pos 8 x"
    with unboxed [OF by_n_at [OF _ pos], of 8 x "K (fst x)"] that show "safely (const_post data R r) (case x of (i, pos') \<Rightarrow> Ok (K i, pos', r))"
      by (simp add: case_prod_beta)
  qed
  have bool: "safely (const_post data R r) (obind (rd_u8 data ''bool constant'' pos) (\<lambda>(b, pos'). Ok (VBool (b \<noteq> 0), pos', r)))"
  proof (rule safely_obind [OF safely_rd_u8 [OF sm]])
    fix x :: "u8 \<times> int" assume "by_n data pos 1 x"
    with unboxed [OF by_n_at [OF _ pos], of 1 x "VBool (fst x \<noteq> 0)"]
    show "safely (const_post data R r) (case x of (b, pos') \<Rightarrow> Ok (VBool (b \<noteq> 0), pos', r))"
      by (simp add: case_prod_beta const_ok_def)
  qed
  have len: "safely (\<lambda>x. at data (snd x)) (if 3 \<le> ver then rd_u32 data ''string length'' pos
      else obind (rd_u16 data ''string length'' pos) (\<lambda>(w, pos'). Ok (ucast w, pos')))"
  proof (cases "3 \<le> ver")
    case True
    have "safely (\<lambda>x. at data (snd x)) (rd_u32 data ''string length'' pos)"
      by (rule safely_mono [OF safely_rd_u32 [OF sm]]) (auto intro: by_n_at [OF _ pos])
    with True show ?thesis by simp
  next
    case False
    have "safely (\<lambda>x. at data (snd x)) (obind (rd_u16 data ''string length'' pos) (\<lambda>(w, pos'). Ok (ucast w :: 32 word, pos')))"
      by (rule safely_obind [OF safely_rd_u16 [OF sm]]) (use by_n_at [OF _ pos, of 2] in \<open>auto split: prod.split\<close>)
    with False show ?thesis by simp
  qed
  have str: "safely (const_post data R r) (obind (if 3 \<le> ver then rd_u32 data ''string length'' pos
      else obind (rd_u16 data ''string length'' pos) (\<lambda>(w, pos'). Ok (ucast w, pos'))) (\<lambda>(len, pos1).
       obind (rd_block data ''string constant'' len pos1) (\<lambda>(bs, pos2).
       let (v, h) = val_str (chars bs) (heap r) in Ok (v, pos2, r\<lparr>heap := h\<rparr>))))"
  proof (rule safely_obind [OF len], clarify, rule safely_obind [OF safely_rd_block [OF sm]], clarify)
    fix l pos1 bs pos2 assume "at data (snd (l :: 32 word, pos1))" "by_n data pos1 (uint l) (bs :: u8 list, pos2)"
    then have "at data pos2" using by_n_at [of data pos1 "uint l" "(bs, pos2)"] by simp
    then show "safely (const_post data R r) (let (v, h) = val_str (chars bs) (heap r) in Ok (v, pos2, r\<lparr>heap := h\<rparr>))"
      using val_str_post [OF R] by (auto split: prod.split)
  qed
  show "safely (const_post data R r) (if tag = 1 then
       obind (need_bytes data pos 8 ''int constant'') (\<lambda>_.
       obind (read_u64 DataRange data pos) (\<lambda>(i, pos'). Ok (VInt i, pos', r)))
     else if tag = 2 then
       obind (need_bytes data pos 8 ''float constant'') (\<lambda>_.
       obind (read_u64 DataRange data pos) (\<lambda>(f, pos'). Ok (VFloat f, pos', r)))
     else if tag = 3 then
       obind (if 3 \<le> ver then rd_u32 data ''string length'' pos
              else obind (rd_u16 data ''string length'' pos) (\<lambda>(w, pos'). Ok (ucast w, pos'))) (\<lambda>(len, pos1).
       obind (rd_block data ''string constant'' len pos1) (\<lambda>(bs, pos2).
       let (v, h) = val_str (chars bs) (heap r) in Ok (v, pos2, r\<lparr>heap := h\<rparr>)))
     else if tag = 4 then
       obind (rd_u8 data ''bool constant'' pos) (\<lambda>(b, pos'). Ok (VBool (b \<noteq> 0), pos', r))
     else Fatal ''unknown constant tag'')"
    using word [of VInt] word [of VFloat] str bool by (simp add: const_ok_def)
qed

lemma safely_load_consts:
  assumes sm: "small data"
  shows "at data pos \<Longrightarrow> rc_sound R (heap r) \<Longrightarrow>
    safely (\<lambda>(vs, pos', r'). at data pos' \<and> grows (heap r) (heap r') \<and> length vs = n \<and>
              list_all (const_ok (heap r')) vs \<and> rc_sound (rev vs @ R) (heap r'))
      (load_consts n ver data pos r)"
proof (induction n arbitrary: pos r R)
  case 0
  then show ?case by (simp add: grows_def)
next
  case (Suc n)
  show ?case
    unfolding load_consts.simps
  proof (rule safely_obind [OF safely_load_const [OF sm Suc.prems]], clarify)
    fix v pos1 r1 assume "const_post data R r (v, pos1, r1)"
    then have v: "at data pos1" "grows (heap r) (heap r1)" "const_ok (heap r1) v" "rc_sound (v # R) (heap r1)"
      by (simp_all add: const_post_def)
    show "safely (\<lambda>(vs, pos', r'). at data pos' \<and> grows (heap r) (heap r') \<and> length vs = Suc n \<and>
              list_all (const_ok (heap r')) vs \<and> rc_sound (rev vs @ R) (heap r'))
        (obind (load_consts n ver data pos1 r1) (\<lambda>(vs, pos2, r2). Ok (v # vs, pos2, r2)))"
      by (rule safely_obind [OF Suc.IH [OF v(1,4)]])
         (use v in \<open>auto intro: grows_trans const_ok_grows\<close>)
  qed
qed

lemma rd_u16_spec:
  "small data \<Longrightarrow> 0 \<le> pos \<Longrightarrow> pos + 2 \<le> int (length data) \<Longrightarrow> \<exists>w. rd_u16 data what pos = Ok (w, pos + 2)"
  using read_u16_total [of pos data DataRange] need_bytes_Ok [of data pos 2 what "()"]
  by (auto simp: rd_u16_def small_def in_i32_def)

lemma rd_u32_spec:
  "small data \<Longrightarrow> 0 \<le> pos \<Longrightarrow> pos + 4 \<le> int (length data) \<Longrightarrow> \<exists>w. rd_u32 data what pos = Ok (w, pos + 4)"
  using read_u32_total [of pos data DataRange] need_bytes_Ok [of data pos 4 what "()"]
  by (auto simp: rd_u32_def small_def in_i32_def)

lemma safely_load_func:
  assumes sm: "small data" and pos: "0 \<le> pos" "pos + 9 \<le> int (length data)"
    and cs: "list_all (const_ok h) consts"
  shows "safely (\<lambda>x. snd x = pos + 9) (load_func consts h data pos)"
proof -
  obtain nameidx where n: "rd_u16 data ''function name index'' pos = Ok (nameidx, pos + 2)"
    using rd_u16_spec [OF sm pos(1)] pos(2) by fastforce
  obtain e where e: "rd_u32 data ''function entry'' (pos + 2) = Ok (e, pos + 2 + 4)"
    using rd_u32_spec [OF sm, of "pos + 2"] pos by fastforce
  obtain l where l: "rd_u16 data ''function locals'' (pos + 7) = Ok (l, pos + 7 + 2)"
    using rd_u16_spec [OF sm, of "pos + 7"] pos by fastforce
  have f: "\<exists>b. fetch DataRange data (pos + 6) = Ok b" "c_int32 (pos + 7) = Ok (pos + 7)"
    using sm pos by (simp_all add: fetch_total small_def c_int32_def in_i32_def)
  show ?thesis
  proof (cases "unat nameidx < length consts")
    case True
    with cs have "const_ok h (consts ! unat nameidx)" by (simp add: list_all_length)
    then obtain s where "value_to_string h (consts ! unat nameidx) = Ok s" using const_to_string by blast
    with True n e l f show ?thesis by (auto simp: load_func_def add.commute c_int32_def)
  next
    case False
    with n show ?thesis by (simp add: load_func_def)
  qed
qed

lemma safely_load_list:
  fixes f :: "int \<Rightarrow> ('a \<times> int) outcome"
  assumes step: "\<And>pos. 0 \<le> pos \<Longrightarrow> pos + k \<le> lim \<Longrightarrow> safely (\<lambda>x. snd x = pos + k) (f pos)" and k: "0 \<le> k"
  shows "0 \<le> pos \<Longrightarrow> pos + int n * k \<le> lim \<Longrightarrow>
    safely (\<lambda>x. snd x = pos + int n * k \<and> length (fst x) = n) (load_list n f pos)"
proof (induction n arbitrary: pos)
  case (Suc n)
  have split: "int (Suc n) * k = k + int n * k" by (simp add: distrib_right)
  have "0 \<le> int n * k" using k by simp
  with Suc.prems split have lim: "pos + k \<le> lim" "pos + k + int n * k \<le> lim" by linarith+
  show ?case
    unfolding load_list.simps
  proof (rule safely_obind [OF step [OF Suc.prems(1) lim(1)]], clarify)
    fix x :: 'a and pos1 assume "snd (x, pos1) = pos + k"
    then have pos1: "pos1 = pos + k" by simp
    have "0 \<le> pos + k" using Suc.prems(1) k by simp
    note IH = Suc.IH [OF this lim(2)]
    show "safely (\<lambda>x. snd x = pos + int (Suc n) * k \<and> length (fst x) = Suc n)
        (obind (load_list n f pos1) (\<lambda>(xs, pos2). Ok (x # xs, pos2)))"
      unfolding pos1 split by (rule safely_obind [OF IH]) auto
  qed
qed simp

lemma safely_load_debug_entry:
  assumes "small data" "0 \<le> pos" "pos + 8 \<le> int (length data)"
  shows "safely (\<lambda>x. snd x = pos + 8) (load_debug_entry data pos)"
  using rd_u32_spec [OF assms(1,2), of "''debug pc''"] rd_u32_spec [OF assms(1), of "pos + 4" "''debug line''"] assms
  by (auto simp: load_debug_entry_def)

lemma safely_load_debug:
  assumes sm: "small data" and pos: "at data pos"
  shows "safely (\<lambda>x. at data (snd x)) (load_debug flags data pos)"
proof (cases "flags AND 2 \<noteq> 0")
  case True
  have "safely (\<lambda>x. at data (snd x)) (obind (rd_u32 data ''debug entry count'' pos) (\<lambda>(n, pos1).
        obind (need_bytes data pos1 (uint n * 8) ''debug section'') (\<lambda>_.
        load_list (unat n) (load_debug_entry data) pos1)))"
  proof (rule safely_obind [OF safely_rd_u32 [OF sm]], clarify, rule safely_obind [OF safely_need_bytes])
    fix n :: "32 word" and pos1
    assume "by_n data pos 4 (n, pos1)" and a: "0 \<le> pos1 \<and> pos1 \<le> int (length data) \<and> pos1 + uint n * 8 \<le> int (length data)"
    then have "safely (\<lambda>x. snd x = pos1 + int (unat n) * 8 \<and> length (fst x) = unat n)
        (load_list (unat n) (load_debug_entry data) pos1)"
      by (intro safely_load_list [where lim = "int (length data)"] safely_load_debug_entry [OF sm]) auto
    then show "safely (\<lambda>x. at data (snd x)) (load_list (unat n) (load_debug_entry data) pos1)"
      by (rule safely_mono) (use a in \<open>auto simp: at_def\<close>)
  qed
  with True show ?thesis by (simp add: load_debug_def)
qed (use pos in \<open>simp add: load_debug_def\<close>)

text \<open>Lists whose entries have no fixed size: each read still ends inside the file.\<close>

lemma safely_load_list_at:
  fixes f :: "int \<Rightarrow> ('a \<times> int) outcome"
  assumes step: "\<And>pos. at data pos \<Longrightarrow> safely (\<lambda>x. at data (snd x)) (f pos)"
  shows "at data pos \<Longrightarrow> safely (\<lambda>x. at data (snd x)) (load_list n f pos)"
proof (induction n arbitrary: pos)
  case (Suc n)
  show ?case
    unfolding load_list.simps
  proof (rule safely_obind [OF step [OF Suc.prems]], clarify)
    fix x :: 'a and pos1 assume "at data (snd (x, pos1))"
    then have "at data pos1" by simp
    then show "safely (\<lambda>x. at data (snd x)) (obind (load_list n f pos1) (\<lambda>(xs, pos2). Ok (x # xs, pos2)))"
      by (rule safely_obind [OF Suc.IH]) auto
  qed
qed simp

lemma safely_rd_u32_at: "small data \<Longrightarrow> at data pos \<Longrightarrow> safely (\<lambda>x. at data (snd x)) (rd_u32 data what pos)"
  by (rule safely_mono [OF safely_rd_u32]) (auto intro: by_n_at)

lemma safely_rd_u16_at: "small data \<Longrightarrow> at data pos \<Longrightarrow> safely (\<lambda>x. at data (snd x)) (rd_u16 data what pos)"
  by (rule safely_mono [OF safely_rd_u16]) (auto intro: by_n_at)

lemma safely_rd_block_at:
  "small data \<Longrightarrow> at data pos \<Longrightarrow> safely (\<lambda>x. at data (snd x) \<and> int (length (fst x)) = uint len \<and>
     length (fst x) \<le> length data) (rd_block data what len pos)"
  by (rule safely_mono [OF safely_rd_block]) (auto simp: by_n_def at_def)

lemma safely_load_asset:
  assumes sm: "small data" and pos: "at data pos"
  shows "safely (\<lambda>x. at data (snd x)) (load_asset data pos)"
  unfolding load_asset_def
  by (rule safely_obind [OF safely_rd_u32_at [OF sm pos]], clarify,
      rule safely_obind [OF safely_rd_block_at [OF sm]], simp, clarify,
      rule safely_obind [OF safely_rd_u32_at [OF sm]], simp, clarify,
      rule safely_obind [OF safely_rd_block_at [OF sm]], simp) auto

lemma fold_assets_heap [simp]: "heap (fold (\<lambda>(name, blob). pyro_asset_add name blob) xs r) = heap r"
  by (induction xs arbitrary: r) (auto simp: pyro_asset_add_def)

lemma safely_load_assets:
  assumes sm: "small data" and pos: "at data pos"
  shows "safely (\<lambda>x. at data (fst x) \<and> heap (snd x) = heap r) (load_assets flags data pos r)"
proof (cases "flags AND 8 \<noteq> 0")
  case True
  have "safely (\<lambda>x. at data (fst x) \<and> heap (snd x) = heap r) (obind (rd_u32 data ''asset count'' pos) (\<lambda>(n, pos1).
        obind (need_bytes data pos1 (uint n * 8) ''asset table'') (\<lambda>_.
        obind (load_list (unat n) (load_asset data) pos1) (\<lambda>(xs, pos2).
        Ok (pos2, fold (\<lambda>(name, blob). pyro_asset_add name blob) xs r)))))"
    by (rule safely_obind [OF safely_rd_u32_at [OF sm pos]], clarify, rule safely_obind [OF safely_need_bytes],
        rule safely_obind [OF safely_load_list_at [OF safely_load_asset [OF sm]]], assumption, simp) auto
  with True show ?thesis by (simp add: load_assets_def)
qed (use pos in \<open>simp add: load_assets_def\<close>)

lemma safely_load_permissions:
  assumes sm: "small data" and pos: "at data pos"
    and set: "\<And>spec r. safely (\<lambda>r'. heap r' = heap r) (set_policy spec r)"
  shows "safely (\<lambda>x. heap (snd x) = heap r) (load_permissions set_policy flags data pos r)"
proof (cases "flags AND 16 \<noteq> 0")
  case True
  have "safely (\<lambda>x. heap (snd x) = heap r) (obind (rd_u32 data ''permissions length'' pos) (\<lambda>(n, pos1).
        obind (rd_block data ''permissions section'' n pos1) (\<lambda>(spec, pos2).
        obind (set_policy (c_str (chars spec)) r) (\<lambda>r'. Ok (pos2, r')))))"
    by (rule safely_obind [OF safely_rd_u32_at [OF sm pos]], clarify,
        rule safely_obind [OF safely_rd_block_at [OF sm]], simp, clarify,
        rule safely_obind [OF set]) auto
  with True show ?thesis by (simp add: load_permissions_def)
qed (use pos in \<open>simp add: load_permissions_def\<close>)

section \<open>The loader as a whole\<close>

text \<open>
  On any file below 2 GiB the loader either stops with a message or returns a program the engine may
  run, together with a heap in which the constants own what they point to.
\<close>

definition load_post :: "u8 list \<Rightarrow> val list \<Rightarrow> program \<times> rt \<Rightarrow> bool" where
  "load_post data R x = (case x of (p, r') \<Rightarrow>
     prog_ok p \<and> rc_sound (rev (p_consts p) @ R) (heap r') \<and> list_all (const_ok (heap r')) (p_consts p))"

lemma safely_load_program:
  assumes sm: "small data" and R: "rc_sound R (heap r0)"
    and set: "\<And>spec r. safely (\<lambda>r'. heap r' = heap r) (set_policy spec r)"
  shows "safely (load_post data R) (load_program set_policy data r0)"
proof -
  let ?flags = "data ! 5" and ?ver = "data ! 4"
  have tail: "safely (load_post data R) (obind (load_debug ?flags data pos7) (\<lambda>(dbg, pos8).
           obind (load_assets ?flags data pos8 r1) (\<lambda>(pos9, r2).
           obind (load_permissions set_policy ?flags data pos9 r2) (\<lambda>(pos10, r3).
           obind (check_entries funcs codelen) (\<lambda>_.
           Ok (\<lparr>p_consts = consts, p_funcs = funcs, p_entryFn = entryFn, p_code = code,
                p_codelen = codelen, p_dbg = dbg, p_sandboxed = (?flags AND 0x04 \<noteq> 0)\<rparr>, r3))))))"
    if "at data pos7" "rc_sound (rev consts @ R) (heap r1)" "list_all (const_ok (heap r1)) consts"
      "int (length code) = uint codelen" "int (length code) < 2 ^ 31" "unat entryFn < length funcs"
    for pos7 r1 funcs codelen "consts" entryFn code
  proof -
    have fin: "safely (load_post data R) (obind (check_entries funcs codelen) (\<lambda>_.
           Ok (\<lparr>p_consts = consts, p_funcs = funcs, p_entryFn = entryFn, p_code = code,
                p_codelen = codelen, p_dbg = dbg, p_sandboxed = (?flags AND 0x04 \<noteq> 0)\<rparr>, r3)))"
      if h: "heap r3 = heap r1" for dbg r3
    proof (cases "list_ex (\<lambda>f. codelen < fi_entry f) funcs")
      case False
      then have "list_all (\<lambda>f. fi_entry f \<le> codelen) funcs" by (auto simp: list_ex_iff list_all_iff not_less)
      with \<open>rc_sound (rev consts @ R) (heap r1)\<close> \<open>list_all (const_ok (heap r1)) consts\<close>
        \<open>int (length code) = uint codelen\<close> \<open>int (length code) < 2 ^ 31\<close> \<open>unat entryFn < length funcs\<close> h False
      show ?thesis by (simp add: load_post_def prog_ok_def check_entries_def)
    qed (simp add: check_entries_def)
    show ?thesis
      by (rule safely_obind [OF safely_load_debug [OF sm that(1)]], clarify,
          rule safely_obind [OF safely_load_assets [OF sm]], simp, clarify,
          rule safely_obind [OF safely_load_permissions [OF sm _ set]], simp, clarify)
         (rule fin, simp)
  qed
  show ?thesis
  proof (cases "length data < 6 \<or> take 4 data \<noteq> magic \<or> ?ver \<noteq> 2 \<and> ?ver \<noteq> 3")
    case True
    then show ?thesis
      by (auto simp: load_program_def Let_def intro!: safely_obind [of "\<lambda>_. True"])
  next
    case False
    then have start: "at data 6" by (simp add: at_def)
    note cs = safely_load_consts [OF sm, where R = R]
    have "safely (load_post data R) (obind (rd_u16 data ''constant count'' 6) (\<lambda>(nconsts, pos1).
        obind (need_bytes data pos1 (uint nconsts) ''constant table'') (\<lambda>_.
        obind (load_consts (unat nconsts) ?ver data pos1 r0) (\<lambda>(consts, pos2, r1).
        obind (rd_u16 data ''function count'' pos2) (\<lambda>(nfuncs, pos3).
        obind (need_bytes data pos3 (uint nfuncs * 9) ''function table'') (\<lambda>_.
        obind (load_list (unat nfuncs) (load_func consts (heap r1) data) pos3) (\<lambda>(funcs, pos4).
        obind (rd_u16 data ''entry function'' pos4) (\<lambda>(entryFn, pos5).
        obind (ofail (nfuncs \<le> entryFn) ''malformed .pyro: entry function index out of range'') (\<lambda>_.
        obind (rd_u32 data ''code length'' pos5) (\<lambda>(codelen, pos6).
        obind (rd_block data ''code section'' codelen pos6) (\<lambda>(code, pos7).
        obind (load_debug ?flags data pos7) (\<lambda>(dbg, pos8).
           obind (load_assets ?flags data pos8 r1) (\<lambda>(pos9, r2).
           obind (load_permissions set_policy ?flags data pos9 r2) (\<lambda>(pos10, r3).
           obind (check_entries funcs codelen) (\<lambda>_.
           Ok (\<lparr>p_consts = consts, p_funcs = funcs, p_entryFn = entryFn,
                p_code = (if ?flags AND 0x01 \<noteq> 0 then xor_decode code else code),
                p_codelen = codelen, p_dbg = dbg, p_sandboxed = (?flags AND 0x04 \<noteq> 0)\<rparr>, r3))))))))))))))))"
    proof (rule safely_obind [OF safely_rd_u16_at [OF sm start]], clarify,
           rule safely_obind [OF safely_need_bytes],
           rule safely_obind [OF cs], simp, rule R, clarify,
           rule safely_obind [OF safely_rd_u16_at [OF sm]], assumption, clarify,
           rule safely_obind [OF safely_need_bytes])
      fix "consts" :: "val list" and pos2 :: int and r1 :: rt and nfuncs :: "16 word" and pos3 :: int
      assume c: "list_all (const_ok (heap r1)) consts" "rc_sound (rev consts @ R) (heap r1)"
        and a: "0 \<le> pos3 \<and> pos3 \<le> int (length data) \<and> pos3 + uint nfuncs * 9 \<le> int (length data)"
      have "safely (\<lambda>x. snd x = pos3 + int (unat nfuncs) * 9 \<and> length (fst x) = unat nfuncs)
          (load_list (unat nfuncs) (load_func consts (heap r1) data) pos3)"
        by (rule safely_load_list [where lim = "int (length data)"])
           (use a safely_load_func [OF sm _ _ c(1)] in auto)
      then have fs: "safely (\<lambda>x. at data (snd x) \<and> length (fst x) = unat nfuncs)
          (load_list (unat nfuncs) (load_func consts (heap r1) data) pos3)"
        by (rule safely_mono) (use a in \<open>auto simp: at_def\<close>)
      show "safely (load_post data R) (obind (load_list (unat nfuncs) (load_func consts (heap r1) data) pos3) (\<lambda>(funcs, pos4).
        obind (rd_u16 data ''entry function'' pos4) (\<lambda>(entryFn, pos5).
        obind (ofail (nfuncs \<le> entryFn) ''malformed .pyro: entry function index out of range'') (\<lambda>_.
        obind (rd_u32 data ''code length'' pos5) (\<lambda>(codelen, pos6).
        obind (rd_block data ''code section'' codelen pos6) (\<lambda>(code, pos7).
        obind (load_debug ?flags data pos7) (\<lambda>(dbg, pos8).
           obind (load_assets ?flags data pos8 r1) (\<lambda>(pos9, r2).
           obind (load_permissions set_policy ?flags data pos9 r2) (\<lambda>(pos10, r3).
           obind (check_entries funcs codelen) (\<lambda>_.
           Ok (\<lparr>p_consts = consts, p_funcs = funcs, p_entryFn = entryFn,
                p_code = (if ?flags AND 0x01 \<noteq> 0 then xor_decode code else code),
                p_codelen = codelen, p_dbg = dbg, p_sandboxed = (?flags AND 0x04 \<noteq> 0)\<rparr>, r3)))))))))))"
      proof (rule safely_obind [OF fs], clarify,
             rule safely_obind [OF safely_rd_u16_at [OF sm]], simp, clarify,
             rule safely_obind [where P = "\<lambda>_. True"], simp,
             rule safely_obind [OF safely_rd_u32_at [OF sm]], simp, clarify,
             rule safely_obind [OF safely_rd_block_at [OF sm]], simp, clarify, rule tail)
      qed (use c sm in \<open>auto simp: small_def word_less_nat_alt not_le\<close>)
    qed
    moreover have "ofail (length data < 6 \<or> take 4 data \<noteq> magic) m = Ok ()" "ofail (?ver \<noteq> 2 \<and> ?ver \<noteq> 3) m = Ok ()" for m
      using False by (auto simp: ofail_def)
    ultimately show ?thesis by (simp only: load_program_def Let_def obind.simps)
  qed
qed

end
