(* ===== verification/Strings.thy ===== *)
theory Strings
  imports Runtime
begin

text \<open>
  The string algorithms behind the builtins (\<open>native\<close>, \<open>native_pad\<close>, \<open>split_str\<close>, \<open>pyro_unhex\<close> of
  \<open>vm/pyro_runtime.c\<close>) and the C library functions they use, on byte strings without NUL. The
  output buffers are large enough in every case except \<open>repeat\<close>, whose size is computed modulo
  \<open>2 ^ 64\<close>, so only there the buffer is part of the model.
\<close>

section \<open>Characters and searching\<close>

definition code :: "char \<Rightarrow> nat" where
  "code c = of_char c"

definition isspace :: "char \<Rightarrow> bool" where
  "isspace c \<longleftrightarrow> c = CHR '' '' \<or> (9 \<le> code c \<and> code c \<le> 13)"

definition isdigit :: "char \<Rightarrow> bool" where
  "isdigit c \<longleftrightarrow> 48 \<le> code c \<and> code c \<le> 57"

definition toupper :: "char \<Rightarrow> char" where
  "toupper c = (if 97 \<le> code c \<and> code c \<le> 122 then char_of (code c - 32) else c)"

definition tolower :: "char \<Rightarrow> char" where
  "tolower c = (if 65 \<le> code c \<and> code c \<le> 90 then char_of (code c + 32) else c)"

fun strstr :: "string \<Rightarrow> string \<Rightarrow> nat option" where
  \<comment> \<open>the offset of the first occurrence\<close>
  "strstr s pat =
     (if take (length pat) s = pat then Some 0
      else case s of [] \<Rightarrow> None | c # cs \<Rightarrow> map_option Suc (strstr cs pat))"

declare strstr.simps [simp del]

section \<open>Builtins on one string\<close>

definition str_trim :: "string \<Rightarrow> string" where
  "str_trim s = rev (dropWhile isspace (rev (dropWhile isspace s)))"

function str_replace :: "string \<Rightarrow> string \<Rightarrow> string \<Rightarrow> string" where
  "str_replace s old new =
     (if old = [] then concat (map (\<lambda>c. new @ [c]) s) @ new
      else case strstr s old of
             None \<Rightarrow> s
           | Some i \<Rightarrow> take i s @ new @ str_replace (drop (i + length old) s) old new)"
  by pat_completeness auto

lemma strstr_Some: "strstr s pat = Some i \<Longrightarrow> i + length pat \<le> length s \<and> take (length pat) (drop i s) = pat"
proof (induction s pat arbitrary: i rule: strstr.induct)
  case (1 s pat)
  show ?case
  proof (cases "take (length pat) s = pat")
    case True
    then have "length pat \<le> length s" by (metis length_take min.cobounded1)
    with True 1 show ?thesis by (subst (asm) (2) strstr.simps) simp
  next
    case False
    with 1 show ?thesis by (subst (asm) (2) strstr.simps) (auto split: list.splits)
  qed
qed

termination str_replace
proof (relation "measure (\<lambda>(s, old, new). length s)")
  fix s old new :: string and i assume "old \<noteq> []" "strstr s old = Some i"
  with strstr_Some [of s old i] show "((drop (i + length old) s, old, new), s, old, new) \<in> measure (\<lambda>(s, old, new). length s)"
    by (cases old) auto
qed simp

declare str_replace.simps [simp del]

definition str_substr :: "string \<Rightarrow> int \<Rightarrow> int \<Rightarrow> string outcome" where
  "str_substr s i0 n =
     (let len = int (length s);
          i1 = (if i0 < 0 then 0 else i0);
          i = (if len < i1 then len else i1)
      in obind (c_i64 (i + n)) (\<lambda>_.
         let end0 = i + n; stop = (if n < 0 \<or> len < end0 then len else end0)
         in Ok (take (nat (stop - i)) (drop (nat i) s))))"

definition str_slice :: "string \<Rightarrow> int \<Rightarrow> int \<Rightarrow> string outcome" where
  \<comment> \<open>\<open>s + st\<close> with a negative \<open>st\<close> points before the buffer\<close>
  "str_slice s st0 en0 =
     (let n = int (length s);
          st1 = (if st0 < 0 then 0 else st0);
          en = (if n < en0 then n else en0);
          st = (if en < st1 then en else st1)
      in obind (oguard (0 \<le> st) StringRange) (\<lambda>_. Ok (take (nat (en - st)) (drop (nat st) s))))"

definition str_repeat :: "string \<Rightarrow> int \<Rightarrow> string outcome" where
  \<comment> \<open>\<open>malloc(sl * (size_t)n + 1)\<close>, computed in \<open>size_t\<close>, then \<open>n\<close> copies\<close>
  "str_repeat s n0 =
     (let n = (if n0 < 0 then 0 else n0);
          total = int (length s) * n;
          room = (total + 1) mod 2 ^ 64
      in obind (oguard (total < room) BufferOverflow) (\<lambda>_. Ok (concat (replicate (nat n) s))))"

definition native_pad :: "string \<Rightarrow> int \<Rightarrow> string \<Rightarrow> bool \<Rightarrow> string" where
  "native_pad s width pad at_start =
     (if width \<le> sint (word_of_int (int (length s)) :: 32 word) \<or> pad = [] then s
      else let need = nat (width - int (length s));
               fill = map (\<lambda>i. pad ! (i mod length pad)) [0..<need]
           in if at_start then fill @ s else s @ fill)"

section \<open>Splitting\<close>

definition utf8_len :: "char \<Rightarrow> nat" where
  \<comment> \<open>the length the first byte announces\<close>
  "utf8_len c =
     (let b = word_of_nat (code c) :: 8 word
      in if b AND 0xE0 = 0xC0 then 2 else if b AND 0xF0 = 0xE0 then 3 else if b AND 0xF8 = 0xF0 then 4 else 1)"

definition char_len :: "string \<Rightarrow> nat" where
  "char_len s = (let n = utf8_len (hd s) in if length s < n then 1 else n)"

lemma utf8_len_pos: "0 < utf8_len c"
  by (simp add: utf8_len_def Let_def)

lemma char_len_pos: "0 < char_len s"
  using utf8_len_pos by (simp add: char_len_def Let_def)

function split_chars :: "string \<Rightarrow> string list" where
  "split_chars s = (if s = [] then [] else take (char_len s) s # split_chars (drop (char_len s) s))"
  by pat_completeness auto
termination
  by (relation "measure length") (use char_len_pos in auto)

declare split_chars.simps [simp del]

function split_on :: "string \<Rightarrow> string \<Rightarrow> string list" where
  "split_on s sep =
     (if sep = [] then [s]
      else case strstr s sep of
             None \<Rightarrow> [s]
           | Some i \<Rightarrow> take i s # split_on (drop (i + length sep) s) sep)"
  by pat_completeness auto
termination
proof (relation "measure (\<lambda>(s, sep). length s)")
  fix s sep :: string and i assume "sep \<noteq> []" "strstr s sep = Some i"
  with strstr_Some [of s sep i] show "((drop (i + length sep) s, sep), s, sep) \<in> measure (\<lambda>(s, sep). length s)"
    by (cases sep) auto
qed simp

declare split_on.simps [simp del]

definition split_str :: "string \<Rightarrow> string \<Rightarrow> string list" where
  "split_str s sep = (if sep = [] then split_chars s else split_on s sep)"

section \<open>URL encoding\<close>

definition pyro_unhex :: "char \<Rightarrow> int" where
  "pyro_unhex c =
     (if 48 \<le> code c \<and> code c \<le> 57 then int (code c) - 48
      else if 97 \<le> code c \<and> code c \<le> 102 then int (code c) - 97 + 10
      else if 65 \<le> code c \<and> code c \<le> 70 then int (code c) - 65 + 10
      else -1)"

fun url_decode :: "string \<Rightarrow> string" where
  "url_decode [] = []"
| "url_decode (c # cs) =
     (if c = CHR ''+'' then CHR '' '' # url_decode cs
      else case cs of
          h # l # ds \<Rightarrow>
            if c = CHR ''%'' \<and> 0 \<le> pyro_unhex h \<and> 0 \<le> pyro_unhex l
            then char_of (nat (pyro_unhex h * 16 + pyro_unhex l)) # url_decode ds
            else c # url_decode cs
        | _ \<Rightarrow> c # url_decode cs)"

definition unreserved :: "char \<Rightarrow> bool" where
  "unreserved c \<longleftrightarrow> (97 \<le> code c \<and> code c \<le> 122) \<or> (65 \<le> code c \<and> code c \<le> 90) \<or>
     (48 \<le> code c \<and> code c \<le> 57) \<or> c \<in> {CHR ''-'', CHR ''_'', CHR ''.'', CHR ''~''}"

definition hexd :: "nat \<Rightarrow> char" where
  "hexd d = ''0123456789ABCDEF'' ! d"

definition url_encode :: "string \<Rightarrow> string" where
  "url_encode s =
     concat (map (\<lambda>c. if unreserved c then [c] else [CHR ''%'', hexd (code c div 16), hexd (code c mod 16)]) s)"

section \<open>Searching, splitting and replacing\<close>

lemma strstr_None: "strstr s pat = None \<Longrightarrow> take (length pat) (drop i s) \<noteq> pat \<or> (pat = [] \<and> False)"
proof (induction s pat arbitrary: i rule: strstr.induct)
  case (1 s pat)
  from 1(2) have ne: "take (length pat) s \<noteq> pat"
    by (subst (asm) strstr.simps) (auto split: if_splits)
  show ?case
  proof (cases s)
    case Nil
    with ne show ?thesis by simp
  next
    case (Cons c cs)
    with ne 1(2) have "strstr cs pat = None"
      by (subst (asm) strstr.simps) auto
    with 1(1) [OF ne Cons] ne Cons show ?thesis by (cases i) auto
  qed
qed

lemma strstr_first: "strstr s pat = Some i \<Longrightarrow> j < i \<Longrightarrow> take (length pat) (drop j s) \<noteq> pat"
proof (induction s pat arbitrary: i j rule: strstr.induct)
  case (1 s pat)
  from 1(2,3) have ne: "take (length pat) s \<noteq> pat"
    by (subst (asm) strstr.simps) (auto split: if_splits)
  with 1(2) obtain c cs k where s: "s = c # cs" "strstr cs pat = Some k" "i = Suc k"
    by (subst (asm) strstr.simps) (auto split: list.splits)
  with 1(1) [OF ne s(1) s(2)] 1(3) ne show ?case by (cases j) auto
qed

lemma split_on_not_Nil [simp]: "split_on s sep \<noteq> []"
  by (subst split_on.simps) (auto split: option.splits)

lemma join_split_on: "join_with sep (split_on s sep) = s"
proof (induction s sep rule: split_on.induct)
  case (1 s sep)
  show ?case
  proof (cases "sep = []")
    case True
    then show ?thesis by (subst split_on.simps) simp
  next
    case sep: False
    show ?thesis
    proof (cases "strstr s sep")
      case None
      with sep show ?thesis by (subst split_on.simps) simp
    next
      case (Some i)
      have "take i s @ sep @ drop (i + length sep) s = s"
        using strstr_Some [OF Some] append_take_drop_id [of i s] append_take_drop_id [of "length sep" "drop i s"]
        by (simp add: add.commute)
      with 1 [OF sep Some] sep Some show ?thesis by (subst split_on.simps) simp
    qed
  qed
qed

lemma split_on_pieces: "sep \<noteq> [] \<Longrightarrow> p \<in> set (split_on s sep) \<Longrightarrow> strstr p sep = None"
proof (induction s sep rule: split_on.induct)
  case (1 s sep)
  show ?case
  proof (cases "strstr s sep")
    case None
    with 1(2,3) show ?thesis by (subst (asm) split_on.simps) simp
  next
    case (Some i)
    have "strstr (take i s) sep = None"
    proof (rule ccontr)
      assume "strstr (take i s) sep \<noteq> None"
      then obtain j where j: "strstr (take i s) sep = Some j" by auto
      from strstr_Some [OF j] have at: "j + length sep \<le> i" "take (length sep) (drop j s) = sep"
        by (auto simp: drop_take min_def split: if_splits)
      with strstr_first [OF Some, of j] 1(2) show False by (cases sep) auto
    qed
    with 1 Some show ?thesis by (subst (asm) (2) split_on.simps) auto
  qed
qed

lemma replace_split: "old \<noteq> [] \<Longrightarrow> str_replace s old new = join_with new (split_on s old)"
proof (induction s old new rule: str_replace.induct)
  case (1 s old new)
  then show ?case
    by (subst str_replace.simps, subst split_on.simps) (auto split: option.splits)
qed

lemma concat_split_chars: "concat (split_chars s) = s"
  by (induction s rule: split_chars.induct) (subst split_chars.simps, simp)

lemma split_chars_pieces: "p \<in> set (split_chars s) \<Longrightarrow> 1 \<le> length p \<and> length p \<le> 4"
proof (induction s rule: split_chars.induct)
  case (1 s)
  have "char_len s \<le> 4" "char_len s \<le> length s \<or> char_len s = 1"
    by (auto simp: char_len_def utf8_len_def Let_def)
  with 1 char_len_pos [of s] show ?case
    by (subst (asm) (2) split_chars.simps) (auto simp: min_def Suc_le_eq split: if_splits)
qed

section \<open>Properties\<close>

theorem split_join_replace:
  assumes "sep \<noteq> []"
  shows "join_with sep (split_str s sep) = s \<and> (\<forall>p \<in> set (split_str s sep). strstr p sep = None) \<and>
    str_replace s sep new = join_with new (split_str s sep) \<and> concat (split_str s []) = s"
  using assms join_split_on [of sep s] split_on_pieces [of sep _ s] replace_split [of sep s new] concat_split_chars [of s]
  by (simp add: split_str_def)

theorem split_join_replace_witness:
  "str_replace ''a, b'' '', '' ''-'' = join_with ''-'' (split_str ''a, b'' '', '')"
  using split_join_replace [of "'', ''" "''a, b''" "''-''"] by simp

lemma code_less: "code c < 256"
  by (simp add: code_def)

lemma hex_digits:
  "d < 16 \<Longrightarrow> pyro_unhex (hexd d) = int d"
proof -
  assume "d < 16"
  moreover have "\<forall>d \<in> {0..<16}. pyro_unhex (hexd d) = int d" by code_simp
  ultimately show ?thesis by auto
qed

lemma url_encode_Cons: "url_encode (c # s) =
    (if unreserved c then [c] else [CHR ''%'', hexd (code c div 16), hexd (code c mod 16)]) @ url_encode s"
  by (simp add: url_encode_def)

lemma url_decode_plain: "c \<noteq> CHR ''+'' \<Longrightarrow> c \<noteq> CHR ''%'' \<Longrightarrow> url_decode (c # cs) = c # url_decode cs"
  by (cases cs; cases "tl cs") auto

theorem url_decode_encode:
  "url_decode (url_encode s) = s"
proof (induction s)
  case (Cons c s)
  show ?case
  proof (cases "unreserved c")
    case True
    moreover have "\<not> unreserved (CHR ''+'')" "\<not> unreserved (CHR ''%'')" by (simp_all add: unreserved_def code_def)
    ultimately have "c \<noteq> CHR ''+''" "c \<noteq> CHR ''%''" by auto
    from url_decode_plain [OF this] True Cons show ?thesis by (simp add: url_encode_Cons)
  next
    case False
    have d: "code c div 16 < 16" "code c mod 16 < 16" using code_less [of c] by auto
    have "nat (int (code c div 16) * 16 + int (code c mod 16)) = code c"
      using div_mult_mod_eq [of "code c" 16] by (metis nat_int of_nat_add of_nat_mult of_nat_numeral)
    moreover have "char_of (code c) = c" by (simp add: code_def)
    ultimately show ?thesis
      using False Cons hex_digits [OF d(1)] hex_digits [OF d(2)] by (simp add: url_encode_Cons)
  qed
qed (simp add: url_encode_def)

theorem str_repeat_overflow:
  "str_repeat s n =
    (if int (length s) * max 0 n mod 2 ^ 64 = 2 ^ 64 - 1 \<or> 2 ^ 64 \<le> int (length s) * max 0 n then UB BufferOverflow
     else Ok (concat (replicate (nat n) s)))"
proof -
  have key: "(t < (t + 1) mod 2 ^ 64) = (\<not> (t mod 2 ^ 64 = 2 ^ 64 - 1 \<or> 2 ^ 64 \<le> t))" if "0 \<le> t" for t :: int
  proof (cases "t < 2 ^ 64 - 1")
    case True
    with that show ?thesis by (simp add: mod_pos_pos_trivial)
  next
    case False
    then consider "t = 2 ^ 64 - 1" | "2 ^ 64 \<le> t" by linarith
    then show ?thesis
    proof cases
      case 2
      have "(t + 1) mod 2 ^ 64 < 2 ^ 64" by simp
      with 2 show ?thesis by simp
    qed simp
  qed
  let ?t = "int (length s) * max 0 n"
  have m: "(if n < 0 then 0 else n) = max 0 n" "nat (max 0 n) = nat n" by auto
  have "0 \<le> ?t" by simp
  note key = key [OF this]
  show ?thesis
    by (cases "?t < (?t + 1) mod 2 ^ 64")
       (use key in \<open>simp_all only: str_repeat_def Let_def m oguard_def obind.simps if_True if_False simp_thms\<close>)
qed

end
