(* ===== verification/Policy.thy ===== *)
theory Policy
  imports Strings "HOL-Library.Sublist"
begin

text \<open>
  The capability policy (\<open>cap_*\<close>, \<open>policy_parse\<close> of \<open>vm/pyro_runtime.c\<close>): the parser of
  \<open>PYRO_POLICY\<close> and of the permissions embedded in a program, the path normalisation, and the gates
  the natives call before they touch files, the network, processes or the environment. The current
  directory is an argument. Fixed buffers cut what is copied into them, as \<open>snprintf\<close> does.

  \<open>resolve\<close> is the specification of the path check, without buffers; the check refines it as long
  as nothing is cut, and \<open>long_path_escapes_root\<close> shows what happens beyond. \<open>policy_text\<close> writes a
  policy in the syntax the parser reads.
\<close>

section \<open>Strings\<close>

definition blank :: "char \<Rightarrow> bool" where
  "blank c \<longleftrightarrow> c = CHR '' '' \<or> c = CHR 0x09"

definition cap_trim :: "string \<Rightarrow> string" where
  "cap_trim s = rev (dropWhile blank (rev (dropWhile blank s)))"

fun cap_ieq :: "string \<Rightarrow> string \<Rightarrow> bool" where
  "cap_ieq (a # as) (b # bs) = (if tolower a \<noteq> tolower b then False else cap_ieq as bs)"
| "cap_ieq as bs = (as = bs)"

definition cap_listed :: "string list \<Rightarrow> string \<Rightarrow> bool" where
  "cap_listed l want = list_ex (\<lambda>x. x = ''*'' \<or> cap_ieq x want) l"

function cap_tokens :: "char \<Rightarrow> string \<Rightarrow> string list" where
  \<comment> \<open>the results of \<open>cap_next\<close> until it returns \<open>NULL\<close>\<close>
  "cap_tokens sep s =
     (if s = [] then []
      else takeWhile (\<lambda>c. c \<noteq> sep) s # cap_tokens sep (drop 1 (dropWhile (\<lambda>c. c \<noteq> sep) s)))"
  by pat_completeness auto
termination
proof (relation "measure (\<lambda>(sep, s). length s)")
  fix sep :: char and s :: string assume "s \<noteq> []"
  then have "length (drop 1 (dropWhile (\<lambda>c. c \<noteq> sep) s)) < length s"
    using length_dropWhile_le [of "\<lambda>c. c \<noteq> sep" s] by (cases s) (auto simp del: length_dropWhile_le)
  then show "((sep, drop 1 (dropWhile (\<lambda>c. c \<noteq> sep) s)), (sep, s)) \<in> measure (\<lambda>(sep, s). length s)" by simp
qed simp

declare cap_tokens.simps [simp del]

section \<open>Path normalisation\<close>

definition is_slash :: "char \<Rightarrow> bool" where
  "is_slash c \<longleftrightarrow> c = CHR ''/'' \<or> c = CHR 0x5C"

definition path_absolute :: "string \<Rightarrow> bool" where
  "path_absolute p = (case p of [] \<Rightarrow> False | c # cs \<Rightarrow> is_slash c \<or> (cs \<noteq> [] \<and> hd cs = CHR '':''))"

definition fold_slash :: "char \<Rightarrow> char" where
  "fold_slash c = (if c = CHR 0x5C then CHR ''/'' else c)"

definition path_split :: "string \<Rightarrow> string list" where
  \<comment> \<open>the maximal runs of characters other than \<open>/\<close>\<close>
  "path_split s = filter (\<lambda>t. t \<noteq> []) (cap_tokens (CHR ''/'') s)"

definition seg_step :: "string list \<Rightarrow> string \<Rightarrow> string list" where
  \<comment> \<open>one segment on the stack \<open>seg[0..nseg)\<close>, newest first\<close>
  "seg_step segs t =
     (if t = ''.'' then segs
      else if t = ''..'' then tl segs
      else if int (length segs) < 256 then t # segs
      else segs)"

definition cap_abs :: "string \<Rightarrow> string \<Rightarrow> string" where
  "cap_abs cwd path =
     (let joined = map fold_slash (take 4095 (if path_absolute path then path else cwd @ ''/'' @ path));
          drive = (1 < length joined \<and> joined ! 1 = CHR '':'');
          prefix = (if drive then take 2 joined else []);
          body = (if drive then drop 2 joined else joined);
          segs = rev (foldl seg_step [] (path_split body))
      in if segs = [] then prefix @ ''/''
         else take 4095 (prefix @ concat (map (\<lambda>t. CHR ''/'' # t) segs)))"

definition strip_slash :: "string \<Rightarrow> string" where
  "strip_slash r = (if r \<noteq> [] \<and> last r = CHR ''/'' then butlast r else r)"

definition under_root :: "string \<Rightarrow> string \<Rightarrow> bool" where
  "under_root root p =
     (take (length root) p = root \<and> (length p = length root \<or> (length root < length p \<and> p ! length root = CHR ''/'')))"

definition cap_path_allowed :: "string \<Rightarrow> string list \<Rightarrow> string \<Rightarrow> bool" where
  "cap_path_allowed cwd roots target =
     (let p = cap_abs cwd target
      in list_ex (\<lambda>r. r = ''*'' \<or> under_root (strip_slash (cap_abs cwd r)) p) roots)"

section \<open>The gates\<close>

definition policy_active :: "rt \<Rightarrow> bool" where
  "policy_active r \<longleftrightarrow> pol_active (env_policy r) \<or> pol_active (artifact_policy r)"

definition cap_denied :: "rt \<Rightarrow> string \<Rightarrow> string \<Rightarrow> string \<Rightarrow> unit outcome" where
  "cap_denied r what capability subject =
     Fatal (take 1023
       (if \<not> policy_active r then ''[Cryo Security] Sandbox: '' @ what @ '' blocked by sandbox policy''
        else ''[Cryo Security] Sandbox: '' @ what @ '' denied for '' @ subject @ '' '' @
             map char_of [0xE2, 0x80, 0x94 :: nat] @ '' grant it with '' @ capability @ ''='' @ subject @
             '' in PYRO_POLICY''))"

definition cap_both :: "rt \<Rightarrow> (policy \<Rightarrow> bool) \<Rightarrow> bool" where
  \<comment> \<open>every active policy allows, and there is one\<close>
  "cap_both r allows =
     (list_all (\<lambda>p. pol_active p \<longrightarrow> allows p) [env_policy r, artifact_policy r] \<and> policy_active r)"

definition cap_both_paths :: "string \<Rightarrow> rt \<Rightarrow> (policy \<Rightarrow> string list) \<Rightarrow> string \<Rightarrow> bool" where
  "cap_both_paths cwd r sel path = cap_both r (\<lambda>p. cap_path_allowed cwd (sel p) path)"

definition cap_both_listed :: "rt \<Rightarrow> (policy \<Rightarrow> string list) \<Rightarrow> string \<Rightarrow> bool" where
  "cap_both_listed r sel want = cap_both r (\<lambda>p. cap_listed (sel p) want)"

definition ungated :: "rt \<Rightarrow> bool" where
  "ungated r \<longleftrightarrow> \<not> sandboxed r \<and> \<not> policy_active r"

definition cap_fs :: "string \<Rightarrow> bool \<Rightarrow> string \<Rightarrow> string \<Rightarrow> rt \<Rightarrow> unit outcome" where
  "cap_fs cwd rd path what r =
     (if ungated r then Ok ()
      else if \<not> cap_both_paths cwd r (if rd then pol_fsread else pol_fswrite) path
           then cap_denied r what (if rd then ''fs.read'' else ''fs.write'') path
      else Ok ())"

fun after_scheme :: "string \<Rightarrow> string option" where
  \<comment> \<open>what follows the first \<open>://\<close>\<close>
  "after_scheme [] = None"
| "after_scheme (c # cs) = (if take 3 (c # cs) = ''://'' then Some (drop 2 cs) else after_scheme cs)"

definition cap_host_of :: "string \<Rightarrow> string" where
  "cap_host_of url =
     (let p = (case after_scheme url of None \<Rightarrow> url | Some q \<Rightarrow> q)
      in take 511 (takeWhile (\<lambda>c. c \<noteq> CHR ''/'' \<and> c \<noteq> CHR '':'') p))"

definition cap_net :: "string \<Rightarrow> string \<Rightarrow> rt \<Rightarrow> unit outcome" where
  "cap_net target what r =
     (if ungated r then Ok ()
      else let host0 = cap_host_of target; host = (if host0 = [] then take 511 target else host0)
           in if \<not> cap_both_listed r pol_net host then cap_denied r what ''net'' host else Ok ())"

definition base_name :: "string \<Rightarrow> string" where
  \<comment> \<open>what follows the last separator\<close>
  "base_name s = rev (takeWhile (\<lambda>c. \<not> is_slash c) (rev s))"

definition cap_exec :: "string \<Rightarrow> string \<Rightarrow> rt \<Rightarrow> unit outcome" where
  "cap_exec cmd what r =
     (if ungated r then Ok ()
      else let base = base_name (take 511 (takeWhile (\<lambda>c. c \<noteq> CHR '' '') cmd))
           in if \<not> cap_both_listed r pol_exec base then cap_denied r what ''exec'' base else Ok ())"

definition cap_env :: "string \<Rightarrow> string \<Rightarrow> rt \<Rightarrow> unit outcome" where
  "cap_env name what r =
     (if ungated r then Ok ()
      else if \<not> cap_both_listed r pol_env name then cap_denied r what ''env'' name else Ok ())"

section \<open>The parser\<close>

definition cap_add :: "string \<Rightarrow> string list \<Rightarrow> string list" where
  "cap_add x l = l @ [x]"

definition add_items :: "string \<Rightarrow> string list \<Rightarrow> string list" where
  \<comment> \<open>the inner loop over the comma-separated items\<close>
  "add_items items l =
     foldl (\<lambda>l it. let v = cap_trim it in if v = [] then l else cap_add v l) l (cap_tokens (CHR '','') items)"

definition unknown_cap :: "string \<Rightarrow> string" where
  "unknown_cap key = take 255 (''PYRO_POLICY: unknown capability '' @ [CHR 0x27] @ key @ [CHR 0x27] @
     '' (known: fs.read, fs.write, net, exec, env)'')"

definition policy_clause :: "string \<Rightarrow> policy \<Rightarrow> policy outcome" where
  "policy_clause raw p =
     (let clause = cap_trim raw
      in if clause = [] then Ok p
         else if CHR ''='' \<notin> set clause then Fatal ''PYRO_POLICY: expected key=value in clause''
         else let key = cap_trim (takeWhile (\<lambda>c. c \<noteq> CHR ''='') clause);
                  items = drop 1 (dropWhile (\<lambda>c. c \<noteq> CHR ''='') clause)
              in if key = ''fs.read'' then Ok (p\<lparr>pol_fsread := add_items items (pol_fsread p)\<rparr>)
                 else if key = ''fs.write'' then Ok (p\<lparr>pol_fswrite := add_items items (pol_fswrite p)\<rparr>)
                 else if key = ''net'' then Ok (p\<lparr>pol_net := add_items items (pol_net p)\<rparr>)
                 else if key = ''exec'' then Ok (p\<lparr>pol_exec := add_items items (pol_exec p)\<rparr>)
                 else if key = ''env'' then Ok (p\<lparr>pol_env := add_items items (pol_env p)\<rparr>)
                 else Fatal (unknown_cap key))"

definition policy_parse :: "string \<Rightarrow> policy \<Rightarrow> policy outcome" where
  "policy_parse spec p = ofold policy_clause (cap_tokens (CHR '';'') spec) (p\<lparr>pol_active := True\<rparr>)"

definition pyro_policy_init :: "string \<Rightarrow> rt \<Rightarrow> rt outcome" where
  \<comment> \<open>\<open>PYRO_POLICY\<close>; unset is the empty string\<close>
  "pyro_policy_init spec r =
     (if spec = [] then Ok r
      else obind (policy_parse spec (env_policy r)) (\<lambda>p. Ok (r\<lparr>env_policy := p, sandboxed := True\<rparr>)))"

definition pyro_policy_artifact :: "string \<Rightarrow> rt \<Rightarrow> rt outcome" where
  "pyro_policy_artifact spec r =
     (if spec = [] then Ok r
      else obind (policy_parse spec (artifact_policy r)) (\<lambda>p. Ok (r\<lparr>artifact_policy := p, sandboxed := True\<rparr>)))"

section \<open>Tokens and segments\<close>

lemma cap_tokens_Nil [simp]: "cap_tokens sep [] = []"
  by (simp add: cap_tokens.simps)

lemma cap_tokens_no_sep: "sep \<notin> set s \<Longrightarrow> s \<noteq> [] \<Longrightarrow> cap_tokens sep s = [s]"
proof -
  assume s: "sep \<notin> set s" "s \<noteq> []"
  then have "takeWhile (\<lambda>c. c \<noteq> sep) s = s" "dropWhile (\<lambda>c. c \<noteq> sep) s = []" by auto
  with s(2) show ?thesis by (subst cap_tokens.simps) (simp del: dropWhile_eq_Nil_conv takeWhile_eq_all_conv)
qed

lemma cap_tokens_cons:
  assumes "sep \<notin> set t"
  shows "cap_tokens sep (t @ sep # s) = t # cap_tokens sep s"
proof -
  have "takeWhile (\<lambda>c. c \<noteq> sep) (t @ sep # s) = t" "dropWhile (\<lambda>c. c \<noteq> sep) (t @ sep # s) = sep # s"
    using assms by (induction t) auto
  then show ?thesis by (subst cap_tokens.simps) simp
qed

lemma cap_tokens_join:
  assumes "\<forall>t \<in> set ts. sep \<notin> set t" "ts \<noteq> [] \<longrightarrow> last ts \<noteq> []"
  shows "cap_tokens sep (join_with [sep] ts) = ts"
  using assms
proof (induction ts)
  case (Cons t ts)
  then show ?case by (auto simp: cap_tokens_no_sep cap_tokens_cons)
qed simp

lemma cap_tokens_sep: "t \<in> set (cap_tokens sep s) \<Longrightarrow> sep \<notin> set t"
proof (induction sep s rule: cap_tokens.induct)
  case (1 sep s)
  then show ?case by (subst (asm) (2) cap_tokens.simps) (auto split: if_splits dest: set_takeWhileD)
qed

definition seg_ok :: "string \<Rightarrow> bool" where
  "seg_ok t \<longleftrightarrow> t \<noteq> [] \<and> CHR ''/'' \<notin> set t"

definition plain :: "string \<Rightarrow> bool" where
  \<comment> \<open>a segment of a normalised path\<close>
  "plain t \<longleftrightarrow> seg_ok t \<and> t \<noteq> ''.'' \<and> t \<noteq> ''..''"

definition path_text :: "string list \<Rightarrow> string" where
  "path_text ts = concat (map (\<lambda>t. CHR ''/'' # t) ts)"

lemma path_text_simps [simp]:
  "path_text [] = []" "path_text (t # ts) = CHR ''/'' # t @ path_text ts"
  by (simp_all add: path_text_def)

lemma path_split_ok: "t \<in> set (path_split s) \<Longrightarrow> seg_ok t"
  using cap_tokens_sep by (auto simp: path_split_def seg_ok_def)

lemma path_split_Nil [simp]: "path_split [] = []"
  by (simp add: path_split_def)

lemma path_split_Cons_slash [simp]: "path_split (CHR ''/'' # s) = path_split s"
  using cap_tokens_cons [of "CHR ''/''" "[]" s] by (simp add: path_split_def)

lemma path_split_seg: "seg_ok t \<Longrightarrow> path_split (t @ CHR ''/'' # s) = t # path_split s"
  by (simp add: path_split_def seg_ok_def cap_tokens_cons)

lemma path_split_one: "seg_ok t \<Longrightarrow> path_split t = [t]"
  by (simp add: path_split_def seg_ok_def cap_tokens_no_sep)

lemma path_split_text: "\<forall>t \<in> set ts. seg_ok t \<Longrightarrow> path_split (path_text ts) = ts"
proof (induction ts)
  case (Cons t ts)
  then show ?case by (cases ts) (simp_all add: path_split_one path_split_seg)
qed (simp add: path_split_def)

lemma path_split_text_slash: "\<forall>t \<in> set ts. seg_ok t \<Longrightarrow> path_split (path_text ts @ CHR ''/'' # s) = ts @ path_split s"
proof (induction ts)
  case (Cons t ts)
  then show ?case by (cases ts) (simp_all add: path_split_seg)
qed simp

lemma length_path_split: "length (path_text (path_split s)) \<le> Suc (length s)"
proof (induction "CHR ''/''" s rule: cap_tokens.induct)
  case (1 s)
  let ?P = "\<lambda>c. c \<noteq> CHR ''/''"
  show ?case
  proof (cases "s = []")
    case False
    let ?t = "takeWhile ?P s" and ?r = "drop 1 (dropWhile ?P s)"
    have len: "length s = length ?t + length (dropWhile ?P s)"
      by (metis length_append takeWhile_dropWhile_id)
    have parts: "path_split s = (if ?t = [] then path_split ?r else ?t # path_split ?r)"
      using False by (simp add: path_split_def cap_tokens.simps [of _ s])
    show ?thesis
    proof (cases "dropWhile ?P s")
      case Nil
      then have "?t = s" using takeWhile_dropWhile_id [of ?P s] by simp
      with Nil show ?thesis by (simp add: parts del: dropWhile_eq_Nil_conv takeWhile_eq_all_conv)
    next
      case (Cons c cs)
      then show ?thesis using len 1 [OF False] by (simp add: parts)
    qed
  qed (simp add: path_split_def)
qed

section \<open>Resolution\<close>

text \<open>The reference: segments resolved without any buffer.\<close>

fun resolve_step :: "string list \<Rightarrow> string \<Rightarrow> string list" where
  "resolve_step segs t = (if t = ''.'' then segs else if t = ''..'' then tl segs else t # segs)"

definition resolve :: "string \<Rightarrow> string \<Rightarrow> string list" where
  "resolve cwd path =
     rev (foldl resolve_step [] (path_split (map fold_slash (if path_absolute path then path else cwd @ ''/'' @ path))))"

lemma foldl_seg_step:
  "length ss + length ts \<le> 256 \<Longrightarrow> foldl seg_step ss ts = foldl resolve_step ss ts"
proof (induction ts arbitrary: ss)
  case (Cons t ts)
  then show ?case by (auto simp: seg_step_def)
qed simp

lemma resolve_step_plain: "\<forall>t \<in> set ss. plain t \<Longrightarrow> seg_ok t \<Longrightarrow> \<forall>t \<in> set (resolve_step ss t). plain t"
  by (cases ss) (auto simp: plain_def)

lemma foldl_resolve_plain: "\<forall>t \<in> set ss. plain t \<Longrightarrow> \<forall>t \<in> set ts. seg_ok t \<Longrightarrow> \<forall>t \<in> set (foldl resolve_step ss ts). plain t"
proof (induction ts arbitrary: ss)
  case (Cons t ts)
  from Cons.IH [OF resolve_step_plain [of ss t]] Cons.prems show ?case by (simp del: resolve_step.simps)
qed simp

lemma foldl_resolve_length: "length (path_text (rev (foldl resolve_step ss ts))) \<le> length (path_text (rev ss)) + length (path_text ts)"
proof (induction ts arbitrary: ss)
  case (Cons t ts)
  have app: "length (path_text (xs @ ys)) = length (path_text xs) + length (path_text ys)" for xs ys
    by (simp add: path_text_def)
  have "length (path_text (rev (resolve_step ss t))) \<le> length (path_text (rev ss)) + Suc (length t)"
    by (cases ss) (auto simp: app)
  with Cons.IH [of "resolve_step ss t"] show ?case by (simp del: resolve_step.simps)
qed simp

lemma resolve_plain: "t \<in> set (resolve cwd path) \<Longrightarrow> plain t"
  using foldl_resolve_plain [of "[]"] path_split_ok by (auto simp: resolve_def)


section \<open>The code's normalisation refines the reference\<close>

definition fits :: "string \<Rightarrow> string \<Rightarrow> bool" where
  \<comment> \<open>no buffer of \<open>cap_abs\<close> cuts anything, and there is no drive letter\<close>
  "fits cwd path \<longleftrightarrow>
     (let full = (if path_absolute path then path else cwd @ ''/'' @ path)
      in length full < 4095 \<and> length (path_split (map fold_slash full)) \<le> 256 \<and>
         \<not> (1 < length full \<and> full ! 1 = CHR '':''))"

lemma fold_slash_colon: "fold_slash c = CHR '':'' \<longleftrightarrow> c = CHR '':''"
  by (simp add: fold_slash_def)

lemma cap_abs_resolve:
  assumes "fits cwd path"
  shows "cap_abs cwd path = (if resolve cwd path = [] then ''/'' else path_text (resolve cwd path))"
proof -
  let ?full = "if path_absolute path then path else cwd @ ''/'' @ path"
  let ?joined = "map fold_slash ?full"
  have len: "length ?full < 4095" and n: "length (path_split ?joined) \<le> 256"
    and drive: "\<not> (1 < length ?full \<and> ?full ! 1 = CHR '':'')"
    using assms by (auto simp only: fits_def Let_def)
  have joined: "map fold_slash (take 4095 ?full) = ?joined" using len by simp
  have drive': "\<not> (1 < length ?joined \<and> ?joined ! 1 = CHR '':'')"
  proof (cases "1 < length ?full")
    case True
    then have "?joined ! 1 = fold_slash (?full ! 1)" by (intro nth_map)
    with True drive show ?thesis by (simp only: fold_slash_colon simp_thms)
  qed simp
  have segs: "rev (foldl seg_step [] (path_split ?joined)) = resolve cwd path"
    using foldl_seg_step [of "[]" "path_split ?joined"] n by (simp only: resolve_def list.size add_0)
  have "length (path_text (resolve cwd path)) \<le> Suc (length ?joined)"
    using foldl_resolve_length [of "[]" "path_split ?joined"] length_path_split [of ?joined]
    by (simp add: resolve_def)
  then have "take 4095 (path_text (resolve cwd path)) = path_text (resolve cwd path)"
    using len by simp
  moreover have "cap_abs cwd path = (let segs = resolve cwd path in if segs = [] then ''/'' else take 4095 (path_text segs))"
    unfolding cap_abs_def joined Let_def using drive' segs
    by (simp only: if_False append_Nil path_text_def simp_thms)
  ultimately show ?thesis by (simp only: Let_def)
qed

lemma path_text_inj_last: "resolve cwd path \<noteq> [] \<Longrightarrow> last (path_text (resolve cwd path)) \<noteq> CHR ''/''"
proof -
  assume ne: "resolve cwd path \<noteq> []"
  then obtain ts t where ts: "resolve cwd path = ts @ [t]" by (metis append_butlast_last_id)
  then have "plain t" using resolve_plain [of t cwd path] by simp
  then have "t \<noteq> []" "last t \<noteq> CHR ''/''" by (auto simp: plain_def seg_ok_def) (metis last_in_set)
  then show ?thesis by (simp add: ts path_text_def)
qed

lemma strip_root: "fits cwd r \<Longrightarrow> strip_slash (cap_abs cwd r) = path_text (resolve cwd r)"
  using path_text_inj_last [of cwd r] by (simp add: cap_abs_resolve strip_slash_def)

lemma under_root_prefix:
  assumes "\<forall>t \<in> set rs. seg_ok t" "\<forall>t \<in> set ts. seg_ok t"
  shows "under_root (path_text rs) (if ts = [] then ''/'' else path_text ts) \<longleftrightarrow> prefix rs ts"
proof
  let ?p = "if ts = [] then ''/'' else path_text ts" and ?r = "path_text rs"
  have p: "path_split ?p = ts" using path_split_text [OF assms(2)] path_split_Cons_slash [of "[]"] by simp
  show "prefix rs ts" if "under_root ?r ?p"
  proof -
    from that have "?p = ?r @ drop (length ?r) ?p" "drop (length ?r) ?p = [] \<or> hd (drop (length ?r) ?p) = CHR ''/''"
      unfolding under_root_def by (metis append_take_drop_id, metis hd_drop_conv_nth drop_all order_refl)
    then consider "?p = ?r" | s where "?p = ?r @ CHR ''/'' # s"
      by (metis append_Nil2 list.collapse)
    then show ?thesis
    proof cases
      case 1
      then show ?thesis using p path_split_text [OF assms(1)] by simp
    next
      case 2
      then show ?thesis using p path_split_text_slash [OF assms(1), of s] by (metis prefixI)
    qed
  qed
  show "under_root ?r ?p" if "prefix rs ts"
  proof -
    from that obtain us where us: "ts = rs @ us" by (auto simp: prefix_def)
    show ?thesis by (cases us) (auto simp: us under_root_def path_text_def nth_append)
  qed
qed



text \<open>Beyond the buffer: the check sees the first 4095 bytes, whatever follows.\<close>

definition dots :: "nat \<Rightarrow> string" where
  "dots n = concat (replicate n ''/.'')"

lemma length_dots [simp]: "length (dots n) = 2 * n"
  by (induction n) (auto simp: dots_def)

lemma dots_Suc: "dots (Suc n) = ''/.'' @ dots n"
  by (simp add: dots_def)

lemma dots_add: "dots (m + n) = dots m @ dots n"
  by (simp add: dots_def replicate_add)

lemma path_split_dots: "path_split (dots (Suc n)) = replicate (Suc n) ''.''"
proof -
  have "dots m = path_text (replicate m ''.'')" for m
    by (simp add: dots_def path_text_def map_replicate_const [symmetric])
  then show ?thesis by (simp only:) (rule path_split_text, simp add: seg_ok_def)
qed

lemma foldl_seg_dots: "foldl seg_step ss (replicate n ''.'') = ss"
  by (induction n) (simp_all add: seg_step_def)

lemma foldl_resolve_dots: "foldl resolve_step ss (replicate n ''.'') = ss"
  by (induction n) simp_all

definition long_escape :: string where
  "long_escape = ''/data'' @ dots 2100 @ ''/../secret''"

lemma map_fold_dots: "map fold_slash (dots n) = dots n"
  by (induction n) (simp_all add: dots_Suc, simp_all add: dots_def fold_slash_def)



section \<open>The gates\<close>

lemma cap_denied_Fatal [simp]: "cap_denied r what c subject \<noteq> Ok u" "cap_denied r what c subject \<noteq> UB w"
    "cap_denied r what c subject \<noteq> Diverge"
  by (simp_all add: cap_denied_def)

definition every_policy :: "rt \<Rightarrow> (policy \<Rightarrow> bool) \<Rightarrow> bool" where
  \<comment> \<open>some policy is active, and all that are allow\<close>
  "every_policy r P \<longleftrightarrow> policy_active r \<and> (\<forall>p \<in> {env_policy r, artifact_policy r}. pol_active p \<longrightarrow> P p)"

lemma cap_both_every: "cap_both r P = every_policy r P"
  by (auto simp: cap_both_def every_policy_def)


text \<open>C40. The process gate looks at the first word of a command only: whatever follows the first space, shell operators included, does not change its verdict.\<close>

theorem cap_exec_sees_first_word:
  assumes "CHR '' '' \<notin> set bin"
  shows "cap_exec (bin @ CHR '' '' # args) what r = cap_exec bin what r"
proof -
  have "takeWhile (\<lambda>c. c \<noteq> CHR '' '') (bin @ CHR '' '' # args) = bin" "takeWhile (\<lambda>c. c \<noteq> CHR '' '') bin = bin"
    using assms by (induction bin) auto
  then show ?thesis by (simp only: cap_exec_def)
qed

theorem cap_exec_sees_first_word_witness:
  "cap_exec (''git'' @ CHR '' '' # ''status; rm -rf /'') ''exec()'' initial_rt = cap_exec ''git'' ''exec()'' initial_rt"
  by (rule cap_exec_sees_first_word) simp

section \<open>Writing a policy and parsing it\<close>

definition item_ok :: "string \<Rightarrow> bool" where
  "item_ok x \<longleftrightarrow> x \<noteq> [] \<and> CHR '','' \<notin> set x \<and> CHR '';'' \<notin> set x \<and> \<not> blank (hd x) \<and> \<not> blank (last x)"

definition clause_text :: "string \<Rightarrow> string list \<Rightarrow> string" where
  "clause_text key items = key @ ''='' @ join_with '','' items"

definition policy_text :: "policy \<Rightarrow> string" where
  "policy_text p = join_with '';'' [clause_text ''fs.read'' (pol_fsread p), clause_text ''fs.write'' (pol_fswrite p),
     clause_text ''net'' (pol_net p), clause_text ''exec'' (pol_exec p), clause_text ''env'' (pol_env p)]"

lemma cap_trim_id: "s \<noteq> [] \<Longrightarrow> \<not> blank (hd s) \<Longrightarrow> \<not> blank (last s) \<Longrightarrow> cap_trim s = s"
proof -
  assume s: "s \<noteq> []" "\<not> blank (hd s)" "\<not> blank (last s)"
  then have "dropWhile blank s = s" by (cases s) auto
  moreover have "dropWhile blank (rev s) = rev s" using s(1,3) by (cases s rule: rev_cases) auto
  ultimately show ?thesis by (simp add: cap_trim_def)
qed

lemma add_items_join: "\<forall>x \<in> set xs. item_ok x \<Longrightarrow> add_items (join_with '','' xs) l = l @ xs"
proof -
  assume ok: "\<forall>x \<in> set xs. item_ok x"
  have tokens: "cap_tokens (CHR '','') (join_with '','' xs) = xs"
    by (rule cap_tokens_join) (use ok in \<open>auto simp: item_ok_def\<close>)
  have "foldl (\<lambda>l it. let v = cap_trim it in if v = [] then l else cap_add v l) l xs = l @ xs" for l
    using ok
  proof (induction xs arbitrary: l)
    case (Cons x xs)
    then have "cap_trim x = x" "x \<noteq> []" by (auto simp: item_ok_def intro!: cap_trim_id)
    with Cons show ?case by (simp add: cap_add_def)
  qed simp
  then show ?thesis by (simp add: add_items_def tokens)
qed

lemma last_join: "xs \<noteq> [] \<Longrightarrow> \<forall>x \<in> set xs. x \<noteq> [] \<Longrightarrow> join_with sep xs \<noteq> [] \<and> last (join_with sep xs) = last (last xs)"
  by (induction xs) (auto simp: last_append)

lemma set_join: "set (join_with sep xs) \<subseteq> set sep \<union> \<Union> (set ` set xs)"
  by (induction xs) auto

lemma policy_clause_text:
  assumes key: "key \<noteq> []" "\<not> blank (hd key)" "\<not> blank (last key)" "CHR ''='' \<notin> set key"
    and ok: "\<forall>x \<in> set xs. item_ok x"
  shows "policy_clause (clause_text key xs) p =
    (if key = ''fs.read'' then Ok (p\<lparr>pol_fsread := pol_fsread p @ xs\<rparr>)
     else if key = ''fs.write'' then Ok (p\<lparr>pol_fswrite := pol_fswrite p @ xs\<rparr>)
     else if key = ''net'' then Ok (p\<lparr>pol_net := pol_net p @ xs\<rparr>)
     else if key = ''exec'' then Ok (p\<lparr>pol_exec := pol_exec p @ xs\<rparr>)
     else if key = ''env'' then Ok (p\<lparr>pol_env := pol_env p @ xs\<rparr>)
     else Fatal (unknown_cap key))"
proof -
  let ?c = "clause_text key xs"
  have "last ?c = (if xs = [] then CHR ''='' else last (last xs))"
    using last_join [of xs "'',''"] ok by (auto simp: clause_text_def item_ok_def)
  then have "\<not> blank (last ?c)" using ok by (auto simp: item_ok_def blank_def split: if_splits)
  then have trim: "cap_trim ?c = ?c" using key by (intro cap_trim_id) (auto simp: clause_text_def)
  have before: "takeWhile (\<lambda>c. c \<noteq> CHR ''='') ?c = key"
    and after: "drop 1 (dropWhile (\<lambda>c. c \<noteq> CHR ''='') ?c) = join_with '','' xs"
    using key(4) unfolding clause_text_def by (induction key) auto
  have "?c \<noteq> []" "CHR ''='' \<in> set ?c" by (simp_all add: clause_text_def)
  then show ?thesis
    unfolding policy_clause_def Let_def trim before after cap_trim_id [OF key(1-3)] add_items_join [OF ok]
    by (simp only: if_False not_True_eq_False simp_thms)
qed

text \<open>C39. Parsing a policy written in the documented syntax gives back exactly its lists and makes it active.\<close>

theorem policy_text_round_trip:
  assumes "\<forall>x \<in> set (pol_fsread p) \<union> set (pol_fswrite p) \<union> set (pol_net p) \<union> set (pol_exec p) \<union> set (pol_env p). item_ok x"
  shows "policy_parse (policy_text p) no_policy = Ok (p\<lparr>pol_active := True\<rparr>)"
proof -
  have semi: "CHR '';'' \<notin> set (join_with '','' xs)" if "\<forall>x \<in> set xs. item_ok x" for xs
    using that set_join [of "'',''" xs] by (auto simp: item_ok_def)
  note items = semi [of "pol_fsread p"] semi [of "pol_fswrite p"] semi [of "pol_net p"] semi [of "pol_exec p"] semi [of "pol_env p"]
  have tokens: "cap_tokens (CHR '';'') (policy_text p) =
    [clause_text ''fs.read'' (pol_fsread p), clause_text ''fs.write'' (pol_fswrite p),
     clause_text ''net'' (pol_net p), clause_text ''exec'' (pol_exec p), clause_text ''env'' (pol_env p)]"
    unfolding policy_text_def
    by (rule cap_tokens_join) (use assms items in \<open>simp_all add: clause_text_def\<close>)
  show ?thesis
    using assms unfolding policy_parse_def tokens
    by (simp add: policy_clause_text blank_def no_policy_def)
qed

theorem policy_text_round_trip_witness:
  "policy_parse (policy_text (no_policy\<lparr>pol_net := [''example.org'', ''a.b''], pol_fsread := [''/data'']\<rparr>)) no_policy =
     Ok (no_policy\<lparr>pol_net := [''example.org'', ''a.b''], pol_fsread := [''/data''], pol_active := True\<rparr>)"
  using policy_text_round_trip [of "no_policy\<lparr>pol_net := [''example.org'', ''a.b''], pol_fsread := [''/data'']\<rparr>"]
  by (simp add: no_policy_def item_ok_def blank_def)

lemma policy_parse_defined: "policy_parse spec p \<noteq> UB u" "policy_parse spec p \<noteq> Diverge"
proof -
  have c: "defined (policy_clause t p)" "policy_clause t p \<noteq> Diverge" for t p
    by (simp_all add: policy_clause_def Let_def)
  have "defined (ofold policy_clause ts p) \<and> ofold policy_clause ts p \<noteq> Diverge" for ts p
  proof (induction ts arbitrary: p)
    case (Cons t ts)
    with c [of t p] show ?case by (cases "policy_clause t p") auto
  qed simp
  then show "policy_parse spec p \<noteq> UB u" "policy_parse spec p \<noteq> Diverge"
    by (auto simp: policy_parse_def defined_iff)
qed

end
