(* ===== verification/Driver.thy ===== *)
theory Driver
  imports Execution Loader Policy
begin

unbundle bit_operations_syntax

text \<open>
  The whole program (\<open>main\<close> of \<open>vm/main.c\<close>): the command line, the reading of the file, the operator's
  policy and the sandbox switch, the loader with the policy of the file, the execution, and the release
  of the constants. What the process is given is the record \<open>process\<close>: its arguments, its environment
  (an unset variable is the empty string), its standard input, and for each path the size \<open>ftell\<close> tells
  and the bytes \<open>fread\<close> delivers, which may be fewer, or nothing when the file cannot be opened. A stream
  that cannot seek is outside.
\<close>

definition finish :: "program \<Rightarrow> vm \<Rightarrow> rt outcome" where
  \<comment> \<open>after \<open>run_program\<close>: the constants are released in order\<close>
  "finish p s = ofold (\<lambda>v. with_heap (release_value v)) (p_consts p) (v_rt s)"

definition configure :: "string \<Rightarrow> string \<Rightarrow> rt \<Rightarrow> rt outcome" where
  "configure policy_env sandbox_env r =
     obind (pyro_policy_init policy_env r) (\<lambda>r1.
     Ok (if sandbox_env = ''1'' then r1\<lparr>sandboxed := True\<rparr> else r1))"

definition startup :: "string list \<Rightarrow> string \<Rightarrow> rt" where
  \<comment> \<open>a process with the arguments behind the file name and its standard input\<close>
  "startup args input = initial_rt\<lparr>argv := args, inp := input\<rparr>"

definition run_and_finish :: "nat \<Rightarrow> native_fn \<Rightarrow> program \<Rightarrow> rt \<Rightarrow> rt outcome option" where
  "run_and_finish n nf p r = map_option (\<lambda>m. obind m (finish p)) (run_program n nf p r)"

definition pyro_main :: "nat \<Rightarrow> native_fn \<Rightarrow> string list \<Rightarrow> string \<Rightarrow> string \<Rightarrow> string \<Rightarrow> u8 list \<Rightarrow> rt outcome option" where
  \<comment> \<open>\<open>None\<close> when the program is still running after \<open>n\<close> instructions\<close>
  "pyro_main n nf args input policy_env sandbox_env data =
     (case obind (configure policy_env sandbox_env (startup args input)) (load_program pyro_policy_artifact data) of
        Ok (p, r) \<Rightarrow> run_and_finish n nf p r
      | Fatal m \<Rightarrow> Some (Fatal m)
      | UB u \<Rightarrow> Some (UB u)
      | Diverge \<Rightarrow> Some Diverge)"

record process =
  pr_argv :: "string list"
  pr_env :: "string \<Rightarrow> string"
  pr_input :: string
  pr_file :: "string \<Rightarrow> (nat \<times> u8 list) option"

datatype exit =
    Refused string                     \<comment> \<open>a line on \<open>stderr\<close>, and status 1\<close>
  | Ran "rt outcome option"

definition read_file_then ::
    "process \<Rightarrow> string \<Rightarrow> string \<Rightarrow> string \<Rightarrow> (string list \<Rightarrow> string \<Rightarrow> string \<Rightarrow> string \<Rightarrow> u8 list \<Rightarrow> rt outcome option) \<Rightarrow> exit" where
  \<comment> \<open>the common text of both \<open>main\<close> functions, up to their messages\<close>
  "read_file_then pr usage unreadable short_read go =
     (if length (pr_argv pr) < 2 then Refused usage
      else let path = pr_argv pr ! 1
      in case pr_file pr path of
           None \<Rightarrow> Refused (unreadable @ path)
         | Some (told, bytes) \<Rightarrow>
             if length bytes \<noteq> told then Refused short_read
             else Ran (go (drop 2 (pr_argv pr)) (pr_input pr) (pr_env pr ''PYRO_POLICY'') (pr_env pr ''PYRO_SANDBOX'') bytes))"

definition c_process :: "nat \<Rightarrow> native_fn \<Rightarrow> process \<Rightarrow> exit" where
  "c_process n nf pr =
     read_file_then pr ''[Pyro VM] usage: pyrovm program.pyro'' ''[Pyro VM] could not read: ''
       ''Fatal error: error reading file'' (pyro_main n nf)"

lemma artifact_policy_safe: "safely (\<lambda>r'. heap r' = heap r) (pyro_policy_artifact spec r)"
  using policy_parse_defined [of spec "artifact_policy r"]
  by (cases "policy_parse spec (artifact_policy r)") (auto simp: pyro_policy_artifact_def)

lemma configure_safe: "safely (\<lambda>r'. heap r' = heap r) (configure pe se r)"
  using policy_parse_defined [of pe "env_policy r"]
  by (cases "policy_parse pe (env_policy r)") (auto simp: configure_def pyro_policy_init_def)

lemma rc_sound_empty: "rc_sound [] []"
  by (simp add: heap_eval)

lemma load_is_safe:
  assumes "small data"
  shows "safely (load_post data []) (obind (configure pe se (startup args input)) (load_program pyro_policy_artifact data))"
proof (rule safely_obind [OF configure_safe])
  fix r :: rt assume "heap r = heap (startup args input)"
  then have "rc_sound [] (heap r)" using rc_sound_empty by (simp add: startup_def initial_rt_def)
  then show "safely (load_post data []) (load_program pyro_policy_artifact data r)"
    using artifact_policy_safe by (rule safely_load_program [OF assms])
qed



definition halt_file :: "u8 list" where
  \<comment> \<open>one constant, one function without locals, and the instruction \<open>opHALT\<close>\<close>
  "halt_file = [0x50, 0x59, 0x52, 0x4F, 3, 0, 1, 0, 4, 1, 1, 0, 0, 0, 0, 0, 0, 0, 0, 0, 0, 0, 0, 1, 0, 0, 0, 0]"

lemma halt_file_runs: "case pyro_main 3 no_native [] [] [] [] halt_file of Some (Ok r) \<Rightarrow> True | _ \<Rightarrow> False"
  by code_simp

text \<open>Loading and running any file below 2 GiB, with builtins that do not touch the engine, never reads outside the code section and never accesses a frame that is not there.\<close>

theorem pyro_main_stays_in_code:
  assumes "small data" "\<And>i vs r. quiet (nf i vs r)" "pyro_main n nf args input policy_env sandbox_env data = Some res"
  shows "res \<noteq> UB CodeRange \<and> res \<noteq> UB FrameRange"
proof -
  let ?load = "obind (configure policy_env sandbox_env (startup args input)) (load_program pyro_policy_artifact data)"
  note load = load_is_safe [OF assms(1), of policy_env sandbox_env args input]
  show ?thesis
  proof (cases ?load)
    case (Ok x)
    obtain p r where x: "x = (p, r)" by (cases x)
    have p: "prog_ok p" using load Ok x by (simp add: load_post_def)
    from assms(3) Ok x obtain m where m: "run_program n nf p r = Some m" "res = obind m (finish p)"
      by (auto simp: pyro_main_def run_and_finish_def)
    have "quiet m"
    proof -
      obtain s where s: "start p r = Ok s" using p by (auto simp: start_def prog_ok_def Let_def)
      show ?thesis
        by (rule run_quiet [OF p assms(2) start_state_ok [OF p s]]) (use m(1) s in \<open>simp add: run_program_def\<close>)
    qed
    moreover have "quiet (finish p s)" for s
      by (simp add: finish_def with_heap_def quiet_ofold quiet_obind)
    ultimately have "quiet res" by (simp add: m(2) quiet_obind)
    then show ?thesis by (auto simp: quiet_def)
  qed (use load assms(3) in \<open>auto simp: pyro_main_def\<close>)
qed

theorem pyro_main_stays_in_code_witness:
  "\<exists>res. pyro_main 3 no_native [] [] [] [] halt_file = Some res \<and> res \<noteq> UB CodeRange"
proof -
  obtain res where res: "pyro_main 3 no_native [] [] [] [] halt_file = Some res"
    using halt_file_runs by (auto split: option.splits)
  have "small halt_file" by (simp add: small_def halt_file_def)
  from pyro_main_stays_in_code [OF this no_native_quiet res] res show ?thesis by blast
qed

end
