(* ===== verification/CppEngine.thy ===== *)
theory CppEngine
  imports Driver
begin

unbundle bit_operations_syntax

text \<open>
  The second engine of the repository (\<open>vm/main.cpp\<close>), which runs the same files over the same runtime
  library and is meant to behave as the C engine does. It is translated on its own: here the value, frame
  and handler stacks are the arrays of the source with their counters \<open>g_sp\<close>, \<open>g_fp\<close> and \<open>g_hp\<close>, and the
  loops run over array indices. \<open>CppParity\<close> relates it to the list model of the C engine.

  An index below the bottom of an array is undefined behaviour, as in the C model. Indices above the top of
  the value stack are not checked one by one: every instruction writes at most one slot above the height it
  started with, and the dispatch loop stops at a height above 65532.
\<close>

section \<open>State\<close>

record cpp_program =
  c_consts :: "val list"
  c_funcs :: "func_info list"
  c_entryFn :: "16 word"
  c_code :: "u8 list"
  c_dbg :: "debug_entry list"
  c_sandboxed :: bool

record cpp_vm =
  g_pc :: int
  g_stack :: "nat \<Rightarrow> val"
  g_sp :: nat
  g_locals :: "nat \<Rightarrow> val"
  g_frames :: "nat \<Rightarrow> frame"
  g_fp :: nat
  g_handlers :: "nat \<Rightarrow> handler"
  g_hp :: nat
  globals :: "val list"
  c_rt :: rt

datatype cpp_result = CNext cpp_vm | CStop cpp_vm

section \<open>Arrays and operands\<close>

definition c_push :: "val \<Rightarrow> cpp_vm \<Rightarrow> cpp_vm" where
  \<comment> \<open>\<open>g_stack[g_sp++] = v\<close>\<close>
  "c_push v s = s\<lparr>g_stack := (g_stack s)(g_sp s := v), g_sp := Suc (g_sp s)\<rparr>"

definition c_pop :: "cpp_vm \<Rightarrow> (val \<times> cpp_vm) outcome" where
  \<comment> \<open>\<open>g_stack[--g_sp]\<close>\<close>
  "c_pop s = obind (oguard (0 < g_sp s) StackUnderflow) (\<lambda>_. Ok (g_stack s (g_sp s - 1), s\<lparr>g_sp := g_sp s - 1\<rparr>))"

definition c_top :: "cpp_vm \<Rightarrow> val outcome" where
  \<comment> \<open>\<open>g_stack[g_sp - 1]\<close>\<close>
  "c_top s = obind (oguard (0 < g_sp s) StackUnderflow) (\<lambda>_. Ok (g_stack s (g_sp s - 1)))"

definition c_set_top :: "val \<Rightarrow> cpp_vm \<Rightarrow> cpp_vm" where
  "c_set_top v s = s\<lparr>g_stack := (g_stack s)(g_sp s - 1 := v)\<rparr>"

definition c_slots :: "nat \<Rightarrow> cpp_vm \<Rightarrow> val list outcome" where
  \<comment> \<open>\<open>g_stack[base], ..., g_stack[g_sp - 1]\<close> for \<open>base = g_sp - n\<close>\<close>
  "c_slots n s = obind (oguard (n \<le> g_sp s) StackUnderflow) (\<lambda>_. Ok (map (g_stack s) [g_sp s - n..<g_sp s]))"

definition c_heap :: "(heap \<Rightarrow> heap outcome) \<Rightarrow> cpp_vm \<Rightarrow> cpp_vm outcome" where
  "c_heap f s = obind (with_heap f (c_rt s)) (\<lambda>r. Ok (s\<lparr>c_rt := r\<rparr>))"

definition c_heap_val :: "(heap \<Rightarrow> ('a \<times> heap) outcome) \<Rightarrow> cpp_vm \<Rightarrow> ('a \<times> cpp_vm) outcome" where
  "c_heap_val f s = obind (with_heap_val f (c_rt s)) (\<lambda>(v, r). Ok (v, s\<lparr>c_rt := r\<rparr>))"

definition c_release :: "val \<Rightarrow> cpp_vm \<Rightarrow> cpp_vm outcome" where
  "c_release v = c_heap (release_value v)"

definition c_retain :: "val \<Rightarrow> cpp_vm \<Rightarrow> cpp_vm outcome" where
  "c_retain v = c_heap (retain_value v)"

definition c_frame :: "cpp_vm \<Rightarrow> frame outcome" where
  \<comment> \<open>\<open>g_frames[g_fp - 1]\<close>\<close>
  "c_frame s = obind (oguard (0 < g_fp s) FrameRange) (\<lambda>_. Ok (g_frames s (g_fp s - 1)))"

definition c_local :: "nat \<Rightarrow> cpp_vm \<Rightarrow> val outcome" where
  "c_local i s = obind (oguard (int i < 65536) LocalsRange) (\<lambda>_. Ok (g_locals s i))"

definition c_set_local :: "nat \<Rightarrow> val \<Rightarrow> cpp_vm \<Rightarrow> cpp_vm outcome" where
  "c_set_local i v s = obind (oguard (int i < 65536) LocalsRange) (\<lambda>_. Ok (s\<lparr>g_locals := (g_locals s)(i := v)\<rparr>))"

definition c_null_locals :: "nat \<Rightarrow> nat \<Rightarrow> cpp_vm \<Rightarrow> cpp_vm outcome" where
  "c_null_locals base n s =
     obind (oguard (int base + int n \<le> 65536) LocalsRange) (\<lambda>_.
     Ok (s\<lparr>g_locals := (\<lambda>i. if base \<le> i \<and> i < base + n then VNull else g_locals s i)\<rparr>))"

definition c_copy_locals :: "nat \<Rightarrow> val list \<Rightarrow> cpp_vm \<Rightarrow> cpp_vm outcome" where
  "c_copy_locals base vs = ofold (\<lambda>(i, v). c_set_local (base + i) v) (enumerate 0 vs)"

definition c_next8 :: "cpp_program \<Rightarrow> cpp_vm \<Rightarrow> (u8 \<times> cpp_vm) outcome" where
  "c_next8 p s = obind (fetch CodeRange (c_code p) (g_pc s)) (\<lambda>b.
     obind (c_int32 (g_pc s + 1)) (\<lambda>pc. Ok (b, s\<lparr>g_pc := pc\<rparr>)))"

definition c_next16 :: "cpp_program \<Rightarrow> cpp_vm \<Rightarrow> (nat \<times> cpp_vm) outcome" where
  "c_next16 p s = obind (read_u16 CodeRange (c_code p) (g_pc s)) (\<lambda>(w, pc). Ok (unat w, s\<lparr>g_pc := pc\<rparr>))"

definition c_next_i32 :: "cpp_program \<Rightarrow> cpp_vm \<Rightarrow> (int \<times> cpp_vm) outcome" where
  "c_next_i32 p s = obind (read_i32 CodeRange (c_code p) (g_pc s)) (\<lambda>(w, pc). Ok (w, s\<lparr>g_pc := pc\<rparr>))"

definition c_codelen :: "cpp_program \<Rightarrow> 32 word" where
  \<comment> \<open>\<open>(uint32_t)p->code.size()\<close>\<close>
  "c_codelen p = of_nat (length (c_code p))"

definition c_jump :: "cpp_program \<Rightarrow> int \<Rightarrow> cpp_vm \<Rightarrow> cpp_vm outcome" where
  "c_jump p rel s = obind (pyro_jump_to (g_pc s) rel (c_codelen p)) (\<lambda>pc. Ok (s\<lparr>g_pc := pc\<rparr>))"

section \<open>Stack traces\<close>

definition cpp_get_line_number :: "32 word \<Rightarrow> cpp_program \<Rightarrow> int" where
  "cpp_get_line_number target p =
     (case takeWhile (\<lambda>d. dbg_pc d \<le> target) (c_dbg p) of [] \<Rightarrow> 0 | ds \<Rightarrow> sint (dbg_line (last ds)))"

definition cpp_print_stack_trace :: "cpp_program \<Rightarrow> cpp_vm \<Rightarrow> string" where
  "cpp_print_stack_trace p s =
     (if c_dbg p = [] then []
      else ''  stack trace (most recent first):'' @ [CHR 0x0A] @
        concat (map (\<lambda>i.
          let fr = g_frames s i;
              name = (if fr_fn fr < length (c_funcs p) then fi_name (c_funcs p ! fr_fn fr) else ''?'');
              line = cpp_get_line_number (word_of_int (if i = g_fp s - 1 then g_pc s else fr_retpc fr)) p
          in ''    at '' @ name @ '' (line '' @ show_int line @ '')'' @ [CHR 0x0A])
          (rev [0..<g_fp s])))"

definition cpp_fatal_report :: "string \<Rightarrow> cpp_program \<Rightarrow> cpp_vm \<Rightarrow> string" where
  "cpp_fatal_report msg p s = ''[Pyro VM] '' @ msg @ [CHR 0x0A] @ cpp_print_stack_trace p s"

section \<open>Exceptions\<close>

definition cpp_release_locals :: "frame \<Rightarrow> cpp_vm \<Rightarrow> cpp_vm outcome" where
  "cpp_release_locals f =
     ofold (\<lambda>i s. obind (c_local (fr_base f + i) s) (\<lambda>v. c_release v s)) [0..<fr_nlocals f]"

primrec c_drop_values :: "nat \<Rightarrow> cpp_vm \<Rightarrow> cpp_vm outcome" where
  \<comment> \<open>\<open>n\<close> rounds of \<open>release_value(g_stack[--g_sp])\<close>\<close>
  "c_drop_values 0 s = Ok s"
| "c_drop_values (Suc n) s = obind (c_pop s) (\<lambda>(v, s1). obind (c_release v s1) (c_drop_values n))"

primrec c_drop_frames :: "nat \<Rightarrow> cpp_vm \<Rightarrow> cpp_vm outcome" where
  "c_drop_frames 0 s = Ok s"
| "c_drop_frames (Suc n) s =
     obind (c_frame s) (\<lambda>f. obind (cpp_release_locals f (s\<lparr>g_fp := g_fp s - 1\<rparr>)) (c_drop_frames n))"

definition cpp_raise_exception :: "val \<Rightarrow> cpp_vm \<Rightarrow> (bool \<times> cpp_vm) outcome" where
  "cpp_raise_exception v s =
     (if g_hp s = 0 then Ok (False, s)
      else let h = g_handlers s (g_hp s - 1)
           in obind (c_drop_values (g_sp s - h_sp h) (s\<lparr>g_hp := g_hp s - 1\<rparr>)) (\<lambda>s1.
              obind (c_drop_frames (g_fp s1 - h_fp h) s1) (\<lambda>s2.
              obind (if h_slot h \<noteq> 0xFFFF
                     then obind (c_frame s2) (\<lambda>f.
                          let loc_idx = fr_base f + unat (h_slot h)
                          in obind (c_local loc_idx s2) (\<lambda>old.
                             obind (c_release old s2) (c_set_local loc_idx v)))
                     else c_release v s2) (\<lambda>s3.
              Ok (True, s3\<lparr>g_pc := h_catch h\<rparr>)))))"

section \<open>Instructions: constants, stack, variables\<close>

definition cpp_CONST :: "cpp_program \<Rightarrow> cpp_vm \<Rightarrow> cpp_vm outcome" where
  "cpp_CONST p s =
     obind (c_next16 p s) (\<lambda>(idx, s1).
     obind (ofail (length (c_consts p) \<le> idx) ''malformed .pyro: constant index out of range'') (\<lambda>_.
     obind (c_retain (c_consts p ! idx) s1) (\<lambda>s2. Ok (c_push (c_consts p ! idx) s2))))"

definition cpp_POP :: "cpp_vm \<Rightarrow> cpp_vm outcome" where
  "cpp_POP s = obind (c_pop s) (\<lambda>(v, s1). c_release v s1)"

definition cpp_LOAD :: "cpp_program \<Rightarrow> cpp_vm \<Rightarrow> cpp_vm outcome" where
  "cpp_LOAD p s =
     obind (c_next16 p s) (\<lambda>(slot, s1).
     obind (c_frame s1) (\<lambda>f.
     obind (c_local (fr_base f + slot) s1) (\<lambda>v.
     obind (c_retain v s1) (\<lambda>s2. Ok (c_push v s2)))))"

definition cpp_STORE :: "cpp_program \<Rightarrow> cpp_vm \<Rightarrow> cpp_vm outcome" where
  "cpp_STORE p s =
     obind (c_next16 p s) (\<lambda>(slot, s1).
     obind (c_frame s1) (\<lambda>f.
     let loc_idx = fr_base f + slot
     in obind (c_local loc_idx s1) (\<lambda>old.
        obind (c_release old s1) (\<lambda>s2.
        obind (c_pop s2) (\<lambda>(v, s3). c_set_local loc_idx v s3)))))"

definition cpp_GETGLOBAL :: "cpp_program \<Rightarrow> cpp_vm \<Rightarrow> cpp_vm outcome" where
  "cpp_GETGLOBAL p s =
     obind (c_next16 p s) (\<lambda>(slot, s1).
     let v = (if slot < length (globals s1) then globals s1 ! slot else VNull)
     in obind (c_retain v s1) (\<lambda>s2. Ok (c_push v s2)))"

definition vec_resize :: "nat \<Rightarrow> 'a \<Rightarrow> 'a list \<Rightarrow> 'a list" where
  \<comment> \<open>\<open>std::vector::resize(n, x)\<close>\<close>
  "vec_resize n x xs = (if n \<le> length xs then take n xs else xs @ replicate (n - length xs) x)"

definition cpp_SETGLOBAL :: "cpp_program \<Rightarrow> cpp_vm \<Rightarrow> cpp_vm outcome" where
  "cpp_SETGLOBAL p s =
     obind (c_next16 p s) (\<lambda>(slot, s1).
     let s2 = (if length (globals s1) \<le> slot then s1\<lparr>globals := vec_resize (slot + 1) VNull (globals s1)\<rparr> else s1)
     in obind (c_release (globals s2 ! slot) s2) (\<lambda>s3.
        obind (c_pop s3) (\<lambda>(v, s4). Ok (s4\<lparr>globals := (globals s4)[slot := v]\<rparr>))))"

section \<open>Instructions: operators\<close>

definition cpp_BIN :: "opcode \<Rightarrow> cpp_vm \<Rightarrow> cpp_vm outcome" where
  "cpp_BIN x s =
     obind (c_pop s) (\<lambda>(b, s1). obind (c_pop s1) (\<lambda>(a, s2).
     obind (c_heap_val (bin_op x a b) s2) (\<lambda>(res, s3).
     obind (c_release a (c_push res s3)) (c_release b))))"

definition cpp_NEG :: "cpp_vm \<Rightarrow> cpp_vm outcome" where
  "cpp_NEG s =
     obind (c_top s) (\<lambda>a.
     case a of
       VFloat f \<Rightarrow> Ok (c_set_top (VFloat (f_neg f)) s)
     | _ \<Rightarrow> obind (as_i a) (\<lambda>i. obind (c_i64 (- sint i)) (\<lambda>r. Ok (c_set_top (VInt r) s))))"

definition cpp_BNOT :: "cpp_vm \<Rightarrow> cpp_vm outcome" where
  "cpp_BNOT s = obind (c_top s) (\<lambda>a. obind (as_i a) (\<lambda>i. Ok (c_set_top (VInt (NOT i)) s)))"

definition cpp_NOT :: "cpp_vm \<Rightarrow> cpp_vm outcome" where
  "cpp_NOT s =
     obind (c_top s) (\<lambda>a.
     obind (value_truthy (heap (c_rt s)) a) (\<lambda>t.
     obind (c_release a s) (\<lambda>s1. Ok (c_set_top (VBool (\<not> t)) s1))))"

definition cpp_COALESCE :: "cpp_vm \<Rightarrow> cpp_vm outcome" where
  "cpp_COALESCE s =
     obind (c_pop s) (\<lambda>(b, s1). obind (c_pop s1) (\<lambda>(a, s2).
     if a = VNull then c_release a (c_push b s2) else c_release b (c_push a s2)))"

section \<open>Instructions: control\<close>

definition cpp_JMP :: "cpp_program \<Rightarrow> cpp_vm \<Rightarrow> cpp_vm outcome" where
  "cpp_JMP p s = obind (c_next_i32 p s) (\<lambda>(rel, s1). c_jump p rel s1)"

definition cpp_JMPF :: "cpp_program \<Rightarrow> cpp_vm \<Rightarrow> cpp_vm outcome" where
  "cpp_JMPF p s =
     obind (c_next_i32 p s) (\<lambda>(rel, s1). obind (c_pop s1) (\<lambda>(a, s2).
     obind (value_truthy (heap (c_rt s2)) a) (\<lambda>t.
     obind (c_release a s2) (\<lambda>s3. if \<not> t then c_jump p rel s3 else Ok s3))))"

definition cpp_JMPT :: "cpp_program \<Rightarrow> cpp_vm \<Rightarrow> cpp_vm outcome" where
  "cpp_JMPT p s =
     obind (c_next_i32 p s) (\<lambda>(rel, s1). obind (c_pop s1) (\<lambda>(a, s2).
     obind (value_truthy (heap (c_rt s2)) a) (\<lambda>t.
     obind (c_release a s2) (\<lambda>s3. if t then c_jump p rel s3 else Ok s3))))"

definition cpp_locals_limit :: "nat \<Rightarrow> func_info \<Rightarrow> unit outcome" where
  "cpp_locals_limit next_base f =
     ofail (65534 < int next_base + uint (fi_nlocals f))
       ''malformed .pyro: locals stack overflow (runaway recursion?)''"

definition cpp_enter :: "nat \<Rightarrow> func_info \<Rightarrow> nat \<Rightarrow> cpp_vm \<Rightarrow> cpp_vm outcome" where
  "cpp_enter fi f next_base s =
     obind (ofail (4094 < int (g_fp s)) ''malformed .pyro: call stack overflow (runaway recursion?)'') (\<lambda>_.
     Ok (s\<lparr>g_frames := (g_frames s)(g_fp s :=
              \<lparr>fr_retpc = g_pc s, fr_base = next_base, fr_nlocals = unat (fi_nlocals f), fr_fn = fi\<rparr>),
           g_fp := Suc (g_fp s), g_pc := sint (fi_entry f)\<rparr>))"

definition cpp_CALL :: "cpp_program \<Rightarrow> cpp_vm \<Rightarrow> cpp_vm outcome" where
  "cpp_CALL p s =
     obind (c_next16 p s) (\<lambda>(fi, s1). obind (c_next8 p s1) (\<lambda>(argc, s2).
     obind (ofail (length (c_funcs p) \<le> fi) ''malformed .pyro: function index out of range'') (\<lambda>_.
     let f = c_funcs p ! fi
     in obind (c_frame s2) (\<lambda>fr.
        let next_base = fr_base fr + fr_nlocals fr; base = g_sp s2 - unat argc
        in obind (cpp_locals_limit next_base f) (\<lambda>_.
           obind (c_null_locals next_base (unat (fi_nlocals f)) s2) (\<lambda>s3.
           obind (c_slots (unat argc) s3) (\<lambda>args.
           obind (c_copy_locals next_base args s3) (\<lambda>s4.
           cpp_enter fi f next_base (s4\<lparr>g_sp := base\<rparr>)))))))))"

definition cpp_PUSHFN :: "cpp_program \<Rightarrow> cpp_vm \<Rightarrow> cpp_vm outcome" where
  "cpp_PUSHFN p s = obind (c_next16 p s) (\<lambda>(fi, s1). Ok (c_push (val_func (of_nat fi) None) s1))"

definition cpp_CLOSURE :: "cpp_program \<Rightarrow> cpp_vm \<Rightarrow> cpp_vm outcome" where
  "cpp_CLOSURE p s =
     obind (c_next16 p s) (\<lambda>(fi, s1). obind (c_next8 p s1) (\<lambda>(ncap, s2).
     obind (c_heap_val (\<lambda>h. Ok (rc_array_new h)) s2) (\<lambda>(cap, s3).
     obind (c_slots (unat ncap) s3) (\<lambda>vs.
     obind (ofold (\<lambda>v. c_heap (rc_array_push cap v)) vs s3) (\<lambda>s4.
     obind (ofold c_release vs s4) (\<lambda>s5.
     Ok (c_push (val_func (of_nat fi) (Some cap)) (s5\<lparr>g_sp := g_sp s3 - unat ncap\<rparr>))))))))"

definition cpp_captures :: "addr option \<Rightarrow> cpp_vm \<Rightarrow> val list outcome" where
  "cpp_captures cap s = (case cap of None \<Rightarrow> Ok [] | Some a \<Rightarrow> obind (deref_arr (heap (c_rt s)) a) (\<lambda>(xs, _). Ok xs))"

definition cpp_CALLVALUE :: "cpp_program \<Rightarrow> cpp_vm \<Rightarrow> cpp_vm outcome" where
  "cpp_CALLVALUE p s =
     obind (c_next8 p s) (\<lambda>(argc, s1).
     obind (c_slots (unat argc + 1) s1) (\<lambda>vs.
     let base = g_sp s1 - unat argc; fnval = hd vs; args = tl vs
     in case fnval of
          VFunc fnidx cap \<Rightarrow>
            obind (ofail (int (length (c_funcs p)) \<le> sint fnidx) ''malformed .pyro: function index out of range'') (\<lambda>_.
            obind (oguard (0 \<le> sint fnidx) FuncRange) (\<lambda>_.
            let fi = nat (sint fnidx); f = c_funcs p ! fi
            in obind (c_frame s1) (\<lambda>fr.
               let next_base = fr_base fr + fr_nlocals fr
               in obind (cpp_locals_limit next_base f) (\<lambda>_.
                  obind (c_null_locals next_base (unat (fi_nlocals f)) s1) (\<lambda>s2.
                  obind (cpp_captures cap s2) (\<lambda>cs.
                  obind (ofold (\<lambda>(i, c) s. obind (c_retain c s) (c_set_local (next_base + i) c))
                           (enumerate 0 cs) s2) (\<lambda>s3.
                  obind (c_copy_locals (next_base + length cs) args s3) (\<lambda>s4.
                  obind (c_release fnval s4) (\<lambda>s5.
                  cpp_enter fi f next_base (s5\<lparr>g_sp := base - 1\<rparr>))))))))))
        | _ \<Rightarrow> Fatal ''call of a non-function value''))"

definition cpp_release_globals :: "cpp_vm \<Rightarrow> cpp_vm outcome" where
  "cpp_release_globals s = ofold c_release (globals s) s"

definition cpp_HALT :: "cpp_vm \<Rightarrow> cpp_result outcome" where
  "cpp_HALT s = obind (cpp_release_globals s) (\<lambda>s1. Ok (CStop s1))"

definition cpp_RET :: "cpp_vm \<Rightarrow> cpp_result outcome" where
  "cpp_RET s =
     obind (c_pop s) (\<lambda>(ret, s1).
     obind (ofail (g_fp s1 = 0) ''malformed .pyro: return with no frame to return to'') (\<lambda>_.
     let fr = g_frames s1 (g_fp s1 - 1)
     in obind (cpp_release_locals fr (s1\<lparr>g_fp := g_fp s1 - 1\<rparr>)) (\<lambda>s2.
        if fr_retpc fr < 0
        then obind (c_release ret s2) (\<lambda>s3. obind (cpp_release_globals s3) (\<lambda>s4. Ok (CStop s4)))
        else Ok (CNext (c_push ret (s2\<lparr>g_pc := fr_retpc fr\<rparr>))))))"

section \<open>Instructions: output and containers\<close>

definition c_print :: "string \<Rightarrow> cpp_vm \<Rightarrow> cpp_vm" where
  "c_print t s = s\<lparr>c_rt := (c_rt s)\<lparr>out := out (c_rt s) @ t\<rparr>\<rparr>"

definition cpp_PRINT :: "cpp_vm \<Rightarrow> cpp_vm outcome" where
  "cpp_PRINT s =
     obind (c_pop s) (\<lambda>(v, s1). obind (value_to_string (heap (c_rt s1)) v) (\<lambda>t.
     c_release v (c_print (t @ [CHR 0x0A]) s1)))"

definition cpp_NEWARR :: "cpp_program \<Rightarrow> cpp_vm \<Rightarrow> cpp_vm outcome" where
  "cpp_NEWARR p s =
     obind (c_next16 p s) (\<lambda>(n, s1).
     obind (ofail (g_sp s1 < n) ''malformed .pyro: array literal larger than the stack'') (\<lambda>_.
     obind (c_heap_val (\<lambda>h. Ok (rc_array_new h)) s1) (\<lambda>(arr, s2).
     obind (c_slots n s2) (\<lambda>vs.
     obind (ofold (\<lambda>v s. obind (c_heap (rc_array_push arr v) s) (c_release v)) vs s2) (\<lambda>s3.
     obind (c_heap_val (val_array arr) (s3\<lparr>g_sp := g_sp s2 - n\<rparr>)) (\<lambda>(v, s4). Ok (c_push v s4)))))))"

definition cpp_NEWMAP :: "cpp_program \<Rightarrow> cpp_vm \<Rightarrow> cpp_vm outcome" where
  "cpp_NEWMAP p s =
     obind (c_next16 p s) (\<lambda>(n, s1).
     obind (ofail (g_sp s1 < 2 * n) ''malformed .pyro: map literal larger than the stack'') (\<lambda>_.
     obind (c_heap_val (\<lambda>h. Ok (rc_map_new h)) s1) (\<lambda>(mp, s2).
     let base = g_sp s2 - 2 * n
     in obind (c_slots (2 * n) s2) (\<lambda>vs.
        obind (ofold (\<lambda>i s. let k = vs ! (2 * i); v = vs ! (2 * i + 1)
                 in obind (c_heap (rc_map_set mp k v) s) (\<lambda>s'. obind (c_release k s') (c_release v)))
                 [0..<n] s2) (\<lambda>s3.
        obind (c_heap_val (val_map mp) (s3\<lparr>g_sp := base\<rparr>)) (\<lambda>(v, s4). Ok (c_push v s4)))))))"

definition cpp_INDEX :: "cpp_vm \<Rightarrow> cpp_vm outcome" where
  "cpp_INDEX s =
     obind (c_pop s) (\<lambda>(key, s1). obind (c_pop s1) (\<lambda>(cont, s2).
     obind (c_heap_val (index_get cont key) s2) (\<lambda>(v, s3).
     obind (c_release key (c_push v s3)) (c_release cont))))"

definition cpp_SETIDX :: "cpp_vm \<Rightarrow> cpp_vm outcome" where
  "cpp_SETIDX s =
     obind (c_pop s) (\<lambda>(v, s1). obind (c_pop s1) (\<lambda>(key, s2). obind (c_pop s2) (\<lambda>(cont, s3).
     obind (c_heap (index_set cont key v) s3) (\<lambda>s4.
     obind (c_release v s4) (\<lambda>s5. obind (c_release key s5) (c_release cont))))))"

definition cpp_LEN :: "cpp_vm \<Rightarrow> cpp_vm outcome" where
  "cpp_LEN s =
     obind (c_top s) (\<lambda>v.
     obind (value_length (heap (c_rt s)) v) (\<lambda>len.
     obind (c_release v s) (\<lambda>s1. Ok (c_set_top (VInt len) s1))))"

definition cpp_APPEND :: "cpp_vm \<Rightarrow> cpp_vm outcome" where
  "cpp_APPEND s =
     obind (c_pop s) (\<lambda>(v, s1). obind (c_pop s1) (\<lambda>(arr, s2).
     case arr of
       VArr a \<Rightarrow>
         obind (c_heap (rc_array_push a v) s2) (\<lambda>s3.
         obind (c_release v s3) (\<lambda>s4.
         obind (deref_arr (heap (c_rt s4)) a) (\<lambda>(xs, cap).
         obind (c_release arr s4) (\<lambda>s5. Ok (c_push (VInt (of_nat (length xs))) s5)))))
     | _ \<Rightarrow> Fatal ''push on a non-array value''))"

definition cpp_HAS :: "cpp_vm \<Rightarrow> cpp_vm outcome" where
  "cpp_HAS s =
     obind (c_pop s) (\<lambda>(key, s1). obind (c_top s1) (\<lambda>mp.
     obind (case mp of VMap a \<Rightarrow> rc_map_has a key (heap (c_rt s1)) | _ \<Rightarrow> Ok False) (\<lambda>has_key.
     obind (c_release key s1) (\<lambda>s2. obind (c_release mp s2) (\<lambda>s3. Ok (c_set_top (VBool has_key) s3))))))"

definition cpp_KEYS :: "cpp_vm \<Rightarrow> cpp_vm outcome" where
  "cpp_KEYS s =
     obind (c_top s) (\<lambda>mp.
     case mp of
       VMap a \<Rightarrow>
         obind (c_heap_val (rc_map_keys_sorted a) s) (\<lambda>(keys_arr, s1).
         obind (c_release mp s1) (\<lambda>s2.
         obind (c_heap_val (val_array keys_arr) s2) (\<lambda>(v, s3). Ok (c_set_top v s3))))
     | _ \<Rightarrow> Fatal ''keys() applied to a non-map value'')"

definition cpp_NATIVE :: "native_fn \<Rightarrow> cpp_program \<Rightarrow> cpp_vm \<Rightarrow> cpp_vm outcome" where
  "cpp_NATIVE nf p s =
     obind (c_next8 p s) (\<lambda>(nid, s1). obind (c_next8 p s1) (\<lambda>(argc, s2).
     obind (c_slots (unat argc) s2) (\<lambda>args.
     obind (nf (unat nid) args (c_rt s2)) (\<lambda>(res, r).
     obind (ofold c_release args (s2\<lparr>c_rt := r\<rparr>)) (\<lambda>s3.
     Ok (c_push res (s3\<lparr>g_sp := g_sp s2 - unat argc\<rparr>)))))))"

section \<open>Instructions: exceptions\<close>

definition snprintf_err :: "string \<Rightarrow> string" where
  \<comment> \<open>\<open>char err[1024]; snprintf(err, sizeof(err), ...)\<close>\<close>
  "snprintf_err t = take 1023 t"

definition cpp_TRYPUSH :: "cpp_program \<Rightarrow> cpp_vm \<Rightarrow> cpp_vm outcome" where
  "cpp_TRYPUSH p s =
     obind (c_next_i32 p s) (\<lambda>(rel, s1). obind (c_next16 p s1) (\<lambda>(slot, s2).
     obind (pyro_jump_to (g_pc s2) rel (c_codelen p)) (\<lambda>catch_pc.
     obind (ofail (4094 < int (g_hp s2)) ''malformed .pyro: exception handler stack overflow'') (\<lambda>_.
     Ok (s2\<lparr>g_handlers := (g_handlers s2)(g_hp s2 :=
              \<lparr>h_catch = catch_pc, h_sp = g_sp s2, h_fp = g_fp s2, h_slot = of_nat slot\<rparr>),
            g_hp := Suc (g_hp s2)\<rparr>)))))"

definition cpp_TRYPOP :: "cpp_vm \<Rightarrow> cpp_vm outcome" where
  "cpp_TRYPOP s = Ok (if 0 < g_hp s then s\<lparr>g_hp := g_hp s - 1\<rparr> else s)"

definition cpp_THROW :: "cpp_vm \<Rightarrow> cpp_vm outcome" where
  "cpp_THROW s =
     obind (c_pop s) (\<lambda>(v, s1).
     obind (cpp_raise_exception v s1) (\<lambda>(raised, s2).
     if raised then Ok s2
     else obind (value_to_string (heap (c_rt s2)) v) (\<lambda>t. Fatal (snprintf_err (''uncaught exception: '' @ t)))))"

definition cpp_ASSERT :: "cpp_vm \<Rightarrow> cpp_vm outcome" where
  "cpp_ASSERT s =
     obind (c_pop s) (\<lambda>(cond, s1). obind (c_pop s1) (\<lambda>(msg, s2).
     obind (value_truthy (heap (c_rt s2)) cond) (\<lambda>t.
     obind (if t then Ok s2
            else obind (value_to_string (heap (c_rt s2)) msg) (\<lambda>mstr.
                 let err = snprintf_err (''[Cryo Assert] '' @ mstr)
                 in obind (c_heap_val (\<lambda>h. Ok (val_str err h)) s2) (\<lambda>(v, s3).
                    obind (cpp_raise_exception v s3) (\<lambda>(raised, s4).
                    if raised then Ok s4 else Fatal err)))) (\<lambda>s5.
     obind (c_release cond s5) (c_release msg)))))"

definition cpp_UNWRAP :: "cpp_vm \<Rightarrow> cpp_vm outcome" where
  "cpp_UNWRAP s =
     obind (c_top s) (\<lambda>a.
     if a = VNull
     then let um = ''[Cryo Security] unwrap of null value''
          in obind (c_heap_val (\<lambda>h. Ok (val_str um h)) (s\<lparr>g_sp := g_sp s - 1\<rparr>)) (\<lambda>(err_msg, s1).
             obind (cpp_raise_exception err_msg s1) (\<lambda>(raised, s2).
             if raised then Ok s2 else Fatal um))
     else Ok s)"

definition cpp_no_scheduler :: string where
  "cpp_no_scheduler = ''[Cryo Concurrency] spawn/await need the Go VM '' @ map char_of [0xE2, 0x80, 0x94 :: nat] @
     '' this C++ VM has no scheduler (roadmap 12.5)''"

section \<open>The dispatch loop\<close>

definition c_next :: "cpp_vm outcome \<Rightarrow> cpp_result outcome" where
  "c_next m = obind m (\<lambda>s. Ok (CNext s))"

definition cpp_exec :: "opcode \<Rightarrow> native_fn \<Rightarrow> cpp_program \<Rightarrow> cpp_vm \<Rightarrow> cpp_result outcome" where
  "cpp_exec x nf p s =
     (case x of
        opHALT \<Rightarrow> cpp_HALT s
      | opCONST \<Rightarrow> c_next (cpp_CONST p s)
      | opTRUE \<Rightarrow> Ok (CNext (c_push (VBool True) s))
      | opFALSE \<Rightarrow> Ok (CNext (c_push (VBool False) s))
      | opNULL \<Rightarrow> Ok (CNext (c_push VNull s))
      | opPOP \<Rightarrow> c_next (cpp_POP s)
      | opLOAD \<Rightarrow> c_next (cpp_LOAD p s)
      | opSTORE \<Rightarrow> c_next (cpp_STORE p s)
      | opGETGLOBAL \<Rightarrow> c_next (cpp_GETGLOBAL p s)
      | opSETGLOBAL \<Rightarrow> c_next (cpp_SETGLOBAL p s)
      | opNEG \<Rightarrow> c_next (cpp_NEG s)
      | opBNOT \<Rightarrow> c_next (cpp_BNOT s)
      | opNOT \<Rightarrow> c_next (cpp_NOT s)
      | opJMP \<Rightarrow> c_next (cpp_JMP p s)
      | opJMPF \<Rightarrow> c_next (cpp_JMPF p s)
      | opJMPT \<Rightarrow> c_next (cpp_JMPT p s)
      | opCALL \<Rightarrow> c_next (cpp_CALL p s)
      | opPUSHFN \<Rightarrow> c_next (cpp_PUSHFN p s)
      | opCLOSURE \<Rightarrow> c_next (cpp_CLOSURE p s)
      | opCALLVALUE \<Rightarrow> c_next (cpp_CALLVALUE p s)
      | opRET \<Rightarrow> cpp_RET s
      | opPRINT \<Rightarrow> c_next (cpp_PRINT s)
      | opASSERT \<Rightarrow> c_next (cpp_ASSERT s)
      | opPRINTLN \<Rightarrow> Ok (CNext (c_print [CHR 0x0A] s))
      | opNEWARR \<Rightarrow> c_next (cpp_NEWARR p s)
      | opNEWMAP \<Rightarrow> c_next (cpp_NEWMAP p s)
      | opINDEX \<Rightarrow> c_next (cpp_INDEX s)
      | opSETIDX \<Rightarrow> c_next (cpp_SETIDX s)
      | opLEN \<Rightarrow> c_next (cpp_LEN s)
      | opAPPEND \<Rightarrow> c_next (cpp_APPEND s)
      | opHAS \<Rightarrow> c_next (cpp_HAS s)
      | opKEYS \<Rightarrow> c_next (cpp_KEYS s)
      | opNATIVE \<Rightarrow> c_next (cpp_NATIVE nf p s)
      | opTRYPUSH \<Rightarrow> c_next (cpp_TRYPUSH p s)
      | opTRYPOP \<Rightarrow> c_next (cpp_TRYPOP s)
      | opTHROW \<Rightarrow> c_next (cpp_THROW s)
      | opCOALESCE \<Rightarrow> c_next (cpp_COALESCE s)
      | opUNWRAP \<Rightarrow> c_next (cpp_UNWRAP s)
      | opSPAWN \<Rightarrow> Fatal cpp_no_scheduler
      | opAWAIT \<Rightarrow> Fatal cpp_no_scheduler
      | _ \<Rightarrow> c_next (cpp_BIN x s))"

definition cpp_operand_width :: "u8 \<Rightarrow> nat" where
  "cpp_operand_width b =
     (case decode_op b of
        None \<Rightarrow> 0
      | Some x \<Rightarrow>
          if x \<in> {opCONST, opLOAD, opSTORE, opNEWARR, opNEWMAP, opPUSHFN, opGETGLOBAL, opSETGLOBAL} then 2
          else if x \<in> {opJMP, opJMPF, opJMPT} then 4
          else if x = opCALL then 3
          else if x = opNATIVE then 2
          else if x = opTRYPUSH then 6
          else if x = opCLOSURE then 3
          else if x = opCALLVALUE then 1
          else 0)"

definition cpp_tail_op :: "opcode \<Rightarrow> bool" where
  \<comment> \<open>the opcodes the check of the last bytes lets pass by name\<close>
  "cpp_tail_op x \<longleftrightarrow>
     x \<in> {opHALT, opRET, opPOP, opTRUE, opFALSE, opNULL, opPRINT, opPRINTLN, opASSERT, opNOT, opNEG, opBNOT,
       opLEN, opINDEX, opSETIDX, opAPPEND, opHAS, opKEYS, opTRYPOP, opTHROW, opCOALESCE, opUNWRAP,
       opADD, opSUB, opMUL, opDIV, opMOD, opBAND, opBOR, opBXOR, opSHL, opSHR,
       opEQ, opNE, opLT, opGT, opLE, opGE}"

definition cpp_check_operand :: "cpp_program \<Rightarrow> u8 \<Rightarrow> cpp_vm \<Rightarrow> unit outcome" where
  "cpp_check_operand p b s =
     (let pc = word_of_int (g_pc s) :: 32 word
      in if c_codelen p < pc + 6 \<and> (case decode_op b of Some x \<Rightarrow> \<not> cpp_tail_op x | None \<Rightarrow> True)
         then ofail (c_codelen p < pc + of_nat (cpp_operand_width b))
                ''malformed .pyro: instruction operand runs past the end of the code''
         else Ok ())"

definition cpp_step :: "native_fn \<Rightarrow> cpp_program \<Rightarrow> cpp_vm \<Rightarrow> cpp_result outcome" where
  "cpp_step nf p s =
     obind (ofail (c_codelen p \<le> word_of_int (g_pc s))
              ''malformed .pyro: execution ran past the end of the code'') (\<lambda>_.
     obind (ofail (65532 < int (g_sp s)) ''malformed .pyro: value stack overflow'') (\<lambda>_.
     obind (c_next8 p s) (\<lambda>(b, s1).
     obind (cpp_check_operand p b s1) (\<lambda>_.
     case decode_op b of
       None \<Rightarrow> Fatal ''invalid opcode in bytecode''
     | Some x \<Rightarrow> cpp_exec x nf p s1))))"

definition cpp_start :: "cpp_program \<Rightarrow> rt \<Rightarrow> cpp_vm outcome" where
  \<comment> \<open>\<open>run_program\<close> up to the loop; statics start as zero bytes, which are the integer 0\<close>
  "cpp_start p r =
     obind (oguard (unat (c_entryFn p) < length (c_funcs p)) FuncRange) (\<lambda>_.
     let main_fn = c_funcs p ! unat (c_entryFn p); n = unat (fi_nlocals main_fn)
     in Ok \<lparr>g_pc = sint (fi_entry main_fn), g_stack = (\<lambda>_. VInt 0), g_sp = 0,
            g_locals = (\<lambda>i. if i < n then VNull else VInt 0),
            g_frames = (\<lambda>_. \<lparr>fr_retpc = -1, fr_base = 0, fr_nlocals = n, fr_fn = unat (c_entryFn p)\<rparr>), g_fp = 1,
            g_handlers = (\<lambda>_. \<lparr>h_catch = 0, h_sp = 0, h_fp = 0, h_slot = 0\<rparr>), g_hp = 0,
            globals = [], c_rt = (if c_sandboxed p then r\<lparr>sandboxed := True\<rparr> else r)\<rparr>)"

primrec cpp_run :: "nat \<Rightarrow> native_fn \<Rightarrow> cpp_program \<Rightarrow> cpp_vm \<Rightarrow> cpp_vm outcome option" where
  \<comment> \<open>at most \<open>n\<close> instructions; \<open>None\<close> when the program is still running\<close>
  "cpp_run 0 nf p s = None"
| "cpp_run (Suc n) nf p s = (case cpp_step nf p s of
       Ok (CNext s') \<Rightarrow> cpp_run n nf p s'
     | Ok (CStop s') \<Rightarrow> Some (Ok s')
     | Fatal m \<Rightarrow> Some (Fatal m)
     | UB u \<Rightarrow> Some (UB u)
     | Diverge \<Rightarrow> Some Diverge)"

definition cpp_run_program :: "nat \<Rightarrow> native_fn \<Rightarrow> cpp_program \<Rightarrow> rt \<Rightarrow> cpp_vm outcome option" where
  "cpp_run_program n nf p r = (case cpp_start p r of
       Ok s \<Rightarrow> cpp_run n nf p s
     | Fatal m \<Rightarrow> Some (Fatal m)
     | UB u \<Rightarrow> Some (UB u)
     | Diverge \<Rightarrow> Some Diverge)"

section \<open>The loader and the program\<close>

definition cpp_load_code :: "u8 \<Rightarrow> u8 list \<Rightarrow> int \<Rightarrow> (u8 list \<times> int) outcome" where
  "cpp_load_code flags data pos0 =
     obind (rd_u32 data ''code length'' pos0) (\<lambda>(codelen, pos1).
     obind (rd_block data ''code section'' codelen pos1) (\<lambda>(code, pos2).
     Ok (if flags AND 0x01 \<noteq> 0 then xor_decode code else code, pos2)))"

definition cpp_load_program ::
  "(string \<Rightarrow> rt \<Rightarrow> rt outcome) \<Rightarrow> u8 list \<Rightarrow> rt \<Rightarrow> (cpp_program \<times> rt) outcome"
where
  \<comment> \<open>the reads and the records of the file are the same text as in \<open>main.c\<close> and share its definitions\<close>
  "cpp_load_program set_policy data r0 =
     obind (ofail (length data < 6 \<or> take 4 data \<noteq> magic) ''invalid .pyro file (magic)'') (\<lambda>_.
     let ver = data ! 4; flags = data ! 5
     in obind (ofail (ver \<noteq> 2 \<and> ver \<noteq> 3) ''unsupported .pyro version (expected v2 or v3)'') (\<lambda>_.
        obind (rd_u16 data ''constant count'' 6) (\<lambda>(nconsts, pos1).
        obind (need_bytes data pos1 (uint nconsts) ''constant table'') (\<lambda>_.
        obind (load_consts (unat nconsts) ver data pos1 r0) (\<lambda>(consts, pos2, r1).
        obind (rd_u16 data ''function count'' pos2) (\<lambda>(nfuncs, pos3).
        obind (need_bytes data pos3 (uint nfuncs * 9) ''function table'') (\<lambda>_.
        obind (load_list (unat nfuncs) (load_func consts (heap r1) data) pos3) (\<lambda>(funcs, pos4).
        obind (rd_u16 data ''entry function'' pos4) (\<lambda>(entryFn, pos5).
        obind (ofail (nfuncs \<le> entryFn) ''malformed .pyro: entry function index out of range'') (\<lambda>_.
        obind (cpp_load_code flags data pos5) (\<lambda>(code, pos6).
        obind (load_debug flags data pos6) (\<lambda>(dbg, pos7).
        obind (load_assets flags data pos7 r1) (\<lambda>(pos8, r2).
        obind (load_permissions set_policy flags data pos8 r2) (\<lambda>(pos9, r3).
        obind (ofail (list_ex (\<lambda>fn. length code < unat (fi_entry fn)) funcs)
                 ''malformed .pyro: function entry point past the end of the code'') (\<lambda>_.
        Ok (\<lparr>c_consts = consts, c_funcs = funcs, c_entryFn = entryFn, c_code = code, c_dbg = dbg,
             c_sandboxed = (flags AND 0x04 \<noteq> 0)\<rparr>, r3))))))))))))))))"

definition cpp_destroy_program :: "cpp_program \<Rightarrow> cpp_vm \<Rightarrow> rt outcome" where
  \<comment> \<open>\<open>~Program\<close>\<close>
  "cpp_destroy_program p s = ofold (\<lambda>v. with_heap (release_value v)) (c_consts p) (c_rt s)"

definition cpp_main :: "nat \<Rightarrow> native_fn \<Rightarrow> string list \<Rightarrow> string \<Rightarrow> string \<Rightarrow> string \<Rightarrow> u8 list \<Rightarrow> rt outcome option" where
  "cpp_main n nf args input policy_env sandbox_env data =
     (case obind (configure policy_env sandbox_env (startup args input)) (cpp_load_program pyro_policy_artifact data) of
        Ok (p, r) \<Rightarrow> map_option (\<lambda>m. obind m (cpp_destroy_program p)) (cpp_run_program n nf p r)
      | Fatal m \<Rightarrow> Some (Fatal m)
      | UB u \<Rightarrow> Some (UB u)
      | Diverge \<Rightarrow> Some Diverge)"

definition cpp_process :: "nat \<Rightarrow> native_fn \<Rightarrow> process \<Rightarrow> exit" where
  "cpp_process n nf pr =
     read_file_then pr ''[Pyro VM C++] usage: pyrovm_cpp program.pyro'' ''[Pyro VM C++] could not read: ''
       ''Fatal error: error reading file'' (cpp_main n nf)"

end
