(* ===== verification/CppParity.thy ===== *)
theory CppParity
  imports CppEngine
begin

text \<open>
  The C++ engine refines the C engine: \<open>vm_of\<close> reads the arrays of \<open>CppEngine\<close> as the lists of \<open>Machine\<close>,
  and every instruction of one is, through \<open>vm_of\<close>, the instruction of the other. The exceptions are the ones
  the sources have: \<open>snprintf\<close> in place of \<open>sprintf\<close> in \<open>opASSERT\<close> and \<open>opTHROW\<close>, the globals that only
  \<open>main.cpp\<close> releases at the end, and the message for \<open>opSPAWN\<close> and \<open>opAWAIT\<close>.
\<close>

section \<open>Outcomes seen through a function\<close>

lemma obind_map_outcome: "obind (map_outcome g m) f = obind m (\<lambda>x. f (g x))"
  by (cases m) simp_all

lemma map_outcome_obind: "map_outcome g (obind m f) = obind m (\<lambda>x. map_outcome g (f x))"
  by (cases m) simp_all

lemma map_outcome_guards [simp]: "map_outcome g (oguard b u) = obind (oguard b u) (\<lambda>x. Ok (g x))"
    "map_outcome g (ofail b e) = obind (ofail b e) (\<lambda>x. Ok (g x))"
  by (auto simp: oguard_def ofail_def)

lemma ofold_sim:
  assumes "\<And>x s. x \<in> set xs \<Longrightarrow> f x (\<alpha> s) = map_outcome \<alpha> (g x s)"
  shows "ofold f xs (\<alpha> s) = map_outcome \<alpha> (ofold g xs s)"
  using assms by (induction xs arbitrary: s) (simp_all add: obind_map_outcome map_outcome_obind)

section \<open>The abstraction\<close>

definition prog_of :: "cpp_program \<Rightarrow> program" where
  "prog_of p = \<lparr>p_consts = c_consts p, p_funcs = c_funcs p, p_entryFn = c_entryFn p, p_code = c_code p,
     p_codelen = c_codelen p, p_dbg = c_dbg p, p_sandboxed = c_sandboxed p\<rparr>"

definition top_first :: "(nat \<Rightarrow> 'a) \<Rightarrow> nat \<Rightarrow> 'a list" where
  "top_first a n = rev (map a [0..<n])"

definition vm_of :: "cpp_vm \<Rightarrow> vm" where
  "vm_of s = \<lparr>v_pc = g_pc s, v_stk = top_first (g_stack s) (g_sp s), v_locals = g_locals s,
     v_frames = top_first (g_frames s) (g_fp s), v_handlers = top_first (g_handlers s) (g_hp s),
     v_globals = globals s, v_rt = c_rt s\<rparr>"

lemma prog_of_simps [simp]:
  "p_consts (prog_of p) = c_consts p" "p_funcs (prog_of p) = c_funcs p" "p_entryFn (prog_of p) = c_entryFn p"
  "p_code (prog_of p) = c_code p" "p_codelen (prog_of p) = c_codelen p" "p_dbg (prog_of p) = c_dbg p"
  "p_sandboxed (prog_of p) = c_sandboxed p"
  by (simp_all add: prog_of_def)

lemma vm_of_simps [simp]:
  "v_pc (vm_of s) = g_pc s" "v_stk (vm_of s) = top_first (g_stack s) (g_sp s)" "v_locals (vm_of s) = g_locals s"
  "v_frames (vm_of s) = top_first (g_frames s) (g_fp s)" "v_handlers (vm_of s) = top_first (g_handlers s) (g_hp s)"
  "v_globals (vm_of s) = globals s" "v_rt (vm_of s) = c_rt s"
  by (simp_all add: vm_of_def)

lemma top_first_simps [simp]:
  "top_first a 0 = []" "top_first a (Suc n) = a n # top_first a n" "length (top_first a n) = n"
  "top_first a n = [] \<longleftrightarrow> n = 0"
  by (simp_all add: top_first_def)

lemma top_first_upd: "n \<le> i \<Longrightarrow> top_first (a(i := x)) n = top_first a n"
  by (simp add: top_first_def)

lemma top_first_drop: "drop k (top_first a n) = top_first a (n - k)"
  by (simp add: top_first_def drop_rev take_map)

lemma top_first_take: "k \<le> n \<Longrightarrow> rev (take k (top_first a n)) = map a [n - k..<n]"
  by (simp add: top_first_def take_rev drop_map flip: rev_map)

section \<open>What the instructions share\<close>

text \<open>
  \<open>\<alpha>\<close> is a view when it shows the runtime state and the locals as they are. The loops of \<open>main.cpp\<close> run
  before \<open>g_sp\<close> is lowered and those of the list model after, so they are seen through different views.
\<close>

locale view =
  fixes \<alpha> :: "cpp_vm \<Rightarrow> vm"
  assumes rt: "v_rt (\<alpha> s) = c_rt s"
    and rt_upd: "(\<alpha> s)\<lparr>v_rt := r\<rparr> = \<alpha> (s\<lparr>c_rt := r\<rparr>)"
    and locals: "v_locals (\<alpha> s) = g_locals s"
    and locals_upd: "(\<alpha> s)\<lparr>v_locals := l\<rparr> = \<alpha> (s\<lparr>g_locals := l\<rparr>)"
begin

lemma heap: "the_heap (\<alpha> s) = heap (c_rt s)"
  by (simp add: the_heap_def rt)

lemma on_heap: "on_heap f (\<alpha> s) = map_outcome \<alpha> (c_heap f s)"
  by (simp add: on_heap_def c_heap_def rt rt_upd map_outcome_obind)

lemma on_heap_val: "on_heap_val f (\<alpha> s) = map_outcome (map_prod id \<alpha>) (c_heap_val f s)"
  by (simp add: on_heap_val_def c_heap_val_def rt rt_upd map_outcome_obind split_def)

lemma release: "release v (\<alpha> s) = map_outcome \<alpha> (c_release v s)"
  by (simp add: release_def c_release_def on_heap)

lemma retain: "retain v (\<alpha> s) = map_outcome \<alpha> (c_retain v s)"
  by (simp add: retain_def c_retain_def on_heap)

lemma get_local: "get_local i (\<alpha> s) = c_local i s"
  by (simp add: get_local_def c_local_def locals)

lemma set_local: "set_local i v (\<alpha> s) = map_outcome \<alpha> (c_set_local i v s)"
  by (simp add: set_local_def c_set_local_def locals locals_upd map_outcome_obind)

lemma set_locals: "set_locals b vs (\<alpha> s) = map_outcome \<alpha> (c_copy_locals b vs s)"
  unfolding set_locals_def c_copy_locals_def by (rule ofold_sim) (auto simp: set_local)

lemma null_locals: "null_locals b n (\<alpha> s) = map_outcome \<alpha> (c_null_locals b n s)"
  by (simp add: null_locals_def c_null_locals_def locals locals_upd map_outcome_obind cong: if_cong)

lemma print: "print t (\<alpha> s) = \<alpha> (c_print t s)"
  by (simp add: print_def c_print_def rt rt_upd)

lemma release_locals: "release_locals f (\<alpha> s) = map_outcome \<alpha> (cpp_release_locals f s)"
  unfolding release_locals_def cpp_release_locals_def
  by (rule ofold_sim) (simp add: get_local release map_outcome_obind)

lemma captures: "captures c (\<alpha> s) = cpp_captures c s"
  by (simp add: captures_def cpp_captures_def heap split: option.split)

lemma release_all: "ofold release vs (\<alpha> s) = map_outcome \<alpha> (ofold c_release vs s)"
  by (rule ofold_sim) (rule release)

lemma push_all: "ofold (\<lambda>v. on_heap (f v)) vs (\<alpha> s) = map_outcome \<alpha> (ofold (\<lambda>v. c_heap (f v)) vs s)"
  by (rule ofold_sim) (rule on_heap)

lemma push_release_all:
  "ofold (\<lambda>v s. obind (on_heap (f v) s) (release v)) vs (\<alpha> s) =
     map_outcome \<alpha> (ofold (\<lambda>v s. obind (c_heap (f v) s) (c_release v)) vs s)"
  by (rule ofold_sim) (simp add: on_heap release obind_map_outcome map_outcome_obind)

lemma captures_all:
  "ofold (\<lambda>(i, c) s. obind (retain c s) (set_local (b + i) c)) ics (\<alpha> s) =
     map_outcome \<alpha> (ofold (\<lambda>(i, c) s. obind (c_retain c s) (c_set_local (b + i) c)) ics s)"
  by (rule ofold_sim) (auto simp: retain set_local obind_map_outcome map_outcome_obind)

end

interpretation whole: view vm_of
  by unfold_locales (simp_all add: vm_of_def)

definition vm_at :: "nat \<Rightarrow> cpp_vm \<Rightarrow> vm" where
  \<comment> \<open>with the value stack cut at height \<open>b\<close>\<close>
  "vm_at b s = vm_of (s\<lparr>g_sp := b\<rparr>)"

interpretation cut: view "vm_at b" for b
  by unfold_locales (simp_all add: vm_of_def vm_at_def)

section \<open>The stacks\<close>

lemma push_abs: "push v (vm_of s) = vm_of (c_push v s)"
  by (simp add: push_def c_push_def vm_of_def top_first_upd)

lemma pop_abs: "pop (vm_of s) = map_outcome (map_prod id vm_of) (c_pop s)"
  by (cases "g_sp s") (simp_all add: pop_def c_pop_def vm_of_def)

lemma popn_abs: "popn n (vm_of s) = obind (c_slots n s) (\<lambda>vs. Ok (vs, vm_at (g_sp s - n) s))"
  by (simp add: popn_def c_slots_def top_first_take top_first_drop vm_at_def vm_of_def oguard_def)

lemma top_frame_abs: "top_frame (vm_of s) = c_frame s"
  by (cases "g_fp s") (simp_all add: top_frame_def c_frame_def)

lemma top_frame_abs_at: "top_frame (vm_at b s) = c_frame s"
  using top_frame_abs [of "s\<lparr>g_sp := b\<rparr>"] by (simp add: vm_at_def c_frame_def)

lemma c_top_Ok: "c_top s = Ok v \<longleftrightarrow> 0 < g_sp s \<and> v = g_stack s (g_sp s - 1)"
  by (auto simp: c_top_def outcome_simps)

lemma top_slot_abs:
  "top_slot (vm_of s) = obind (c_top s) (\<lambda>v. Ok (v, \<lambda>w t. t\<lparr>v_stk := w # tl (v_stk t)\<rparr>))"
  by (cases "g_sp s") (simp_all add: top_slot_def c_top_def)

lemma set_top_vm_of:
  "g_sp s = n \<Longrightarrow> 0 < n \<Longrightarrow> (vm_of s)\<lparr>v_stk := w # tl (top_first (g_stack s) n)\<rparr> = vm_of (c_set_top w s)"
  by (cases n) (simp_all add: vm_of_def c_set_top_def top_first_upd)

lemma next_abs:
  "next8 (prog_of p) (vm_of s) = map_outcome (map_prod id vm_of) (c_next8 p s)"
  "next16 (prog_of p) (vm_of s) = map_outcome (map_prod id vm_of) (c_next16 p s)"
  "next_i32 (prog_of p) (vm_of s) = map_outcome (map_prod id vm_of) (c_next_i32 p s)"
  by (simp_all add: next8_def c_next8_def next16_def c_next16_def next_i32_def c_next_i32_def map_outcome_obind
      split_def vm_of_def)

lemma jump_abs: "jump (prog_of p) rel (vm_of s) = map_outcome vm_of (c_jump p rel s)"
  by (simp add: jump_def c_jump_def map_outcome_obind vm_of_def)

lemma height_heap: "c_heap f s = Ok s' \<Longrightarrow> g_sp s' = g_sp s"
  by (auto simp: c_heap_def outcome_simps)

lemma height_heap_val: "c_heap_val f s = Ok (v, s') \<Longrightarrow> g_sp s' = g_sp s"
  by (auto simp: c_heap_val_def outcome_simps)

lemma height_release: "c_release v s = Ok s' \<Longrightarrow> g_sp s' = g_sp s"
  unfolding c_release_def by (rule height_heap)

lemmas heights = height_heap height_heap_val height_release

lemmas sim_simps = obind_map_outcome map_outcome_obind split_def push_abs pop_abs popn_abs top_frame_abs
  top_frame_abs_at top_slot_abs next_abs jump_abs whole.heap whole.on_heap whole.on_heap_val whole.release
  whole.retain whole.get_local whole.set_local whole.print Let_def

section \<open>Instruction by instruction\<close>

lemma sim_POP: "op_POP (vm_of s) = map_outcome vm_of (cpp_POP s)"
  by (simp add: op_POP_def cpp_POP_def sim_simps)

lemma sim_CONST: "op_CONST (prog_of p) (vm_of s) = map_outcome vm_of (cpp_CONST p s)"
  by (simp add: op_CONST_def cpp_CONST_def sim_simps)

lemma sim_LOAD: "op_LOAD (prog_of p) (vm_of s) = map_outcome vm_of (cpp_LOAD p s)"
  by (simp add: op_LOAD_def cpp_LOAD_def sim_simps)

lemma sim_STORE: "op_STORE (prog_of p) (vm_of s) = map_outcome vm_of (cpp_STORE p s)"
  by (simp add: op_STORE_def cpp_STORE_def sim_simps)

lemma sim_GETGLOBAL: "op_GETGLOBAL (prog_of p) (vm_of s) = map_outcome vm_of (cpp_GETGLOBAL p s)"
  by (simp add: op_GETGLOBAL_def cpp_GETGLOBAL_def sim_simps cong: if_cong)

lemma sim_BIN: "op_BIN x (vm_of s) = map_outcome vm_of (cpp_BIN x s)"
  by (simp add: op_BIN_def cpp_BIN_def sim_simps)

lemma sim_COALESCE: "op_COALESCE (vm_of s) = map_outcome vm_of (cpp_COALESCE s)"
  by (auto simp add: op_COALESCE_def cpp_COALESCE_def sim_simps intro!: obind_cong)

lemma sim_JMP: "op_JMP (prog_of p) (vm_of s) = map_outcome vm_of (cpp_JMP p s)"
  by (simp add: op_JMP_def cpp_JMP_def sim_simps)

lemma sim_JMPC:
  "op_JMPC False (prog_of p) (vm_of s) = map_outcome vm_of (cpp_JMPF p s)"
  "op_JMPC True (prog_of p) (vm_of s) = map_outcome vm_of (cpp_JMPT p s)"
  by (auto simp add: op_JMPC_def cpp_JMPF_def cpp_JMPT_def sim_simps intro!: obind_cong)

lemma sim_PUSHFN: "op_PUSHFN (prog_of p) (vm_of s) = map_outcome vm_of (cpp_PUSHFN p s)"
  by (simp add: op_PUSHFN_def cpp_PUSHFN_def sim_simps)

lemma sim_PRINT: "op_PRINT (vm_of s) = map_outcome vm_of (cpp_PRINT s)"
  by (simp add: op_PRINT_def cpp_PRINT_def sim_simps)

lemma sim_INDEX: "op_INDEX (vm_of s) = map_outcome vm_of (cpp_INDEX s)"
  by (simp add: op_INDEX_def cpp_INDEX_def sim_simps)

lemma sim_SETIDX: "op_SETIDX (vm_of s) = map_outcome vm_of (cpp_SETIDX s)"
  by (simp add: op_SETIDX_def cpp_SETIDX_def sim_simps)

lemma sim_APPEND: "op_APPEND (vm_of s) = map_outcome vm_of (cpp_APPEND s)"
  by (auto simp add: op_APPEND_def cpp_APPEND_def sim_simps intro!: obind_cong split: val.split)

lemma vec_resize_grow: "length gs \<le> n \<Longrightarrow> vec_resize (Suc n) x gs = gs @ replicate (Suc n - length gs) x"
  by (simp add: vec_resize_def)

lemma globals_upd: "(vm_of s)\<lparr>v_globals := gs\<rparr> = vm_of (s\<lparr>globals := gs\<rparr>)"
  by (simp add: vm_of_def)

lemma sim_SETGLOBAL: "op_SETGLOBAL (prog_of p) (vm_of s) = map_outcome vm_of (cpp_SETGLOBAL p s)"
proof -
  have grow: "(vm_of t)\<lparr>v_globals := globals t @ replicate (Suc n - length (globals t)) VNull\<rparr> =
      vm_of (if length (globals t) \<le> n then t\<lparr>globals := vec_resize (n + 1) VNull (globals t)\<rparr> else t)" for t n
    by (simp add: vec_resize_grow globals_upd)
  have old: "(globals t @ replicate (Suc n - length (globals t)) VNull) ! n =
      globals (if length (globals t) \<le> n then t\<lparr>globals := vec_resize (n + 1) VNull (globals t)\<rparr> else t) ! n" for t n
    by (simp add: vec_resize_grow nth_append)
  show ?thesis
    by (simp add: op_SETGLOBAL_def cpp_SETGLOBAL_def sim_simps grow globals_upd old cong: if_cong)
qed

lemma sim_NEG: "op_NEG (vm_of s) = map_outcome vm_of (cpp_NEG s)"
  by (auto simp: op_NEG_def cpp_NEG_def sim_simps set_top_vm_of c_top_Ok intro!: obind_cong split: val.split)

lemma sim_BNOT: "op_BNOT (vm_of s) = map_outcome vm_of (cpp_BNOT s)"
  by (auto simp: op_BNOT_def cpp_BNOT_def sim_simps set_top_vm_of c_top_Ok intro!: obind_cong)

lemma sim_NOT: "op_NOT (vm_of s) = map_outcome vm_of (cpp_NOT s)"
  by (auto simp: op_NOT_def cpp_NOT_def sim_simps set_top_vm_of c_top_Ok intro!: obind_cong dest: heights)

lemma sim_LEN: "op_LEN (vm_of s) = map_outcome vm_of (cpp_LEN s)"
  by (auto simp: op_LEN_def cpp_LEN_def sim_simps set_top_vm_of c_top_Ok intro!: obind_cong dest: heights)

lemma sim_HAS: "op_HAS (vm_of s) = map_outcome vm_of (cpp_HAS s)"
  by (auto simp: op_HAS_def cpp_HAS_def sim_simps set_top_vm_of c_top_Ok intro!: obind_cong dest!: heights
      split: val.split)

lemma sim_KEYS: "op_KEYS (vm_of s) = map_outcome vm_of (cpp_KEYS s)"
  by (auto simp: op_KEYS_def cpp_KEYS_def sim_simps set_top_vm_of c_top_Ok intro!: obind_cong dest!: heights
      split: val.split)

lemma sim_TRYPUSH: "op_TRYPUSH (prog_of p) (vm_of s) = map_outcome vm_of (cpp_TRYPUSH p s)"
  by (simp add: op_TRYPUSH_def cpp_TRYPUSH_def sim_simps) (simp add: vm_of_def top_first_upd)

lemma sim_TRYPOP: "op_TRYPOP (vm_of s) = map_outcome vm_of (cpp_TRYPOP s)"
  by (cases "g_hp s") (simp_all add: op_TRYPOP_def cpp_TRYPOP_def vm_of_def)

section \<open>Calls, literals and exceptions\<close>

lemma enter_vm_of: "enter_frame fi f b (vm_of s) = map_outcome vm_of (cpp_enter fi f b s)"
  by (simp add: enter_frame_def cpp_enter_def map_outcome_obind) (simp add: vm_of_def top_first_upd)

lemma limit_vm_of: "locals_limit b f = cpp_locals_limit b f"
  by (simp add: locals_limit_def cpp_locals_limit_def)

lemma cut_heap_val: "on_heap_val f (vm_at b s) = map_outcome (map_prod id vm_of) (c_heap_val f (s\<lparr>g_sp := b\<rparr>))"
  by (simp add: vm_at_def whole.on_heap_val)

lemmas cut_simps = cut.heap cut.on_heap cut_heap_val cut.release cut.null_locals cut.set_locals cut.captures
  cut.release_all cut.push_all cut.push_release_all cut.captures_all [unfolded split_def] whole.null_locals
  enter_vm_of limit_vm_of

lemma height_null_locals: "c_null_locals b n s = Ok s' \<Longrightarrow> g_sp s' = g_sp s"
  by (auto simp: c_null_locals_def outcome_simps)

lemma sim_CALL: "op_CALL (prog_of p) (vm_of s) = map_outcome vm_of (cpp_CALL p s)"
  by (auto simp: op_CALL_def cpp_CALL_def sim_simps cut_simps vm_at_def [symmetric] intro!: obind_cong
      dest!: height_null_locals) (simp add: vm_at_def enter_vm_of)

lemma sim_CLOSURE: "op_CLOSURE (prog_of p) (vm_of s) = map_outcome vm_of (cpp_CLOSURE p s)"
  by (auto simp: op_CLOSURE_def cpp_CLOSURE_def sim_simps cut_simps vm_at_def [symmetric] intro!: obind_cong)
     (simp add: vm_at_def push_abs)

lemma sim_NEWARR: "op_NEWARR (prog_of p) (vm_of s) = map_outcome vm_of (cpp_NEWARR p s)"
  by (auto simp: op_NEWARR_def cpp_NEWARR_def sim_simps cut_simps intro!: obind_cong)

lemma pairs_nth: "length vs = 2 * n \<Longrightarrow> pairs vs = map (\<lambda>i. (vs ! (2 * i), vs ! (2 * i + 1))) [0..<n]"
proof (induction vs arbitrary: n rule: pairs.induct)
  case (1 k v xs)
  then obtain m where m: "n = Suc m" by (cases n) auto
  with 1 have "pairs xs = map (\<lambda>i. (xs ! (2 * i), xs ! (2 * i + 1))) [0..<m]" by simp
  moreover have "[0..<Suc m] = 0 # map Suc [0..<m]" by (simp add: upt_conv_Cons map_Suc_upt)
  ultimately show ?case by (simp add: m)
qed auto

lemma ofold_map: "ofold f (map g xs) s = ofold (\<lambda>x. f (g x)) xs s"
  by (induction xs arbitrary: s) auto

lemma c_slots_Ok: "c_slots n s = Ok vs \<longleftrightarrow> n \<le> g_sp s \<and> vs = map (g_stack s) [g_sp s - n..<g_sp s]"
  by (auto simp: c_slots_def outcome_simps)

lemma sim_NEWMAP: "op_NEWMAP (prog_of p) (vm_of s) = map_outcome vm_of (cpp_NEWMAP p s)"
proof -
  have loop: "ofold f (pairs vs) t = ofold (\<lambda>i. f (vs ! (2 * i), vs ! (2 * i + 1))) [0..<n] t"
    if "c_slots (2 * n) u = Ok vs" for f :: "val \<times> val \<Rightarrow> vm \<Rightarrow> vm outcome" and vs t u n
    using that by (simp add: c_slots_Ok pairs_nth ofold_map)
  have body: "ofold (\<lambda>i s. obind (on_heap (f (vs ! (2 * i)) (vs ! Suc (2 * i))) s)
        (\<lambda>s'. obind (release (vs ! (2 * i)) s') (release (vs ! Suc (2 * i))))) is (vm_at b t) =
      map_outcome (vm_at b) (ofold (\<lambda>i s. obind (c_heap (f (vs ! (2 * i)) (vs ! Suc (2 * i))) s)
        (\<lambda>s'. obind (c_release (vs ! (2 * i)) s') (c_release (vs ! Suc (2 * i))))) is t)" for f vs "is" b t
    by (rule ofold_sim) (simp add: cut_simps obind_map_outcome map_outcome_obind)
  show ?thesis
    by (auto simp: op_NEWMAP_def cpp_NEWMAP_def sim_simps cut_simps loop body intro!: obind_cong)
qed

lemma sim_NATIVE: "op_NATIVE nf (prog_of p) (vm_of s) = map_outcome vm_of (cpp_NATIVE nf p s)"
  by (auto simp: op_NATIVE_def cpp_NATIVE_def sim_simps cut_simps cut.rt_upd intro!: obind_cong)
     (simp add: vm_at_def push_abs)

lemma sim_CALLVALUE: "op_CALLVALUE (prog_of p) (vm_of s) = map_outcome vm_of (cpp_CALLVALUE p s)"
  by (auto simp: op_CALLVALUE_def cpp_CALLVALUE_def sim_simps cut_simps intro!: obind_cong split: val.split)
     (simp add: vm_at_def enter_vm_of)

lemma sim_drop_values:
  "unwind_stack n (v_stk (vm_of s)) (vm_of s) = map_outcome vm_of (c_drop_values (g_sp s - n) s)"
proof (induction "g_sp s - n" arbitrary: s)
  case 0
  then have "unwind_stack n (v_stk (vm_of s)) (vm_of s) = Ok ((vm_of s)\<lparr>v_stk := v_stk (vm_of s)\<rparr>)"
    by (cases "g_sp s") (simp_all add: Suc_le_eq)
  with 0 show ?case by (simp add: vm_of_def)
next
  case (Suc k)
  then obtain m where m: "g_sp s = Suc m" "k = m - n" "n \<le> m" by (cases "g_sp s") auto
  let ?s = "s\<lparr>g_sp := m\<rparr>"
  have pop: "(vm_of s)\<lparr>v_stk := top_first (g_stack s) m\<rparr> = vm_of ?s" by (simp add: vm_of_def)
  have step: "unwind_stack n (top_first (g_stack s) m) (vm_of t) = map_outcome vm_of (c_drop_values k t)"
    if "c_release v ?s = Ok t" for t v
  proof -
    have "g_sp t = m" "g_stack t = g_stack s"
      using that by (auto simp: c_release_def c_heap_def outcome_simps)
    with Suc.hyps(1) [of t] m show ?thesis by simp
  qed
  have "c_drop_values (g_sp s - n) s = obind (c_release (g_stack s m) ?s) (c_drop_values k)"
    using m by (simp add: Suc_diff_le c_pop_def)
  then show ?case
    using m by (simp add: pop whole.release obind_map_outcome map_outcome_obind) (auto intro!: obind_cong step [unfolded m(2)])
qed

lemma sim_drop_frames:
  "unwind_frames n (v_frames (vm_of s)) (vm_of s) = map_outcome vm_of (c_drop_frames (g_fp s - n) s)"
proof (induction "g_fp s - n" arbitrary: s)
  case 0
  then have "unwind_frames n (v_frames (vm_of s)) (vm_of s) = Ok ((vm_of s)\<lparr>v_frames := v_frames (vm_of s)\<rparr>)"
    by (cases "g_fp s") (simp_all add: Suc_le_eq)
  with 0 show ?case by (simp add: vm_of_def)
next
  case (Suc k)
  then obtain m where m: "g_fp s = Suc m" "k = m - n" "n \<le> m" by (cases "g_fp s") auto
  let ?s = "s\<lparr>g_fp := m\<rparr>"
  have pop: "(vm_of s)\<lparr>v_frames := top_first (g_frames s) m\<rparr> = vm_of ?s" by (simp add: vm_of_def)
  have step: "unwind_frames n (top_first (g_frames s) m) (vm_of t) = map_outcome vm_of (c_drop_frames k t)"
    if "cpp_release_locals f ?s = Ok t" for t f
  proof -
    have "g_fp t = g_fp ?s \<and> g_frames t = g_frames ?s"
      using that unfolding cpp_release_locals_def
      by (rule ofold_invariant) (auto simp: c_release_def c_heap_def outcome_simps)
    with Suc.hyps(1) [of t] m show ?thesis by simp
  qed
  have "c_drop_frames (g_fp s - n) s = obind (cpp_release_locals (g_frames s m) ?s) (c_drop_frames k)"
    using m by (simp add: Suc_diff_le c_frame_def)
  then show ?case
    using m by (simp add: pop whole.release_locals obind_map_outcome map_outcome_obind) (auto intro!: obind_cong step [unfolded m(2)])
qed

lemma sim_raise: "raise_exception v (vm_of s) = map_outcome (map_prod id vm_of) (cpp_raise_exception v s)"
proof (cases "g_hp s")
  case 0
  then show ?thesis by (simp add: raise_exception_def cpp_raise_exception_def)
next
  case (Suc n)
  have pop: "(vm_of s)\<lparr>v_handlers := top_first (g_handlers s) n\<rparr> = vm_of (s\<lparr>g_hp := n\<rparr>)" by (simp add: vm_of_def)
  have pc: "(vm_of t)\<lparr>v_pc := i\<rparr> = vm_of (t\<lparr>g_pc := i\<rparr>)" for t i by (simp add: vm_of_def)
  show ?thesis
    using Suc sim_drop_values [of _ "s\<lparr>g_hp := n\<rparr>"] sim_drop_frames
    by (auto simp: raise_exception_def cpp_raise_exception_def pop pc sim_simps intro!: obind_cong)
qed

section \<open>Instructions where the two sources differ\<close>

definition parity :: "'a outcome \<Rightarrow> 'a outcome \<Rightarrow> bool" where
  \<comment> \<open>equal, unless the C engine overruns its message buffer\<close>
  "parity m m' \<longleftrightarrow> m = UB BufferOverflow \<or> m = m'"

lemma parity_refl [simp]: "parity m m"
  by (simp add: parity_def)

lemma parity_obind: "(\<And>x. m = Ok x \<Longrightarrow> parity (f x) (g x)) \<Longrightarrow> parity (obind m f) (obind m g)"
  by (cases m) (auto simp: parity_def)

lemma parity_obind_left: "parity m m' \<Longrightarrow> parity (obind m f) (obind m' f)"
  by (auto simp: parity_def)

lemma parity_err_buf: "(length t < 1024 \<Longrightarrow> parity (f t) (g (snprintf_err t))) \<Longrightarrow>
    parity (obind (err_buf t) f) (g (snprintf_err t))"
  by (auto simp: err_buf_def oguard_def parity_def)

lemma snprintf_err_short: "length t < 1024 \<Longrightarrow> snprintf_err t = t"
  by (simp add: snprintf_err_def)

lemma sim_UNWRAP: "op_UNWRAP (vm_of s) = map_outcome vm_of (cpp_UNWRAP s)"
proof -
  have pop: "pop (vm_of s) = Ok (VNull, vm_of (s\<lparr>g_sp := g_sp s - 1\<rparr>))" if "c_top s = Ok VNull"
    using that by (simp add: pop_abs c_top_Ok c_pop_def)
  show ?thesis
  proof (cases "c_top s = Ok VNull")
    case True
    then show ?thesis
      unfolding op_UNWRAP_def cpp_UNWRAP_def top_slot_abs
      by (auto simp: pop Let_def whole.on_heap_val sim_raise obind_map_outcome map_outcome_obind intro!: obind_cong)
  next
    case False
    then show ?thesis
      unfolding op_UNWRAP_def cpp_UNWRAP_def top_slot_abs by (cases "c_top s") auto
  qed
qed

lemma parity_pop:
  assumes "\<And>v t. c_pop s = Ok (v, t) \<Longrightarrow> parity (f v (vm_of t)) (map_outcome vm_of (g v t))"
  shows "parity (obind (pop (vm_of s)) (\<lambda>(v, t). f v t)) (map_outcome vm_of (obind (c_pop s) (\<lambda>(v, t). g v t)))"
  using assms by (cases "c_pop s") (auto simp: pop_abs)

lemma parity_pure:
  assumes "\<And>x. m = Ok x \<Longrightarrow> parity (f x) (map_outcome vm_of (g x))"
  shows "parity (obind m f) (map_outcome vm_of (obind m g))"
  using assms by (cases m) auto

lemma parity_seq:
  assumes "parity m (map_outcome vm_of m')" "\<And>s. f (vm_of s) = map_outcome vm_of (g s)"
  shows "parity (obind m f) (map_outcome vm_of (obind m' g))"
  using assms by (cases m') (auto simp: parity_def)

lemma sim_THROW: "parity (op_THROW (vm_of s)) (map_outcome vm_of (cpp_THROW s))"
  unfolding op_THROW_def cpp_THROW_def
proof (rule parity_pop)
  fix v s1
  show "parity (obind (raise_exception v (vm_of s1)) (\<lambda>(caught, s2). if caught then Ok s2
       else obind (value_to_string (the_heap s2) v) (\<lambda>t. obind (err_buf (''uncaught exception: '' @ t)) Fatal)))
     (map_outcome vm_of (obind (cpp_raise_exception v s1) (\<lambda>(raised, s2). if raised then Ok s2
       else obind (value_to_string (heap (c_rt s2)) v) (\<lambda>t. Fatal (snprintf_err (''uncaught exception: '' @ t))))))"
    unfolding sim_raise obind_map_outcome
  proof (rule parity_pure, clarsimp simp del: append_Cons append_Nil simp: whole.heap, rule parity_pure)
    fix t
    show "parity (obind (err_buf (''uncaught exception: '' @ t)) Fatal)
        (map_outcome vm_of (Fatal (snprintf_err (''uncaught exception: '' @ t))))"
      by (rule parity_err_buf) (simp add: snprintf_err_short)
  qed
qed

lemma sim_ASSERT: "parity (op_ASSERT (vm_of s)) (map_outcome vm_of (cpp_ASSERT s))"
  unfolding op_ASSERT_def cpp_ASSERT_def Let_def
proof (rule parity_pop, rule parity_pop)
  fix cond s1 msg s2
  have err: "parity (obind (err_buf t) (\<lambda>e. obind (on_heap_val (\<lambda>h. Ok (val_str e h)) (vm_of s2))
        (\<lambda>(v, s3). obind (raise_exception v s3) (\<lambda>(caught, s4). if caught then Ok s4 else Fatal e))))
      (map_outcome vm_of (obind (c_heap_val (\<lambda>h. Ok (val_str (snprintf_err t) h)) s2)
        (\<lambda>(v, s3). obind (cpp_raise_exception v s3) (\<lambda>(raised, s4). if raised then Ok s4 else Fatal (snprintf_err t)))))"
    for t
    by (rule parity_err_buf) (auto simp: snprintf_err_short sim_simps sim_raise intro!: parity_obind)
  have part: "parity
      (if t then Ok (vm_of s2) else obind (value_to_string (the_heap (vm_of s2)) msg) (\<lambda>m.
         obind (err_buf (''[Cryo Assert] '' @ m)) (\<lambda>e. obind (on_heap_val (\<lambda>h. Ok (val_str e h)) (vm_of s2))
           (\<lambda>(v, s3). obind (raise_exception v s3) (\<lambda>(caught, s4). if caught then Ok s4 else Fatal e)))))
      (map_outcome vm_of (if t then Ok s2 else obind (value_to_string (heap (c_rt s2)) msg) (\<lambda>m.
         obind (c_heap_val (\<lambda>h. Ok (val_str (snprintf_err (''[Cryo Assert] '' @ m)) h)) s2)
           (\<lambda>(v, s3). obind (cpp_raise_exception v s3) (\<lambda>(raised, s4).
              if raised then Ok s4 else Fatal (snprintf_err (''[Cryo Assert] '' @ m)))))))" for t
    unfolding whole.heap by (cases t) (simp, simp only: if_False, rule parity_pure, rule err)
  show "parity (obind (value_truthy (the_heap (vm_of s2)) cond) (\<lambda>t.
      obind (if t then Ok (vm_of s2) else obind (value_to_string (the_heap (vm_of s2)) msg) (\<lambda>m.
         obind (err_buf (''[Cryo Assert] '' @ m)) (\<lambda>e. obind (on_heap_val (\<lambda>h. Ok (val_str e h)) (vm_of s2))
           (\<lambda>(v, s3). obind (raise_exception v s3) (\<lambda>(caught, s4). if caught then Ok s4 else Fatal e)))))
       (\<lambda>s5. obind (release cond s5) (release msg))))
     (map_outcome vm_of (obind (value_truthy (heap (c_rt s2)) cond) (\<lambda>t.
      obind (if t then Ok s2 else obind (value_to_string (heap (c_rt s2)) msg) (\<lambda>m.
         obind (c_heap_val (\<lambda>h. Ok (val_str (snprintf_err (''[Cryo Assert] '' @ m)) h)) s2)
           (\<lambda>(v, s3). obind (cpp_raise_exception v s3) (\<lambda>(raised, s4).
              if raised then Ok s4 else Fatal (snprintf_err (''[Cryo Assert] '' @ m)))))) 
       (\<lambda>s5. obind (c_release cond s5) (c_release msg)))))"
    by (simp only: whole.heap, rule parity_pure, rule parity_seq [OF part [unfolded whole.heap]])
       (simp add: whole.release obind_map_outcome map_outcome_obind)
qed

section \<open>The step and the run\<close>

definition c_no_scheduler :: string where
  \<comment> \<open>what \<open>main.c\<close> says where \<open>main.cpp\<close> says \<open>cpp_no_scheduler\<close>\<close>
  "c_no_scheduler = ''[Cryo Concurrency] spawn/await need the Go VM '' @ map char_of [0xE2, 0x80, 0x94 :: nat] @
     '' this C VM has no scheduler (roadmap 12.5)''"

definition same_result :: "result outcome \<Rightarrow> cpp_result outcome \<Rightarrow> bool" where
  "same_result m m' \<longleftrightarrow>
     (case m of
        Ok (Next t) \<Rightarrow> \<exists>s. t = vm_of s \<and> m' = Ok (CNext s)
      | Ok (Stop t) \<Rightarrow> \<exists>s. t = vm_of s \<and> m' = cpp_HALT s
      | Fatal e \<Rightarrow> m' = Fatal e \<or> e = c_no_scheduler \<and> m' = Fatal cpp_no_scheduler
      | UB u \<Rightarrow> u = BufferOverflow \<or> m' = UB u
      | Diverge \<Rightarrow> m' = Diverge)"

lemma same_next: "m = map_outcome vm_of m' \<Longrightarrow> same_result (next_vm m) (c_next m')"
  by (cases m') (auto simp: same_result_def next_vm_def c_next_def)

lemma same_parity: "parity m (map_outcome vm_of m') \<Longrightarrow> same_result (next_vm m) (c_next m')"
  by (cases m') (auto simp: same_result_def next_vm_def c_next_def parity_def)

lemma same_pure: "(\<And>x. m = Ok x \<Longrightarrow> same_result (f x) (g x)) \<Longrightarrow> same_result (obind m f) (obind m g)"
  by (cases m) (auto simp: same_result_def)

lemma same_RET: "same_result (op_RET (vm_of s)) (cpp_RET s)"
  unfolding op_RET_def cpp_RET_def pop_abs obind_map_outcome
proof (rule same_pure, clarsimp)
  fix ret s1
  show "same_result (case top_first (g_frames s1) (g_fp s1) of
        [] \<Rightarrow> Fatal ''malformed .pyro: return with no frame to return to''
      | f # fs \<Rightarrow> obind (release_locals f ((vm_of s1)\<lparr>v_frames := fs\<rparr>)) (\<lambda>s2.
         if fr_retpc f < 0 then obind (release ret s2) (\<lambda>s3. Ok (Stop s3))
         else Ok (Next (push ret (s2\<lparr>v_pc := fr_retpc f\<rparr>)))))
     (obind (ofail (g_fp s1 = 0) ''malformed .pyro: return with no frame to return to'') (\<lambda>_.
      let fr = g_frames s1 (g_fp s1 - Suc 0)
      in obind (cpp_release_locals fr (s1\<lparr>g_fp := g_fp s1 - Suc 0\<rparr>)) (\<lambda>s2.
         if fr_retpc fr < 0
         then obind (c_release ret s2) (\<lambda>s3. obind (cpp_release_globals s3) (\<lambda>s4. Ok (CStop s4)))
         else Ok (CNext (c_push ret (s2\<lparr>g_pc := fr_retpc fr\<rparr>))))))"
  proof (cases "g_fp s1")
    case 0
    then show ?thesis by (simp add: same_result_def)
  next
    case (Suc n)
    have pop: "(vm_of s1)\<lparr>v_frames := top_first (g_frames s1) n\<rparr> = vm_of (s1\<lparr>g_fp := n\<rparr>)" by (simp add: vm_of_def)
    have pc: "(vm_of t)\<lparr>v_pc := i\<rparr> = vm_of (t\<lparr>g_pc := i\<rparr>)" for t i by (simp add: vm_of_def)
    have stop: "same_result (Ok (Stop (vm_of t))) (obind (cpp_release_globals t) (\<lambda>s4. Ok (CStop s4)))" for t
      by (auto simp: same_result_def cpp_HALT_def)
    have "same_result (Ok (Next (push ret (vm_of t)))) (Ok (CNext (c_push ret t)))" for t
      by (auto simp: same_result_def push_abs)
    with Suc show ?thesis
      by (auto simp: pop pc Let_def whole.release_locals whole.release obind_map_outcome
          intro!: same_pure stop split del: if_split split: if_splits)
  qed
qed

lemma same_exec: "same_result (exec_op x nf (prog_of p) (vm_of s)) (cpp_exec x nf p s)"
proof -
  have push: "same_result (Ok (Next (push v (vm_of s)))) (Ok (CNext (c_push v s)))" for v
    by (auto simp: same_result_def push_abs)
  have out: "same_result (Ok (Next (print t (vm_of s)))) (Ok (CNext (c_print t s)))" for t
    by (auto simp: same_result_def whole.print)
  have stop: "same_result (Ok (Stop (vm_of s))) (cpp_HALT s)"
    by (auto simp: same_result_def)
  have sched: "same_result (exec_op opSPAWN nf (prog_of p) (vm_of s)) (Fatal cpp_no_scheduler)"
    by (simp add: same_result_def c_no_scheduler_def)
  note rules = same_next [OF sim_POP] same_next [OF sim_CONST] same_next [OF sim_LOAD] same_next [OF sim_STORE]
    same_next [OF sim_GETGLOBAL] same_next [OF sim_SETGLOBAL] same_next [OF sim_BIN] same_next [OF sim_NEG]
    same_next [OF sim_BNOT] same_next [OF sim_NOT] same_next [OF sim_COALESCE] same_next [OF sim_JMP]
    same_next [OF sim_JMPC(1)] same_next [OF sim_JMPC(2)] same_next [OF sim_CALL] same_next [OF sim_PUSHFN]
    same_next [OF sim_CLOSURE] same_next [OF sim_CALLVALUE] same_next [OF sim_PRINT] same_next [OF sim_NEWARR]
    same_next [OF sim_NEWMAP] same_next [OF sim_INDEX] same_next [OF sim_SETIDX] same_next [OF sim_LEN]
    same_next [OF sim_APPEND] same_next [OF sim_HAS] same_next [OF sim_KEYS] same_next [OF sim_NATIVE]
    same_next [OF sim_TRYPUSH] same_next [OF sim_TRYPOP] same_next [OF sim_UNWRAP] same_parity [OF sim_THROW]
    same_parity [OF sim_ASSERT] same_RET push out stop sched [unfolded exec_op.simps]
  show ?thesis
    by (cases x; simp only: exec_op.simps cpp_exec_def opcode.case) (rule rules)+
qed

lemma width_parity: "cpp_operand_width b = pyro_operand_width b"
  by (simp add: cpp_operand_width_def pyro_operand_width_def split: option.split)

lemma tail_parity: "cpp_tail_op x = tail_safe x"
  by (cases x) (simp_all add: cpp_tail_op_def tail_safe_def)

lemma check_parity: "check_operand (prog_of p) b (vm_of s) = cpp_check_operand p b s"
  by (auto simp: check_operand_def cpp_check_operand_def width_parity tail_parity Let_def ofail_def split: option.split)

lemma same_step: "same_result (step nf (prog_of p) (vm_of s)) (cpp_step nf p s)"
  unfolding step_def cpp_step_def next_abs obind_map_outcome
  by (auto simp: check_parity same_exec intro!: same_pure split: option.split)
     (simp add: same_result_def)

definition same_run :: "vm outcome option \<Rightarrow> cpp_vm outcome option \<Rightarrow> bool" where
  \<comment> \<open>the second run ends as the first does, after releasing the globals\<close>
  "same_run m m' \<longleftrightarrow>
     (case m of
        None \<Rightarrow> m' = None
      | Some (Ok t) \<Rightarrow> \<exists>s. t = vm_of s \<and> m' = Some (cpp_release_globals s)
      | Some (Fatal e) \<Rightarrow> m' = Some (Fatal e) \<or> e = c_no_scheduler \<and> m' = Some (Fatal cpp_no_scheduler)
      | Some (UB u) \<Rightarrow> u = BufferOverflow \<or> m' = Some (UB u)
      | Some Diverge \<Rightarrow> m' = Some Diverge)"

lemma same_run: "same_run (run n nf (prog_of p) (vm_of s)) (cpp_run n nf p s)"
proof (induction n arbitrary: s)
  case (Suc n)
  note step = same_step [of nf p s]
  show ?case
  proof (cases "step nf (prog_of p) (vm_of s)")
    case (Ok r)
    show ?thesis
    proof (cases r)
      case (Next t)
      with Ok step Suc.IH show ?thesis by (auto simp: same_result_def)
    next
      case (Stop t)
      with Ok step obtain u where u: "t = vm_of u" "cpp_step nf p s = cpp_HALT u" by (auto simp: same_result_def)
      with Ok Stop show ?thesis
        by (cases "cpp_release_globals u") (auto simp: same_run_def cpp_HALT_def)
    qed
  qed (use step in \<open>auto simp: same_result_def same_run_def\<close>)
qed (simp add: same_run_def)

lemma start_parity: "start (prog_of p) r = map_outcome vm_of (cpp_start p r)"
  by (simp add: start_def cpp_start_def Let_def map_outcome_obind oguard_def vm_of_def)

lemma same_run_program: "same_run (run_program n nf (prog_of p) r) (cpp_run_program n nf p r)"
proof (cases "cpp_start p r")
  case (Ok s)
  then show ?thesis by (simp add: run_program_def cpp_run_program_def start_parity same_run)
qed (simp_all add: run_program_def cpp_run_program_def start_parity same_run_def)

section \<open>Stack traces\<close>

lemma line_parity: "get_line_number t (prog_of p) = cpp_get_line_number t p"
proof -
  have "get_line_from t ds l = (case takeWhile (\<lambda>d. dbg_pc d \<le> t) ds of [] \<Rightarrow> l | es \<Rightarrow> dbg_line (last es))" for ds l
    by (induction ds arbitrary: l) (auto split: list.split)
  then show ?thesis by (simp add: get_line_number_def cpp_get_line_number_def split: list.split)
qed

lemma enumerate_top_first: "enumerate 0 (top_first a n) = map (\<lambda>i. (n - Suc i, a i)) (rev [0..<n])"
proof (rule nth_equalityI)
  fix i assume "i < length (enumerate 0 (top_first a n))"
  then have "i < n" by simp
  then show "enumerate 0 (top_first a n) ! i = map (\<lambda>i. (n - Suc i, a i)) (rev [0..<n]) ! i"
    by (simp add: nth_enumerate_eq top_first_def rev_nth)
qed simp

lemma fatal_report_parity: "cpp_fatal_report msg p s = fatal_report msg (prog_of p) (vm_of s)"
proof -
  let ?name = "\<lambda>f. if fr_fn f < length (c_funcs p) then fi_name (c_funcs p ! fr_fn f) else ''?''"
  let ?line = "\<lambda>b f. cpp_get_line_number (word_of_int (if b then g_pc s else fr_retpc f)) p"
  have entry: "trace_line (prog_of p) (?name f) (?line (g_fp s - Suc i = 0) f) =
      (let fr = f; name = ?name fr; line = ?line (i = g_fp s - 1) fr
       in ''    at '' @ name @ '' (line '' @ show_int line @ '')'' @ [CHR 0x0A])" if "i < g_fp s" for i f
  proof -
    have "g_fp s - Suc i = 0 \<longleftrightarrow> i = g_fp s - 1" using that by auto
    then show ?thesis unfolding trace_line_def Let_def by (simp only:)
  qed
  have "map (\<lambda>(i, f). trace_line (prog_of p) (?name f) (?line (i = 0) f)) (enumerate 0 (v_frames (vm_of s))) =
      map (\<lambda>i. let fr = g_frames s i; name = ?name fr; line = ?line (i = g_fp s - 1) fr
             in ''    at '' @ name @ '' (line '' @ show_int line @ '')'' @ [CHR 0x0A]) (rev [0..<g_fp s])"
    unfolding vm_of_simps enumerate_top_first map_map comp_def prod.case
    by (rule map_cong [OF refl entry]) simp
  then show ?thesis
    unfolding cpp_fatal_report_def fatal_report_def cpp_print_stack_trace_def print_stack_trace_def
      line_parity prog_of_simps vm_of_simps by (simp only:)
qed

section \<open>The whole program\<close>

lemma rd_block_length: "rd_block data what len pos = Ok x \<Longrightarrow> length (fst x) = unat len"
proof -
  assume "rd_block data what len pos = Ok x"
  then have a: "0 \<le> pos" "pos + uint len \<le> int (length data)" "fst x = take (unat len) (drop (nat pos) data)"
    by (auto simp: rd_block_def outcome_simps)
  then have "nat pos + unat len \<le> length data" unfolding uint_nat by linarith
  with a(3) show ?thesis by simp
qed

lemma xor_decode_length: "length (xor_decode bs) = length bs"
proof -
  have "length (xor_decode_from k bs) = length bs" for k
    by (induction bs arbitrary: k) (simp_all add: Let_def)
  then show ?thesis by (simp add: xor_decode_def)
qed

lemma bind_map_cong:
  "(\<And>x. m = Ok x \<Longrightarrow> f x = map_outcome g (f' x)) \<Longrightarrow> obind m f = map_outcome g (obind m f')"
  by (cases m) auto

lemma bind_map_cong2:
  "(\<And>x y. m = Ok (x, y) \<Longrightarrow> f x y = map_outcome g (f' x y)) \<Longrightarrow>
     obind m (\<lambda>(x, y). f x y) = map_outcome g (obind m (\<lambda>(x, y). f' x y))"
  by (cases m) auto

lemma bind_map_cong3:
  "(\<And>x y z. m = Ok (x, y, z) \<Longrightarrow> f x y z = map_outcome g (f' x y z)) \<Longrightarrow>
     obind m (\<lambda>(x, y, z). f x y z) = map_outcome g (obind m (\<lambda>(x, y, z). f' x y z))"
  by (cases m) auto

lemma load_code_cong:
  assumes "\<And>codelen bs pos2. length bs = unat codelen \<Longrightarrow>
    F codelen bs pos2 = map_outcome g (G (if flags AND 0x01 \<noteq> 0 then xor_decode bs else bs) pos2)"
  shows "obind (rd_u32 data ''code length'' pos) (\<lambda>(codelen, pos1).
      obind (rd_block data ''code section'' codelen pos1) (\<lambda>(bs, pos2). F codelen bs pos2)) =
    map_outcome g (obind (cpp_load_code flags data pos) (\<lambda>(bs, pos2). G bs pos2))"
  unfolding cpp_load_code_def split_def map_outcome_obind obind_assoc
  by (auto simp: map_outcome_obind intro!: obind_cong assms dest!: rd_block_length)

lemma load_parity:
  "load_program set_policy data r = map_outcome (map_prod prog_of id) (cpp_load_program set_policy data r)"
  unfolding load_program_def cpp_load_program_def Let_def 
  by (rule bind_map_cong, rule bind_map_cong, rule bind_map_cong2, rule bind_map_cong, rule bind_map_cong3,
      rule bind_map_cong2, rule bind_map_cong, rule bind_map_cong2, rule bind_map_cong2, rule bind_map_cong,
      rule load_code_cong, rule bind_map_cong2, rule bind_map_cong2, rule bind_map_cong2)
     (simp add: check_entries_def prog_of_def c_codelen_def word_less_nat_alt xor_decode_length map_outcome_obind)

definition stops_not :: "'a outcome \<Rightarrow> bool" where
  \<comment> \<open>the computation does not call \<open>fatal\<close>\<close>
  "stops_not m \<longleftrightarrow> (\<forall>e. m \<noteq> Fatal e)"

lemma stops_not_obind: "stops_not m \<Longrightarrow> (\<And>x. m = Ok x \<Longrightarrow> stops_not (f x)) \<Longrightarrow> stops_not (obind m f)"
  by (cases m) (auto simp: stops_not_def)

lemma stops_not_ofold: "(\<And>x s. stops_not (f x s)) \<Longrightarrow> stops_not (ofold f xs s)"
proof (induction xs arbitrary: s)
  case Nil
  then show ?case by (simp add: stops_not_def)
next
  case (Cons x xs)
  then show ?case by (auto intro!: stops_not_obind)
qed

lemma stops_not_deref: "stops_not (deref h a)" "stops_not (UB u)" "stops_not (Ok x)" "stops_not Diverge"
  by (auto simp: deref_def stops_not_def split: option.splits)

lemma stops_not_release_fuel: "stops_not (release_fuel n v h)"
proof (induction n arbitrary: v h)
  case (Suc n)
  then show ?case
    by (auto simp: Let_def intro!: stops_not_obind stops_not_ofold stops_not_deref split: option.splits)
qed (auto simp: stops_not_def split: option.splits)

lemma stops_not_release: "stops_not (with_heap (release_value v) r)"
  by (auto simp: with_heap_def release_value_def intro!: stops_not_obind stops_not_release_fuel stops_not_deref)

lemma only_heap_release: "with_heap (release_value v) r = Ok r' \<Longrightarrow> r'\<lparr>heap := h\<rparr> = r\<lparr>heap := h\<rparr>"
  by (auto simp: with_heap_def outcome_simps)

lemma only_heap_finish:
  "ofold (\<lambda>v. with_heap (release_value v)) vs r = Ok r' \<Longrightarrow> r'\<lparr>heap := h\<rparr> = r\<lparr>heap := h\<rparr>"
  by (rule ofold_invariant [of _ vs r r' "\<lambda>t. t\<lparr>heap := h\<rparr> = r\<lparr>heap := h\<rparr>"]) (auto intro: trans [OF only_heap_release])

lemma release_globals_rt:
  "cpp_release_globals s = obind (ofold (\<lambda>v. with_heap (release_value v)) (globals s) (c_rt s)) (\<lambda>r. Ok (s\<lparr>c_rt := r\<rparr>))"
proof -
  have "ofold c_release gs s = obind (ofold (\<lambda>v. with_heap (release_value v)) gs (c_rt s)) (\<lambda>r. Ok (s\<lparr>c_rt := r\<rparr>))" for gs s
    by (induction gs arbitrary: s) (auto simp: c_release_def c_heap_def intro!: obind_cong)
  then show ?thesis by (simp add: cpp_release_globals_def)
qed

lemma teardown_parity:
  defines "m \<equiv> \<lambda>s p. obind (cpp_release_globals s) (cpp_destroy_program p)"
  shows "stops_not (m s p)" "stops_not (finish (prog_of p) (vm_of s))"
    and "finish (prog_of p) (vm_of s) = Ok r \<Longrightarrow> m s p = Ok r' \<Longrightarrow> r'\<lparr>heap := heap r\<rparr> = r"
proof -
  show "stops_not (m s p)" "stops_not (finish (prog_of p) (vm_of s))"
    by (auto simp: m_def finish_def release_globals_rt cpp_destroy_program_def
        intro!: stops_not_obind stops_not_ofold stops_not_release stops_not_deref)
  assume r: "finish (prog_of p) (vm_of s) = Ok r" and r': "m s p = Ok r'"
  from r' obtain u where "ofold (\<lambda>v. with_heap (release_value v)) (globals s) (c_rt s) = Ok u"
      "ofold (\<lambda>v. with_heap (release_value v)) (c_consts p) u = Ok r'"
    by (auto simp: m_def release_globals_rt cpp_destroy_program_def outcome_simps)
  from only_heap_finish [OF this(1), of "heap r"] only_heap_finish [OF this(2), of "heap r"]
  have "r'\<lparr>heap := heap r\<rparr> = (c_rt s)\<lparr>heap := heap r\<rparr>" by simp
  also have "\<dots> = r" using only_heap_finish [of _ _ r "heap r"] r by (simp add: finish_def)
  finally show "r'\<lparr>heap := heap r\<rparr> = r" .
qed

text \<open>The C++ engine, with its array stacks, runs every file as the C engine does: it stops with the same message (up to the name of the engine in the one about the scheduler), is still running when the C engine is, and after a normal end its runtime state differs from that of the C engine in the heap only.\<close>

theorem cpp_main_parity:
  "case pyro_main n nf args input policy_env sandbox_env data of
     None \<Rightarrow> cpp_main n nf args input policy_env sandbox_env data = None
   | Some (Fatal e) \<Rightarrow> cpp_main n nf args input policy_env sandbox_env data = Some (Fatal e) \<or>
       e = c_no_scheduler \<and> cpp_main n nf args input policy_env sandbox_env data = Some (Fatal cpp_no_scheduler)
   | Some (Ok r) \<Rightarrow> \<exists>m. cpp_main n nf args input policy_env sandbox_env data = Some m \<and> stops_not m \<and>
       (\<forall>r'. m = Ok r' \<longrightarrow> r'\<lparr>heap := heap r\<rparr> = r)
   | _ \<Rightarrow> True"
proof -
  let ?load = "obind (configure policy_env sandbox_env (startup args input)) (cpp_load_program pyro_policy_artifact data)"
  have load: "obind (configure policy_env sandbox_env (startup args input)) (load_program pyro_policy_artifact data) =
      map_outcome (map_prod prog_of id) ?load"
    unfolding map_outcome_obind by (intro obind_cong refl load_parity)
  show ?thesis
  proof (cases ?load)
    case (Ok x)
    obtain p r where x: "x = (p, r)" by (cases x)
    note same = same_run_program [of n nf p r]
    have c: "pyro_main n nf args input policy_env sandbox_env data = map_option (\<lambda>m. obind m (finish (prog_of p))) (run_program n nf (prog_of p) r)"
      unfolding pyro_main_def load by (simp add: Ok x run_and_finish_def)
    have cpp: "cpp_main n nf args input policy_env sandbox_env data = map_option (\<lambda>m. obind m (cpp_destroy_program p)) (cpp_run_program n nf p r)"
      by (simp add: cpp_main_def Ok x)
    show ?thesis
    proof (cases "run_program n nf (prog_of p) r")
      case (Some m)
      show ?thesis
      proof (cases m)
        case (Ok t)
        with same Some obtain s where s: "t = vm_of s" "cpp_run_program n nf p r = Some (cpp_release_globals s)"
          by (auto simp: same_run_def)
        show ?thesis
          using teardown_parity(1) [of s p] teardown_parity(2,3) [of p s] unfolding c cpp Some Ok s
          by (auto simp: stops_not_def split: outcome.splits)
      qed (use same Some c cpp in \<open>auto simp: same_run_def\<close>)
    qed (use same c cpp in \<open>simp add: same_run_def\<close>)
  qed (simp_all add: pyro_main_def cpp_main_def load)
qed

theorem cpp_main_parity_witness:
  "\<exists>r m. pyro_main 3 no_native [] [] [] [] halt_file = Some (Ok r) \<and> cpp_main 3 no_native [] [] [] [] halt_file = Some m \<and>
     (\<forall>r'. m = Ok r' \<longrightarrow> out r' = out r)"
proof -
  obtain r where r: "pyro_main 3 no_native [] [] [] [] halt_file = Some (Ok r)"
    using halt_file_runs by (auto split: option.splits outcome.splits)
  with cpp_main_parity [of 3 no_native "[]" "[]" "[]" "[]" halt_file] obtain m where
      m: "cpp_main 3 no_native [] [] [] [] halt_file = Some m" "\<forall>r'. m = Ok r' \<longrightarrow> r'\<lparr>heap := heap r\<rparr> = r"
    by auto
  have "out r' = out r" if "m = Ok r'" for r'
  proof -
    have "out (r'\<lparr>heap := heap r\<rparr>) = out r" using m(2) that by simp
    then show ?thesis by simp
  qed
  with r m(1) show ?thesis by blast
qed

lemma process_cases:
  obtains (Bad) m m' where "c_process n nf pr = Refused m" "cpp_process n nf pr = Refused m'"
  | (Run) args input pe se data where "c_process n nf pr = Ran (pyro_main n nf args input pe se data)"
      "cpp_process n nf pr = Ran (cpp_main n nf args input pe se data)"
proof (cases "2 \<le> length (pr_argv pr) \<and> (\<exists>bytes. pr_file pr (pr_argv pr ! 1) = Some (length bytes, bytes))")
  case True
  then show thesis using Run by (force simp: c_process_def cpp_process_def read_file_then_def Let_def)
next
  case False
  have "\<exists>m. read_file_then pr u v w go = Refused m" for u v w go
    using False by (cases "pr_file pr (pr_argv pr ! 1)") (auto simp: read_file_then_def Let_def)
  then show thesis using Bad unfolding c_process_def cpp_process_def by metis
qed


definition halt_process :: process where
  "halt_process = \<lparr>pr_argv = [''pyrovm'', ''halt.pyro'', ''x''], pr_env = (\<lambda>_. []), pr_input = [],
     pr_file = (\<lambda>p. if p = ''halt.pyro'' then Some (28, halt_file) else None)\<rparr>"

lemma halt_process_runs: "case c_process 3 no_native halt_process of Ran (Some (Ok r)) \<Rightarrow> argv r = [''x''] | _ \<Rightarrow> False"
  by code_simp


end
