(* ===== verification/Numbers.thy ===== *)
theory Numbers
  imports Strings
begin

text \<open>
  Reading numbers: \<open>strtoll\<close> in base ten and \<open>strtod\<close> of the C library, as the runtime calls them, and
  the two conversions built on them (\<open>to_int\<close>, \<open>to_number\<close>: cases 9 and 10 of \<open>native\<close>). A decimal or
  hexadecimal literal is rounded once, to nearest; the flag says that it was out of range.
\<close>

section \<open>Integers\<close>

definition split_sign :: "string \<Rightarrow> bool \<times> string" where
  "split_sign s = (case s of
       c # cs \<Rightarrow> if c = CHR ''-'' then (True, cs) else if c = CHR ''+'' then (False, cs) else (False, s)
     | [] \<Rightarrow> (False, s))"

definition dec_value :: "string \<Rightarrow> int" where
  "dec_value ds = foldl (\<lambda>v d. v * 10 + (int (code d) - 48)) 0 ds"

definition strtoll :: "string \<Rightarrow> int \<times> string \<times> bool" where
  \<comment> \<open>the value, what was not read, and \<open>errno == ERANGE\<close>; without digits nothing is read\<close>
  "strtoll s =
     (let (neg, t) = split_sign (dropWhile isspace s);
          ds = takeWhile isdigit t;
          v = (if neg then - dec_value ds else dec_value ds)
      in if ds = [] then (0, s, False)
         else if v < -(2 ^ 63) then (-(2 ^ 63), dropWhile isdigit t, True)
         else if 2 ^ 63 - 1 < v then (2 ^ 63 - 1, dropWhile isdigit t, True)
         else (v, dropWhile isdigit t, False))"

definition to_int_str :: "string \<Rightarrow> i64 outcome" where
  \<comment> \<open>\<open>to_int\<close> of a C string\<close>
  "to_int_str s0 =
     (let s = dropWhile isspace s0; (v, rest, range) = strtoll s
      in if dropWhile isspace rest \<noteq> [] \<or> rest = s \<or> range
         then obind (err_buf (''[Cryo Security] to_int: '' @ [CHR 0x27] @ s0 @ [CHR 0x27] @ '' is not a valid integer'')) Fatal
         else Ok (word_of_int v))"

section \<open>Doubles\<close>

definition lower_eq :: "string \<Rightarrow> string \<Rightarrow> bool" where
  \<comment> \<open>does \<open>s\<close> begin with the lower-case word \<open>w\<close>, whatever its case\<close>
  "lower_eq w s \<longleftrightarrow> map tolower (take (length w) s) = w"

definition isxdigit :: "char \<Rightarrow> bool" where
  "isxdigit c \<longleftrightarrow> 0 \<le> pyro_unhex c"

definition hex_value :: "string \<Rightarrow> int" where
  "hex_value ds = foldl (\<lambda>v d. v * 16 + pyro_unhex d) 0 ds"

definition digits_point :: "(char \<Rightarrow> bool) \<Rightarrow> string \<Rightarrow> string \<times> string \<times> string" where
  \<comment> \<open>the digits before and after a point, and the rest\<close>
  "digits_point ok s =
     (let a = takeWhile ok s; t = dropWhile ok s
      in case t of
           c # u \<Rightarrow> if c = CHR ''.'' \<and> (a \<noteq> [] \<or> takeWhile ok u \<noteq> []) then (a, takeWhile ok u, dropWhile ok u) else (a, [], t)
         | [] \<Rightarrow> (a, [], t))"

definition exponent :: "char \<Rightarrow> string \<Rightarrow> int \<times> string" where
  \<comment> \<open>an exponent is read only when it has digits\<close>
  "exponent e s = (case s of
       c # cs \<Rightarrow>
         if tolower c = e then
           let (neg, t) = split_sign cs; ds = takeWhile isdigit t
           in if ds = [] then (0, s) else ((if neg then - dec_value ds else dec_value ds), dropWhile isdigit t)
         else (0, s)
     | [] \<Rightarrow> (0, s))"

definition scaled :: "bool \<Rightarrow> int \<Rightarrow> int \<Rightarrow> int \<Rightarrow> f64" where
  \<comment> \<open>\<open>m * b ^ e\<close>, rounded\<close>
  "scaled neg m b e = (if 0 \<le> e then f_of_ratio neg (m * b ^ nat e) 1 else f_of_ratio neg m (b ^ nat (- e)))"

definition strtod :: "string \<Rightarrow> f64 \<times> string \<times> bool" where
  \<comment> \<open>the flag is \<open>errno == ERANGE && isinf(val)\<close>\<close>
  "strtod s =
     (let (neg, t) = split_sign (dropWhile isspace s)
      in if lower_eq ''infinity'' t then (f_inf neg, drop 8 t, False)
         else if lower_eq ''inf'' t then (f_inf neg, drop 3 t, False)
         else if lower_eq ''nan'' t then
           let u = drop 3 t; body = takeWhile (\<lambda>c. isxdigit c \<or> tolower c \<noteq> c \<or> toupper c \<noteq> c \<or> c = CHR ''_'') (drop 1 u)
           in (f_nan OR (if neg then push_bit 63 1 else 0),
               (if take 1 u = ''('' \<and> take 1 (drop (1 + length body) u) = '')'' then drop (2 + length body) u else u), False)
         else if lower_eq ''0x'' t \<and> (let (a, b, _) = digits_point isxdigit (drop 2 t) in a @ b \<noteq> []) then
           let (a, b, u) = digits_point isxdigit (drop 2 t); (e, rest) = exponent (CHR ''p'') u;
               v = scaled neg (hex_value (a @ b)) 2 (e - 4 * int (length b))
           in (v, rest, f_isinf v)
         else
           let (a, b, u) = digits_point isdigit t; (e, rest) = exponent (CHR ''e'') u;
               v = scaled neg (dec_value (a @ b)) 10 (e - int (length b))
           in if a @ b = [] then (0, s, False) else (v, rest, f_isinf v))"

definition to_number_str :: "string \<Rightarrow> f64 outcome" where
  "to_number_str s0 =
     (let s = dropWhile isspace s0; (v, rest, range) = strtod s
      in if dropWhile isspace rest \<noteq> [] \<or> rest = s \<or> range
         then obind (err_buf (''[Cryo Security] to_number: '' @ [CHR 0x27] @ s0 @ [CHR 0x27] @ '' is not a valid number'')) Fatal
         else Ok v)"

section \<open>Printing an integer and reading it back\<close>

lemma isdigit_digit_char: "d < 10 \<Longrightarrow> isdigit (digit_char d)"
  by (simp add: isdigit_def code_def of_char_digit_char)

lemma dec_value_snoc: "dec_value (ds @ [d]) = dec_value ds * 10 + (int (code d) - 48)"
  by (simp add: dec_value_def)

lemma show_pos_digits: "0 \<le> n \<Longrightarrow> list_all isdigit (show_pos n) \<and> dec_value (show_pos n) = n"
proof (induction n rule: show_pos.induct)
  case (1 n)
  show ?case
  proof (cases "n < 10")
    case True
    with 1(2) show ?thesis
      by (subst show_pos.simps, subst (2) show_pos.simps)
         (simp add: isdigit_digit_char dec_value_def code_def of_char_digit_char)
  next
    case False
    then have "list_all isdigit (show_pos (n div 10)) \<and> dec_value (show_pos (n div 10)) = n div 10"
      using 1 by simp
    with False show ?thesis
      by (subst show_pos.simps, subst (2) show_pos.simps)
         (simp add: isdigit_digit_char dec_value_snoc code_def of_char_digit_char)
  qed
qed

lemma digits_front:
  assumes "list_all isdigit ds" "rest = [] \<or> \<not> isdigit (hd rest)"
  shows "takeWhile isdigit (ds @ rest) = ds" "dropWhile isdigit (ds @ rest) = rest"
  using assms by (induction ds; cases rest; auto)+

lemma digit_not_special: "isdigit c \<Longrightarrow> \<not> isspace c \<and> c \<noteq> CHR ''-'' \<and> c \<noteq> CHR ''+''"
  by (auto simp: isdigit_def isspace_def code_def)

lemma strtoll_show:
  assumes i: "in_i64 i" and rest: "rest = [] \<or> \<not> isdigit (hd rest)"
  shows "strtoll (show_int i @ rest) = (i, rest, False)"
proof -
  have sp: "\<not> isspace (CHR ''-'')" by (simp add: isspace_def code_def)
  have pos: "split_sign (dropWhile isspace (show_pos n @ t)) = (False, show_pos n @ t)" if "0 \<le> n" for n t
  proof -
    obtain d ds where d: "show_pos n = d # ds" by (cases "show_pos n") auto
    with show_pos_digits [OF that] have "isdigit d" by simp
    from digit_not_special [OF this] show ?thesis by (simp add: d split_sign_def)
  qed
  have front: "takeWhile isdigit (show_pos n @ rest) = show_pos n" "dropWhile isdigit (show_pos n @ rest) = rest"
      "dec_value (show_pos n) = n" if "0 \<le> n" for n
    using digits_front [OF _ rest, of "show_pos n"] show_pos_digits [OF that] by auto
  show ?thesis
  proof (cases "i < 0")
    case True
    then have "0 \<le> - i" by simp
    from front [OF this] True i sp show ?thesis
      by (simp add: strtoll_def show_int_def split_sign_def Let_def in_i64_def)
  next
    case False
    then have "0 \<le> i" by simp
    from front [OF this] pos [OF this, of rest] False i show ?thesis
      by (simp add: strtoll_def show_int_def Let_def in_i64_def)
  qed
qed

lemma to_int_show: "to_int_str (show_int (sint x)) = Ok x"
proof -
  obtain d ds where d: "show_int (sint x) = d # ds" "\<not> isspace d"
  proof (cases "sint x < 0")
    case True
    then show ?thesis using that by (simp add: show_int_def isspace_def code_def)
  next
    case False
    then obtain d ds where "show_pos (sint x) = d # ds" by (cases "show_pos (sint x)") auto
    moreover from this have "isdigit d" using show_pos_digits [of "sint x"] False by simp
    ultimately show ?thesis using that digit_not_special False by (simp add: show_int_def)
  qed
  then have "dropWhile isspace (show_int (sint x)) = show_int (sint x)" by simp
  then show ?thesis
    using strtoll_show [of "sint x" "[]"] d(1) by (simp add: to_int_str_def)
qed

end
