(* ===== verification/Http.thy ===== *)
theory Http
  imports Policy Numbers
begin

text \<open>
  The HTTP client and the two HTTP servers (\<open>http_*\<close>, \<open>mime_for\<close>, \<open>path_is_safe\<close> of
  \<open>vm/pyro_runtime.c\<close>): parsing of URLs and of responses, chunked bodies, redirects, the request
  reader behind \<open>http_accept\<close> and the static file server. What the peer sends is a list of pieces,
  \<open>sock_recv\<close> takes at most the asked number of bytes from it; deadlines show as the end of the list
  (\<open>Sockets\<close> has the loops below this view).
\<close>

section \<open>Reading from a socket\<close>

definition crlf :: string where
  "crlf = [CHR 0x0D, CHR 0x0A]"

fun sock_recv :: "nat \<Rightarrow> string list \<Rightarrow> (string \<times> string list) option" where
  \<comment> \<open>\<open>None\<close>: error or deadline; an empty string: orderly close\<close>
  "sock_recv n [] = None"
| "sock_recv n (p # ps) = Some (take n p, if length p \<le> n then ps else drop n p # ps)"

definition feed_size :: "string list \<Rightarrow> nat" where
  "feed_size ps = length ps + length (concat ps)"

lemma sock_recv_shorter: "sock_recv n ps = Some (s, ps') \<Longrightarrow> 0 < n \<Longrightarrow> feed_size ps' < feed_size ps"
  by (cases ps) (auto simp: feed_size_def split: if_splits)

lemma sock_recv_bytes: "sock_recv n ps = Some (s, ps') \<Longrightarrow> s @ concat ps' = concat ps \<and> length s \<le> n"
  by (cases ps) (auto split: if_splits)

lemma strstr_bound: "strstr s pat = Some i \<Longrightarrow> i + length pat \<le> length s"
  using strstr_Some by blast

section \<open>URLs\<close>

definition http_prefix_ci :: "string \<Rightarrow> string \<Rightarrow> bool" where
  "http_prefix_ci s p \<longleftrightarrow> map tolower (take (length p) s) = p"

record hurl =
  hu_https :: bool
  hu_host :: string
  hu_port :: int
  hu_target :: string

definition host_char :: "char \<Rightarrow> bool" where
  "host_char c \<longleftrightarrow> (97 \<le> code c \<and> code c \<le> 122) \<or> (65 \<le> code c \<and> code c \<le> 90) \<or> isdigit c \<or>
     c = CHR ''.'' \<or> c = CHR ''-'' \<or> c = CHR ''_''"

fun http_port :: "int \<Rightarrow> string \<Rightarrow> int option" where
  "http_port port [] = Some port"
| "http_port port (d # ds) =
     (if \<not> isdigit d then None
      else let p = port * 10 + (int (code d) - 48) in if 65535 < p then None else http_port p ds)"

definition target_char :: "char \<Rightarrow> string" where
  "target_char c =
     (if c = CHR '' '' \<or> c = CHR 0x22 \<or> c = CHR ''<'' \<or> c = CHR ''>'' \<or> 128 \<le> code c
      then [CHR ''%'', hexd (code c div 16), hexd (code c mod 16)] else [c])"

definition http_parse_url :: "string \<Rightarrow> hurl option" where
  "http_parse_url url =
     (if list_ex (\<lambda>c. code c < 32 \<or> code c = 127) url then None
      else let http = http_prefix_ci url ''http://''; https = http_prefix_ci url ''https://''
      in if \<not> http \<and> \<not> https then None
         else
           let p = (if http then drop 7 url else drop 8 url);
               authority = takeWhile (\<lambda>c. c \<notin> set ''/?#'') p;
               rest = dropWhile (\<lambda>c. c \<notin> set ''/?#'') p;
               host = takeWhile (\<lambda>c. c \<noteq> CHR '':'') authority;
               colon = dropWhile (\<lambda>c. c \<noteq> CHR '':'') authority;
               sent = takeWhile (\<lambda>c. c \<noteq> CHR ''#'') rest;
               path = (if sent = [] \<or> hd sent = CHR ''?'' then ''/'' else [])
           in if host = [] \<or> 256 \<le> int (length host) then None
              else if \<not> list_all host_char host then None
              else case (if colon = [] then Some (if http then 80 else 443)
                         else if tl colon = [] then None else http_port 0 (tl colon)) of
                     None \<Rightarrow> None
                   | Some port \<Rightarrow>
                       if port = 0 then None
                       else Some \<lparr>hu_https = \<not> http, hu_host = host, hu_port = port,
                              hu_target = path @ concat (map target_char sent)\<rparr>)"

definition http_resolve_location :: "hurl \<Rightarrow> string \<Rightarrow> string" where
  "http_resolve_location u loc =
     (let scheme = (if hu_https u then ''https:'' else ''http:'');
          site = ''//'' @ hu_host u @
            (if hu_port u = (if hu_https u then 443 else 80) then [] else '':'' @ show_int (hu_port u));
          path = takeWhile (\<lambda>c. c \<noteq> CHR ''?'') (hu_target u);
          dir = rev (dropWhile (\<lambda>c. c \<noteq> CHR ''/'') (rev path))
      in if http_prefix_ci loc ''http://'' \<or> http_prefix_ci loc ''https://'' then loc
         else if take 2 loc = ''//'' then scheme @ loc
         else if take 1 loc = ''/'' then scheme @ site @ loc
         else scheme @ site @ dir @ loc)"

section \<open>Chunked bodies\<close>

datatype dechunked = Complete string | More | Malformed

fun chunk_size :: "int \<Rightarrow> string \<Rightarrow> int option" where
  "chunk_size sz [] = Some sz"
| "chunk_size sz (d # ds) =
     (if 2 ^ 59 - 1 < sz then None else chunk_size (sz * 16 + pyro_unhex d) ds)"

function trailers :: "string \<Rightarrow> bool" where
  \<comment> \<open>is the blank line there\<close>
  "trailers c = (case strstr c crlf of
       None \<Rightarrow> False
     | Some t \<Rightarrow> if t = 0 then True else trailers (drop (t + 2) c))"
  by pat_completeness auto
termination
  by (relation "measure length") (auto dest: strstr_bound simp: crlf_def)

declare trailers.simps [simp del]

function http_dechunk :: "string \<Rightarrow> string \<Rightarrow> dechunked" where
  "http_dechunk done c =
     (case strstr c crlf of
        None \<Rightarrow> More
      | Some e \<Rightarrow>
          let digits = takeWhile isxdigit (take e c); body = drop (e + 2) c
          in (case chunk_size 0 digits of
               None \<Rightarrow> Malformed
             | Some sz \<Rightarrow>
                 if digits = [] then Malformed
                 else if sz = 0 then (if trailers body then Complete done else More)
                 else if int (length body) < sz + 2 then More
                 else if take 2 (drop (nat sz) body) \<noteq> crlf then Malformed
                 else http_dechunk (done @ take (nat sz) body) (drop (nat sz + 2) body)))"
  by pat_completeness auto
termination
  by (relation "measure (\<lambda>(done, c). length c)") (auto dest: strstr_bound simp: crlf_def)

declare http_dechunk.simps [simp del]

section \<open>Responses\<close>

definition atoi :: "string \<Rightarrow> int" where
  "atoi s = sint (word_of_int (fst (strtoll s)) :: 32 word)"

record resp_head =
  rh_status :: int
  rh_end :: nat
  rh_clen :: int
  rh_chunked :: bool
  rh_location :: "string option"

definition header_value :: "string \<Rightarrow> string" where
  \<comment> \<open>from the first character behind the colon and the blanks\<close>
  "header_value s = dropWhile blank (drop 1 (dropWhile (\<lambda>c. c \<noteq> CHR '':'') s))"

definition header_name :: "string \<Rightarrow> string" where
  "header_name line = takeWhile (\<lambda>c. c \<noteq> CHR '':'') line"

definition client_header :: "string \<Rightarrow> nat \<Rightarrow> resp_head \<Rightarrow> resp_head" where
  \<comment> \<open>one line of \<open>i\<close> bytes; \<open>strtoll\<close> reads on behind an empty value\<close>
  "client_header t i rh =
     (let line = take i t; name = header_name line; value = header_value line
      in if CHR '':'' \<notin> set line then rh
         else if length name = 14 \<and> http_prefix_ci name ''content-length''
           then rh\<lparr>rh_clen := fst (strtoll (header_value t))\<rparr>
         else if length name = 17 \<and> http_prefix_ci name ''transfer-encoding''
           then (if list_ex (\<lambda>i. http_prefix_ci (drop i value) ''chunked'') [0..<length value]
                 then rh\<lparr>rh_chunked := True\<rparr> else rh)
         else if length name = 8 \<and> http_prefix_ci name ''location'' then rh\<lparr>rh_location := Some value\<rparr>
         else rh)"

fun client_headers :: "nat \<Rightarrow> string \<Rightarrow> nat \<Rightarrow> resp_head \<Rightarrow> resp_head" where
  \<comment> \<open>\<open>left\<close> bytes before the blank line; the first argument bounds the number of lines\<close>
  "client_headers 0 t left rh = rh"
| "client_headers (Suc n) t left rh =
     (if left = 0 then rh
      else case strstr t crlf of
             None \<Rightarrow> rh
           | Some i \<Rightarrow> client_headers n (drop (i + 2) t) (left - (i + 2)) (client_header t i rh))"

datatype head = NoHead string | BadHead | Head string resp_head

function http_head :: "string \<Rightarrow> head" where
  \<comment> \<open>drops interim responses\<close>
  "http_head resp =
     (let t = c_str resp
      in case strstr t (crlf @ crlf) of
           None \<Rightarrow> NoHead resp
         | Some he \<Rightarrow>
             let sp = length (takeWhile (\<lambda>c. c \<noteq> CHR '' '') t);
                 st = (if sp < he then atoi (drop (sp + 1) t) else 0)
             in if take 5 t \<noteq> ''HTTP/'' then BadHead
                else if st < 100 \<or> 999 < st then BadHead
                else if st < 200 then http_head (drop (he + 4) resp)
                else let first = the (strstr t crlf) + 2
                     in Head resp (client_headers he (drop first t) (he - first)
                          \<lparr>rh_status = st, rh_end = he + 4, rh_clen = -1, rh_chunked = False, rh_location = None\<rparr>))"
  by pat_completeness auto
termination
proof (relation "measure length")
  fix resp t he assume t: "t = c_str resp" and he: "strstr t (crlf @ crlf) = Some he"
  have "he + length (crlf @ crlf) \<le> length t" by (rule strstr_bound [OF he])
  then have "0 < length resp" using length_c_str_le [of resp] t by (cases resp) (auto simp: crlf_def)
  then show "(drop (he + 4) resp, resp) \<in> measure length" by simp
qed simp

declare http_head.simps [simp del]

definition http_body :: "bool \<Rightarrow> string \<Rightarrow> resp_head \<Rightarrow> dechunked" where
  \<comment> \<open>is the body there, after one more read\<close>
  "http_body eof resp rh =
     (let b = drop (rh_end rh) resp
      in if rh_status rh = 204 \<or> rh_status rh = 304 then Complete []
         else if rh_chunked rh then
           (if eof \<or> (5 \<le> length b \<and> drop (length b - 5) b = ''0'' @ crlf @ crlf) then http_dechunk [] b else More)
         else if 0 \<le> rh_clen rh then
           (if rh_clen rh \<le> int (length b) then Complete (take (nat (rh_clen rh)) b) else More)
         else if eof then Complete b else More)"

function http_read :: "string list \<Rightarrow> string \<Rightarrow> resp_head option \<Rightarrow> (int \<times> string \<times> string option) option" where
  \<comment> \<open>the loop over \<open>sock_recv\<close>: status, body, location\<close>
  "http_read ps resp rh0 =
     (case sock_recv 16384 ps of
        None \<Rightarrow> None
      | Some (piece, ps') \<Rightarrow>
          let eof = (piece = []); resp1 = resp @ piece
          in (case (case rh0 of Some rh \<Rightarrow> Head resp1 rh | None \<Rightarrow> http_head resp1) of
               BadHead \<Rightarrow> None
             | NoHead resp2 \<Rightarrow>
                 if 2 ^ 20 < int (length resp2) \<or> eof then None else http_read ps' resp2 None
             | Head resp2 rh \<Rightarrow>
                 (case http_body eof resp2 rh of
                    Complete b \<Rightarrow> Some (rh_status rh, b, rh_location rh)
                  | Malformed \<Rightarrow> None
                  | More \<Rightarrow> if eof then None else http_read ps' resp2 (Some rh))))"
  by pat_completeness auto
termination
  by (relation "measure (\<lambda>(ps, resp, rh). feed_size ps)") (auto dest!: sock_recv_shorter)

declare http_read.simps [simp del]

section \<open>The client\<close>

definition http_request_text :: "hurl \<Rightarrow> string option \<Rightarrow> string" where
  "http_request_text u body =
     (if body = None then ''GET'' else ''POST'') @ '' '' @ hu_target u @ '' HTTP/1.1'' @ crlf @
     ''Host: '' @ hu_host u @ (if hu_port u = 80 then [] else '':'' @ show_int (hu_port u)) @ crlf @
     ''User-Agent: pyro-runtime'' @ crlf @ ''Connection: close'' @ crlf @
     (case body of None \<Rightarrow> [] | Some b \<Rightarrow>
        ''Content-Type: application/json'' @ crlf @ ''Content-Length: '' @ show_int (int (length b)) @ crlf) @ crlf"

definition sock_send_all :: "os \<Rightarrow> (string \<Rightarrow> os_call) \<Rightarrow> string \<Rightarrow> rt \<Rightarrow> bool \<times> rt" where
  "sock_send_all os c s r = (if s = [] then (True, r) else let r' = ask (c s) r in (os_flag os (calls r'), r'))"

definition http_exchange ::
    "os \<Rightarrow> nat \<Rightarrow> string \<Rightarrow> hurl \<Rightarrow> string option \<Rightarrow> rt \<Rightarrow> (int \<times> string \<times> string option) option \<times> rt" where
  "http_exchange os hop url u body r =
     (let r1 = ask (Dial hop url (hu_host u) (hu_port u)) r
      in case os_net os (calls r1) of
           None \<Rightarrow> (None, r1)
         | Some ps \<Rightarrow>
             let (ok, r2) = sock_send_all os Send (http_request_text u body) r1;
                 (ok', r3) = (if ok then sock_send_all os Send (case body of None \<Rightarrow> [] | Some b \<Rightarrow> b) r2 else (False, r2))
             in (if ok' then http_read ps [] None else None, r3))"

definition redirects :: "int \<Rightarrow> bool" where
  "redirects st \<longleftrightarrow> st \<in> {301, 302, 303, 307, 308}"

fun http_hops :: "nat \<Rightarrow> os \<Rightarrow> nat \<Rightarrow> string \<Rightarrow> string option \<Rightarrow> rt \<Rightarrow> string \<times> rt" where
  \<comment> \<open>the loop over \<open>hop\<close>, with the number of rounds left\<close>
  "http_hops 0 os hop url body r = ([], r)"
| "http_hops (Suc n) os hop url body r =
     (case http_parse_url url of
        None \<Rightarrow> ([], r)
      | Some u \<Rightarrow>
          if hu_https u then
            let r1 = ask (Curl hop url body) r
            in ((case os_text os (calls r1) of None \<Rightarrow> [] | Some s \<Rightarrow> s), r1)
          else (case http_exchange os hop url u body r of
              (None, r1) \<Rightarrow> ([], r1)
            | (Some (st, s, loc), r1) \<Rightarrow>
                (case loc of
                   Some l \<Rightarrow>
                     if redirects st then
                       http_hops n os (Suc hop) (http_resolve_location u l) (if st = 307 \<or> st = 308 then body else None) r1
                     else (s, r1)
                 | None \<Rightarrow> (s, r1))))"

definition http_client_request :: "os \<Rightarrow> string \<Rightarrow> string option \<Rightarrow> rt \<Rightarrow> string \<times> rt" where
  "http_client_request os url body r = http_hops 11 os 0 url body r"

end
