(* ===== verification/Growth.thy ===== *)
theory Growth
  imports Containers
begin

text \<open>
  What building new objects leaves alone. \<open>hext A h' h\<close>: from \<open>h\<close> to \<open>h'\<close> objects may have been added
  and freed, but a surviving old object, other than those of \<open>A\<close>, has the same contents. Arrays and
  maps that are still owned therefore stand for the same list and the same finite map.
\<close>

definition hext :: "addr set \<Rightarrow> heap \<Rightarrow> heap \<Rightarrow> bool" where
  "hext A h' h \<longleftrightarrow> length h \<le> length h' \<and>
     (\<forall>x c'. x < length h \<longrightarrow> x \<notin> A \<longrightarrow> hget h' x = Some c' \<longrightarrow> (\<exists>c. hget h x = Some c \<and> cbody c' = cbody c))"

lemma hext_refl [simp]: "hext A h h"
  by (auto simp: hext_def)

lemma hextD:
  "hext A h' h \<Longrightarrow> hget h' x = Some c' \<Longrightarrow> x < length h \<Longrightarrow> x \<notin> A \<Longrightarrow> \<exists>c. hget h x = Some c \<and> cbody c' = cbody c"
  by (simp add: hext_def)

lemma hext_trans:
  assumes "hext A h2 h1" "hext A h1 h" shows "hext A h2 h"
  unfolding hext_def
proof (intro conjI allI impI)
  show "length h \<le> length h2" using assms by (simp add: hext_def)
  fix x c' assume x: "x < length h" "x \<notin> A" "hget h2 x = Some c'"
  have "x < length h1" using x(1) assms(2) by (simp add: hext_def)
  from hextD [OF assms(1) x(3) this x(2)] obtain c where c: "hget h1 x = Some c" "cbody c' = cbody c" by blast
  from hextD [OF assms(2) c(1) x(1,2)] c(2) show "\<exists>c. hget h x = Some c \<and> cbody c' = cbody c" by simp
qed

lemma hext_mono: "hext A h' h \<Longrightarrow> A \<subseteq> B \<Longrightarrow> hext B h' h"
  by (auto simp: hext_def)

lemma hext_hsub: "hsub h' h \<Longrightarrow> hext A h' h"
  by (auto simp: hext_def hsub_def)

lemma hext_setb: "hsub h' (setb h a b) \<Longrightarrow> hext {a} h' h"
  by (force simp: hext_def hsub_def split: if_splits)

lemma hext_append: "hext A (h @ xs) h"
  by (auto simp: hext_def hget_def nth_append)

lemma hext_new: "hext {length h} h' (h @ [x]) \<Longrightarrow> hext {} h' h"
  by (auto simp: hext_def hget_def nth_append)

lemma hext_live:
  assumes "hext A h' h" "hget h x = Some c" "x \<notin> A" "hget h' x = Some c'"
  shows "cbody c' = cbody c"
  using hextD [OF assms(1,4) hget_Some_less [OF assms(2)] assms(3)] assms(2) by auto

lemma hext_cell:
  assumes "hext A h' h" "hget h x = Some c" "x \<notin> A" "rc_sound R h'" "v \<in> set R" "val_addr v = Some x"
  shows "\<exists>c'. hget h' x = Some c' \<and> cbody c' = cbody c"
  using rc_sound_live [OF assms(4-6)] hext_live [OF assms(1-3)] by auto

lemma hext_held:
  assumes "hext A h' h" "hget h x = Some c" "x \<notin> A" "val_ok h' v" "val_addr v = Some x"
  shows "\<exists>c'. hget h' x = Some c' \<and> cbody c' = cbody c"
  using assms(4,5) hext_live [OF assms(1-3)] by (auto simp: val_ok_def split: option.splits)

lemma hext_arr:
  assumes "hext A h' h" "deref_arr h a = Ok (xs, cap)" "a \<notin> A" "rc_sound R h'" "VArr a \<in> set R"
  shows "deref_arr h' a = Ok (xs, cap)"
  using hext_cell [OF assms(1) _ assms(3-5)] assms(2) by (auto simp: deref_arr_Ok_iff)

lemma hext_map:
  assumes "hext A h' h" "deref_map h a = Ok (bs, n)" "a \<notin> A" "rc_sound R h'" "VMap a \<in> set R"
  shows "deref_map h' a = Ok (bs, n)"
  using hext_cell [OF assms(1) _ assms(3-5)] assms(2) by (auto simp: deref_map_Ok_iff)

lemma hext_str:
  assumes "hext A h' h" "x \<in> str_vals h" "val_addr x = Some b" "b \<notin> A" "val_ok h' x"
  shows "x \<in> str_vals h' \<and> str_of h' x = str_of h x"
proof -
  obtain s where x: "x = VStr b" "deref_str h b = Ok s" "nul \<notin> set s"
    using str_vals_live [OF assms(2)] assms(3) by auto
  from assms(5) x(1) obtain c' where c': "hget h' b = Some c'" by (auto simp: val_ok_def split: option.splits)
  have "b < length h" using x(2) by (auto simp: deref_str_Ok_iff dest: hget_Some_less)
  with assms(1,4) c' x(2) have "deref_str h' b = Ok s" by (fastforce simp: hext_def deref_str_Ok_iff)
  with x show ?thesis by (auto simp: str_vals_def str_of_def)
qed

text \<open>A map that is not touched, whatever the objects of \<open>A\<close> that are, keeps its meaning.\<close>

lemma hext_str_map:
  assumes ext: "hext A h' h" and m: "str_map h a m" and A: "a \<notin> A" "\<forall>x \<in> A. \<forall>s. deref_str h x \<noteq> Ok s"
    and inv: "rc_sound R h'" "val_ok h' (VMap a)"
  shows "str_map h' a m"
proof -
  from m obtain bs n where t: "deref_map h a = Ok (bs, n)" "str_keys.tbl_inv h bs" "str_keys.tbl_abs h bs = m"
      "n = length (concat bs)"
    by (rule str_mapE)
  have t': "deref_map h' a = Ok (bs, n)"
    using hext_held [OF ext _ A(1) inv(2)] t(1) by (auto simp: deref_map_Ok_iff)
  have keys: "fst kv \<in> str_vals h' \<and> str_of h' (fst kv) = str_of h (fst kv)" if kv: "kv \<in> set (concat bs)" for kv
  proof -
    have k: "fst kv \<in> str_vals h" using str_keys.tbl_inv_keys [OF t(2)] kv by blast
    then obtain b s where b: "fst kv = VStr b" "deref_str h b = Ok s" using str_vals_live by blast
    then have "b \<notin> A" using A(2) by auto
    from hext_str [OF ext k _ this map_key_held [OF inv(1) t' kv]] b(1) show ?thesis by simp
  qed
  from str_table_same [OF t(2) keys] t' t(3,4) show ?thesis by (simp add: str_map_def)
qed

text \<open>What the elements of a live array may be used for.\<close>

lemma array_elem_held:
  assumes "deref_arr h a = Ok (xs, cap)" "v \<in> set xs"
  shows "v \<in> set (all_held h {})"
proof -
  obtain c where c: "hget h a = Some c" "cbody c = BArr xs cap" using assms(1) by (auto simp: deref_arr_Ok_iff)
  then have "held h {} a = xs" by (auto simp: held_def hget_def split: if_splits)
  with assms(2) show ?thesis by (simp add: all_held_split [OF hget_Some_less [OF c(1)]])
qed

text \<open>New objects.\<close>

lemma new_string:
  assumes "rc_sound R h" "val_str t h = (v, h')"
  shows "rc_sound (v # R) h'" "hext A h' h" "v = VStr (length h)" "deref_str h' (length h) = Ok t"
proof -
  have v: "v = VStr (length h)" "h' = h @ [Some \<lparr>rc = 1, cbody = BStr t\<rparr>]"
    using assms(2) by (auto simp: val_str_def new_rc_string_def halloc_def)
  show "rc_sound (v # R) h'"
    by (rule alloc_sound [of "BStr t" R h "length h"]) (use assms(1) v in \<open>auto simp: halloc_def\<close>)
  show "hext A h' h" "v = VStr (length h)" "deref_str h' (length h) = Ok t"
    using hext_append by (auto simp: v deref_str_def deref_def)
qed

lemma new_array:
  assumes "rc_sound R h" "rc_array_new h = (a, h')"
  shows "rc_sound (VArr a # R) h'" "a = length h" "deref_arr h' a = Ok ([], 8)" "\<exists>c. h' = h @ [c]"
proof -
  have h': "a = length h" "h' = h @ [Some \<lparr>rc = 1, cbody = BArr [] 8\<rparr>]"
    using assms(2) by (auto simp: rc_array_new_def halloc_def)
  show "rc_sound (VArr a # R) h'"
    by (rule alloc_sound [of "BArr [] 8" R h a]) (use assms h' in \<open>auto simp: rc_array_new_def\<close>)
  show "a = length h" "deref_arr h' a = Ok ([], 8)" "\<exists>c. h' = h @ [c]"
    using h' by (auto simp: deref_arr_def deref_def)
qed

lemma new_map:
  assumes "rc_sound R h" "rc_map_new h = (a, h')"
  shows "rc_sound (VMap a # R) h'" "a = length h" "str_map h' a Map.empty" "\<exists>c. h' = h @ [c]"
proof -
  have h': "a = length h" "h' = h @ [Some \<lparr>rc = 1, cbody = BMap (replicate 16 []) 0\<rparr>]"
    using assms(2) by (auto simp: rc_map_new_def halloc_def)
  show "rc_sound (VMap a # R) h'"
    by (rule alloc_sound [of "BMap (replicate 16 []) 0" R h a])
       (use assms h' in \<open>auto simp: rc_map_new_def concat_replicate_trivial\<close>)
  show "a = length h" "str_map h' a Map.empty" "\<exists>c. h' = h @ [c]"
    using h' map_new_empty(1) [of h 1] by auto
qed

text \<open>\<open>val_array\<close> and \<open>val_map\<close> on an owned object count one reference more than they hand out.\<close>

lemma rc_sound_drop: "rc_sound (v # R) h \<Longrightarrow> rc_sound R h"
  unfolding rc_sound_def by (rule rc_inv_subset [of "{}" "[v]" R h]) simp

lemma incref_owned:
  assumes "rc_sound R h" "v \<in> set R" "val_addr v = Some a"
  obtains h' where "incref a h = Ok h'" "rc_sound R h'" "hsub h' h"
proof -
  obtain h' where h': "retain_value v h = Ok h'" "rc_sound (v # R) h'" "hsub h' h"
    by (rule retain_sound [OF assms(1), of v]) (use assms(2) in auto)
  then show ?thesis using assms(3) rc_sound_drop [OF h'(2)] that by (simp add: retain_value_def)
qed

end
