(* ===== verification/Server.thy ===== *)
theory Server
  imports Http Growth
begin

text \<open>
  The two HTTP servers of the runtime: the request reader and the response writer behind
  \<open>http_accept\<close> and \<open>http_respond\<close> (\<open>http_read_request\<close>, \<open>http_status_text\<close>), and the static file
  server behind \<open>http_serve\<close> (\<open>http_serve_dir\<close>, \<open>mime_for\<close>, \<open>path_is_safe\<close>, \<open>http_send\<close>). The file
  server never stops serving; \<open>serve_one\<close> is one round of its loop.
\<close>

section \<open>Reading a request\<close>

record request =
  rq_method :: string
  rq_path :: string
  rq_query :: string
  rq_body :: string
  rq_headers :: string                  \<comment> \<open>lines \<open>name:value\<close>\<close>

function read_head :: "string \<Rightarrow> string list \<Rightarrow> string \<times> (nat \<times> string list) option" where
  \<comment> \<open>what was received; the length of the header block and what has not been received yet\<close>
  "read_head data ps =
     (if 65535 \<le> length data then (data, None)
      else case sock_recv (65535 - length data) ps of
             None \<Rightarrow> (data, None)
           | Some (piece, ps') \<Rightarrow>
               if piece = [] then (data, None)
               else (case strstr (c_str (data @ piece)) (crlf @ crlf) of
                       None \<Rightarrow> read_head (data @ piece) ps'
                     | Some p \<Rightarrow> (data @ piece, Some (p + 4, ps'))))"
  by pat_completeness auto
termination
  by (relation "measure (\<lambda>(data, ps). feed_size ps)") (auto dest!: sock_recv_shorter)

declare read_head.simps [simp del]

definition overlay :: "string \<Rightarrow> string \<Rightarrow> string" where
  \<comment> \<open>the static buffer after \<open>data\<close> and a NUL have been written to its front\<close>
  "overlay data old = data @ [nul] @ drop (length data + 1) old"

definition buf_read :: "string \<Rightarrow> nat \<Rightarrow> nat \<Rightarrow> string outcome" where
  \<comment> \<open>\<open>n\<close> bytes of \<open>static char buf[65536]\<close>, which starts out zero\<close>
  "buf_read mem i n =
     obind (oguard (i + n \<le> 65536) StringRange) (\<lambda>_.
     Ok (map (\<lambda>j. if j < length mem then mem ! j else nul) [i..<i + n]))"

definition server_line :: "string \<Rightarrow> nat \<Rightarrow> int \<times> string \<Rightarrow> int \<times> string" where
  \<comment> \<open>one header line of \<open>i\<close> bytes: \<open>Content-Length\<close> and the collected lines\<close>
  "server_line t i acc =
     (let line = take i t;
          name = map tolower (take 127 (header_name line));
          value = header_value line
      in if CHR '':'' \<notin> set line then acc
         else (if name = ''content-length'' then fst (strtoll (header_value line @ drop i t)) else fst acc,
               snd acc @ name @ '':'' @ value @ [CHR 0x0A]))"

fun server_headers :: "nat \<Rightarrow> string \<Rightarrow> nat \<Rightarrow> int \<times> string \<Rightarrow> int \<times> string" where
  \<comment> \<open>\<open>left\<close> bytes of the header block; the first argument bounds the number of lines\<close>
  "server_headers 0 t left acc = acc"
| "server_headers (Suc n) t left acc =
     (if left = 0 then acc
      else case strstr t crlf of
             None \<Rightarrow> acc
           | Some i \<Rightarrow>
               if left < i \<or> i = 0 then acc
               else server_headers n (drop (i + 2) t) (left - (i + 2)) (server_line t i acc))"

function read_body :: "string \<Rightarrow> nat \<Rightarrow> string list \<Rightarrow> string option" where
  "read_body got clen ps =
     (if clen \<le> length got then Some got
      else case sock_recv (clen - length got) ps of
             None \<Rightarrow> None
           | Some (piece, ps') \<Rightarrow> if piece = [] then None else read_body (got @ piece) clen ps')"
  by pat_completeness auto
termination
  by (relation "measure (\<lambda>(h, clen, ps). feed_size ps)") (auto dest!: sock_recv_shorter)

declare read_body.simps [simp del]

definition request_line :: "string \<Rightarrow> string \<Rightarrow> (string \<times> string \<times> string) option outcome" where
  \<comment> \<open>method, path and query; the query's length is computed from the path as it was cut\<close>
  "request_line mem data =
     (let t = c_str data;
          sp1 = length (takeWhile (\<lambda>c. c \<noteq> CHR '' '') t);
          rest = drop (sp1 + 1) t;
          target = takeWhile (\<lambda>c. c \<noteq> CHR '' '') rest;
          whole = takeWhile (\<lambda>c. c \<noteq> CHR ''?'') target;
          path = take 2047 whole
      in if sp1 = length t \<or> target = rest then Ok None
         else obind (if whole = target then Ok []
                     else let qlen = length target - length path - 1
                          in buf_read mem (sp1 + 1 + length whole + 1) (if 2048 \<le> qlen then 2047 else qlen)) (\<lambda>query.
              Ok (Some (take 15 (takeWhile (\<lambda>c. c \<noteq> CHR '' '') t), path, query))))"

definition http_read_request :: "string \<Rightarrow> string list \<Rightarrow> (request option \<times> string) outcome" where
  \<comment> \<open>also the new contents of the static buffer\<close>
  "http_read_request old ps =
     (let (data, r) = read_head [] ps; mem = overlay data old
      in case r of
           None \<Rightarrow> Ok (None, mem)
         | Some (hend, ps') \<Rightarrow>
             obind (request_line mem data) (\<lambda>ln.
             case ln of
               None \<Rightarrow> Ok (None, mem)
             | Some (method, path, query) \<Rightarrow>
                 let t = c_str data; first = the (strstr t crlf) + 2;
                     (clen, hdrs) = server_headers hend (drop first t) (hend - first) (0, [])
                 in if 64 * 1024 * 1024 < clen then Ok (None, mem)
                    else if clen \<le> 0
                      then Ok (Some \<lparr>rq_method = method, rq_path = path, rq_query = query, rq_body = [], rq_headers = hdrs\<rparr>, mem)
                    else (case read_body (take (nat clen) (drop hend data)) (nat clen) ps' of
                            None \<Rightarrow> Ok (None, mem)
                          | Some body \<Rightarrow>
                              Ok (Some \<lparr>rq_method = method, rq_path = path, rq_query = query, rq_body = body, rq_headers = hdrs\<rparr>, mem))))"

section \<open>The request as a map\<close>

definition put_str :: "addr \<Rightarrow> string \<Rightarrow> string \<Rightarrow> heap \<Rightarrow> heap outcome" where
  \<comment> \<open>\<open>rc_map_set(m, val_str(k), val_str(v))\<close>: both references stay counted\<close>
  "put_str a k v h = (let (kv, h1) = val_str k h; (vv, h2) = val_str v h1 in rc_map_set a kv vv h2)"

definition header_pair :: "string \<Rightarrow> (string \<times> string) option" where
  "header_pair line =
     (if CHR '':'' \<in> set line
      then Some (take 159 (''header:'' @ header_name line), drop 1 (dropWhile (\<lambda>c. c \<noteq> CHR '':'') line)) else None)"

definition request_fields :: "request option \<Rightarrow> (string \<times> string) list" where
  "request_fields rq = (case rq of
       None \<Rightarrow> [(''method'', []), (''path'', []), (''query'', []), (''body'', [])]
     | Some q \<Rightarrow> [(''method'', rq_method q), (''path'', rq_path q), (''query'', c_str (rq_query q)),
         (''body'', c_str (rq_body q))] @ List.map_filter header_pair (cap_tokens (CHR 0x0A) (rq_headers q)))"

definition request_map :: "request option \<Rightarrow> heap \<Rightarrow> (val \<times> heap) outcome" where
  "request_map rq h =
     (let (a, h1) = rc_map_new h
      in obind (ofold (\<lambda>(k, v). put_str a k v) (request_fields rq) h1) (val_map a))"

definition http_accept :: "os \<Rightarrow> rt \<Rightarrow> (val \<times> rt) outcome" where
  "http_accept os r =
     obind (ofail (\<not> listening r) ''http_accept() called before http_listen()'') (\<lambda>_.
     let r1 = ask Accept (r\<lparr>connected := False\<rparr>)
     in obind (case os_net os (calls r1) of
                 None \<Rightarrow> Ok (None, http_buf r1)
               | Some ps \<Rightarrow> http_read_request (http_buf r1) ps) (\<lambda>(rq, mem).
        with_heap_val (request_map rq) (r1\<lparr>connected := rq \<noteq> None, http_buf := mem\<rparr>)))"

section \<open>Responses\<close>

definition http_status_text :: "int \<Rightarrow> string" where
  "http_status_text st =
     (if st = 200 then ''OK''
      else if st = 201 then ''Created''
      else if st = 204 then ''No Content''
      else if st = 400 then ''Bad Request''
      else if st = 401 then ''Unauthorized''
      else if st = 403 then ''Forbidden''
      else if st = 404 then ''Not Found''
      else if st = 405 then ''Method Not Allowed''
      else if st = 500 then ''Internal Server Error''
      else ''Status'')"

definition response_head :: "int \<Rightarrow> string \<Rightarrow> string \<Rightarrow> nat \<Rightarrow> string" where
  "response_head st reason ctype n =
     ''HTTP/1.1 '' @ show_int st @ '' '' @ reason @ crlf @ ''Content-Type: '' @ ctype @ crlf @
     ''Content-Length: '' @ show_int (int n) @ crlf @ ''Connection: close'' @ crlf @ crlf"

definition http_respond :: "os \<Rightarrow> i64 \<Rightarrow> string \<Rightarrow> string \<Rightarrow> rt \<Rightarrow> bool \<times> rt" where
  "http_respond os st ctype payload r =
     (let (ok, r1) = sock_send_all os Respond
            (response_head (sint st) (http_status_text (sint st)) ctype (length payload) @ payload) r
      in (ok, r1\<lparr>connected := False\<rparr>))"

section \<open>The file server\<close>

definition mime_for :: "string \<Rightarrow> string" where
  "mime_for path =
     (let dot = CHR ''.'' # rev (takeWhile (\<lambda>c. c \<noteq> CHR ''.'') (rev path))
      in if CHR ''.'' \<notin> set path then ''application/octet-stream''
         else if dot = ''.wasm'' then ''application/wasm''
         else if dot = ''.html'' \<or> dot = ''.htm'' then ''text/html; charset=utf-8''
         else if dot = ''.js'' then ''application/javascript''
         else if dot = ''.css'' then ''text/css''
         else if dot = ''.json'' then ''application/json''
         else if dot = ''.svg'' then ''image/svg+xml''
         else if dot = ''.png'' then ''image/png''
         else if dot = ''.txt'' then ''text/plain; charset=utf-8''
         else ''application/octet-stream'')"

definition path_is_safe :: "string \<Rightarrow> bool" where
  "path_is_safe p \<longleftrightarrow> CHR 0x5C \<notin> set p \<and> CHR '':'' \<notin> set p \<and> strstr p ''..'' = None"

definition http_send :: "os \<Rightarrow> int \<Rightarrow> string \<Rightarrow> string \<Rightarrow> string \<Rightarrow> rt \<Rightarrow> rt" where
  "http_send os st reason ctype body r =
     (let (ok, r1) = sock_send_all os Respond (response_head st reason ctype (length body)) r
      in if ok then snd (sock_send_all os Respond body r1) else r1)"

definition served_name :: "string \<Rightarrow> string" where
  \<comment> \<open>\<open>path + 1\<close>, for the text behind \<open>GET\<close>; a target that starts with \<open>?\<close> is read behind it\<close>
  "served_name s =
     (let path = take 1023 (takeWhile (\<lambda>c. c \<noteq> CHR '' '') s);
          name = takeWhile (\<lambda>c. c \<noteq> CHR ''?'') path
      in if name = ''/'' then ''index.html'' else if name = [] then tl path else tl name)"

definition served_file :: "string \<Rightarrow> string \<Rightarrow> string" where
  "served_file dir name = take 2047 (dir @ ''/'' @ name)"

definition serve_request :: "os \<Rightarrow> string \<Rightarrow> string \<Rightarrow> rt \<Rightarrow> rt" where
  "serve_request os dir req r =
     (if take 4 req \<noteq> ''GET '' then http_send os 405 ''Method Not Allowed'' ''text/plain'' ''method not allowed'' r
      else let name = served_name (drop 4 req)
           in if \<not> path_is_safe name then http_send os 403 ''Forbidden'' ''text/plain'' ''forbidden'' r
              else let full = served_file dir name; r1 = ask (ReadFile full) r
                   in case os_text os (calls r1) of
                        None \<Rightarrow> http_send os 404 ''Not Found'' ''text/plain'' ''404 page not found'' r1
                      | Some body \<Rightarrow> http_send os 200 ''OK'' (mime_for full) body r1)"

definition serve_one :: "os \<Rightarrow> string \<Rightarrow> rt \<Rightarrow> rt" where
  "serve_one os dir r =
     (let r1 = ask Accept r
      in case os_net os (calls r1) of
           None \<Rightarrow> r1
         | Some ps \<Rightarrow>
             (case sock_recv 2047 ps of
                None \<Rightarrow> r1
              | Some (piece, ps') \<Rightarrow> if piece = [] then r1 else serve_request os dir (c_str piece) r1))"

definition try_call :: "os \<Rightarrow> os_call \<Rightarrow> rt \<Rightarrow> bool \<times> rt" where
  "try_call os c r = (let r' = ask c r in (os_flag os (calls r'), r'))"

definition http_serve_setup :: "os \<Rightarrow> 32 word \<Rightarrow> rt \<Rightarrow> rt outcome" where
  "http_serve_setup os port r =
     (let (ok1, r1) = try_call os Socket r
      in obind (ofail (\<not> ok1) ''http_serve: socket() failed'') (\<lambda>_.
         let (ok2, r2) = try_call os (Bind (ucast port)) r1
         in obind (ofail (\<not> ok2) ''http_serve: bind failed'') (\<lambda>_.
            let (ok3, r3) = try_call os Listen r2
            in obind (ofail (\<not> ok3) ''http_serve: listen failed'') (\<lambda>_. Ok r3))))"

definition http_serve_dir :: "os \<Rightarrow> string \<Rightarrow> 32 word \<Rightarrow> rt \<Rightarrow> rt outcome" where
  \<comment> \<open>\<open>for (;;)\<close> over \<open>serve_one\<close>: it does not return\<close>
  "http_serve_dir os dir port r = obind (http_serve_setup os port r) (\<lambda>_. Diverge)"

definition http_listen :: "os \<Rightarrow> i64 \<Rightarrow> rt \<Rightarrow> bool \<times> rt" where
  \<comment> \<open>a socket that was listening is closed first, and stays recorded when the new one fails\<close>
  "http_listen os port r =
     (let (ok1, r1) = try_call os Socket r
      in if \<not> ok1 then (False, r1)
         else let (ok2, r2) = try_call os (Bind (ucast port)) r1
              in if \<not> ok2 then (False, r2)
                 else let (ok3, r3) = try_call os Listen r2
                      in if \<not> ok3 then (False, r3) else (True, r3\<lparr>listening := True\<rparr>))"

end
