(* ===== verification/Json.thy ===== *)
theory Json
  imports Numbers
begin

text \<open>
  The JSON encoder and parser (\<open>escape_json_string\<close>, \<open>value_to_json\<close>, \<open>parse_json_*\<close> of
  \<open>vm/pyro_runtime.c\<close>). The parser runs over a C string; the text still to be read is a list whose end
  is the NUL, and a step beyond it is \<open>UB StringRange\<close>. It builds its arrays and maps on the heap as
  the code does. Its fuel bounds the depth of the recursion together with the length of the loops;
  both consume text, so \<open>2 * length s + 2\<close> is enough.
\<close>

section \<open>Encoding\<close>

definition json_escape_char :: "char \<Rightarrow> string" where
  "json_escape_char c =
     (if c = CHR 0x22 then [CHR 0x5C, CHR 0x22]
      else if c = CHR 0x5C then [CHR 0x5C, CHR 0x5C]
      else if c = CHR 0x0A then [CHR 0x5C, CHR ''n'']
      else if c = CHR 0x0D then [CHR 0x5C, CHR ''r'']
      else if c = CHR 0x09 then [CHR 0x5C, CHR ''t'']
      else [c])"

definition escape_json_string :: "string \<Rightarrow> string" where
  "escape_json_string s = CHR 0x22 # concat (map json_escape_char s) @ [CHR 0x22]"

definition json_float :: "f64 \<Rightarrow> string" where
  \<comment> \<open>\<open>sprintf(buf, "%.14g", f)\<close>, on every double\<close>
  "json_float f =
     (if f_isinf f then (if f_sign f then ''-inf'' else ''inf'')
      else if f_isnan f then (if f_sign f then ''-nan'' else ''nan'') else f_show f)"

primrec to_json_fuel :: "nat \<Rightarrow> heap \<Rightarrow> val \<Rightarrow> string outcome" where
  "to_json_fuel 0 h v = Diverge"
| "to_json_fuel (Suc n) h v =
     (case v of
        VNull \<Rightarrow> Ok ''null''
      | VBool b \<Rightarrow> Ok (if b then ''true'' else ''false'')
      | VInt i \<Rightarrow> Ok (show_int (sint i))
      | VFloat f \<Rightarrow> Ok (json_float f)
      | VStr a \<Rightarrow> obind (deref_str h a) (\<lambda>s. Ok (escape_json_string (c_str s)))
      | VFunc f cap \<Rightarrow> Ok ''null''
      | VArr a \<Rightarrow> obind (deref_arr h a) (\<lambda>(xs, cap).
          obind (omap (to_json_fuel n h) xs) (\<lambda>ss. Ok (''['' @ join_with '','' ss @ '']'')))
      | VMap a \<Rightarrow> obind (deref_map h a) (\<lambda>(bs, sz).
          if sz = 0 then Ok ''{}''
          else obind (omap (\<lambda>(k, x). obind (value_to_string h k) (\<lambda>s. Ok (s, x))) (concat bs)) (\<lambda>ps.
               obind (omap (\<lambda>(s, x). obind (to_json_fuel n h x) (\<lambda>t. Ok (escape_json_string s @ '':'' @ t)))
                        (sort_pairs ps)) (\<lambda>ss.
               Ok (''{'' @ join_with '','' ss @ ''}'')))))"

definition value_to_json :: "heap \<Rightarrow> val \<Rightarrow> string outcome" where
  "value_to_json h v = to_json_fuel (Suc (length h)) h v"

section \<open>Parsing\<close>

definition json_unescape :: "char \<Rightarrow> char" where
  \<comment> \<open>the character after a backslash; an unknown one is dropped and leaves the backslash\<close>
  "json_unescape e =
     (if e = CHR ''n'' then CHR 0x0A
      else if e = CHR ''r'' then CHR 0x0D
      else if e = CHR ''t'' then CHR 0x09
      else if e = CHR 0x22 \<or> e = CHR 0x5C \<or> e = CHR ''/'' then e
      else CHR 0x5C)"

fun json_string :: "string \<Rightarrow> string \<Rightarrow> (string \<times> string) outcome" where
  \<comment> \<open>after the opening quote: the characters read so far, newest first\<close>
  "json_string acc [] = Ok (rev acc, [])"
| "json_string acc (c # cs) =
     (if c = CHR 0x22 then Ok (rev acc, cs)
      else if c = CHR 0x5C then
        (case cs of [] \<Rightarrow> UB StringRange | e # ds \<Rightarrow> json_string (json_unescape e # acc) ds)
      else json_string (c # acc) cs)"

definition parse_json_string :: "string \<Rightarrow> heap \<Rightarrow> (val \<times> string \<times> heap) outcome" where
  "parse_json_string s h =
     obind (json_string [] (tl s)) (\<lambda>(t, rest). let (v, h') = val_str t h in Ok (v, rest, h'))"

definition number_char :: "char \<Rightarrow> bool" where
  "number_char c \<longleftrightarrow> isdigit c \<or> c \<in> {CHR ''-'', CHR ''+'', CHR ''.'', CHR ''e'', CHR ''E''}"

definition parse_json_number :: "string \<Rightarrow> val \<times> string" where
  "parse_json_number s =
     (let t = takeWhile number_char s
      in (if list_ex (\<lambda>c. c \<in> {CHR ''.'', CHR ''e'', CHR ''E''}) t then VFloat (fst (strtod s))
          else VInt (word_of_int (fst (strtoll s))),
          dropWhile number_char s))"

definition skip_ws :: "string \<Rightarrow> string" where
  "skip_ws s = dropWhile isspace s"

definition starts :: "string \<Rightarrow> string \<Rightarrow> bool" where
  "starts w s \<longleftrightarrow> take (length w) s = w"

fun
  json_value :: "nat \<Rightarrow> string \<Rightarrow> heap \<Rightarrow> (val \<times> string \<times> heap) outcome" and
  json_elems :: "nat \<Rightarrow> addr \<Rightarrow> string \<Rightarrow> heap \<Rightarrow> (string \<times> heap) outcome" and
  json_members :: "nat \<Rightarrow> addr \<Rightarrow> string \<Rightarrow> heap \<Rightarrow> (string \<times> heap) outcome"
where
  "json_value 0 s0 h = Diverge"
| "json_value (Suc n) s0 h =
     (let s = skip_ws s0
      in if starts [CHR 0x22] s then parse_json_string s h
         else if starts ''['' s then
           let (a, h1) = rc_array_new h; t = skip_ws (tl s)
           in obind (if starts '']'' t then Ok (tl t, h1) else json_elems n a t h1) (\<lambda>(rest, h2).
              obind (val_array a h2) (\<lambda>(v, h3). Ok (v, rest, h3)))
         else if starts ''{'' s then
           let (a, h1) = rc_map_new h; t = skip_ws (tl s)
           in obind (if starts ''}'' t then Ok (tl t, h1) else json_members n a t h1) (\<lambda>(rest, h2).
              obind (val_map a h2) (\<lambda>(v, h3). Ok (v, rest, h3)))
         else if starts ''true'' s then Ok (VBool True, drop 4 s, h)
         else if starts ''false'' s then Ok (VBool False, drop 5 s, h)
         else if starts ''null'' s then Ok (VNull, drop 4 s, h)
         else let (v, rest) = parse_json_number s in Ok (v, rest, h))"
| "json_elems 0 a s h = Diverge"
| "json_elems (Suc n) a s h =
     obind (json_value n s h) (\<lambda>(v, s1, h1).
     obind (rc_array_push a v h1) (\<lambda>h2.
     obind (release_value v h2) (\<lambda>h3.
     let t = skip_ws s1
     in if starts '','' t then json_elems n a (skip_ws (tl t)) h3
        else if starts '']'' t then Ok (tl t, h3)
        else Ok (t, h3))))"
| "json_members 0 a s h = Diverge"
| "json_members (Suc n) a s0 h =
     (let s = skip_ws s0
      in if \<not> starts [CHR 0x22] s then Ok (s, h)
         else obind (parse_json_string s h) (\<lambda>(k, s1, h1).
              let t = skip_ws s1; u = (if starts '':'' t then tl t else t)
              in obind (json_value n u h1) (\<lambda>(v, s2, h2).
                 obind (rc_map_set a k v h2) (\<lambda>h3.
                 obind (release_value k h3) (\<lambda>h4.
                 obind (release_value v h4) (\<lambda>h5.
                 let w = skip_ws s2
                 in if starts '','' w then json_members n a (skip_ws (tl w)) h5
                    else if starts ''}'' w then Ok (tl w, h5)
                    else Ok (w, h5)))))))"

declare json_value.simps [simp del] json_elems.simps [simp del] json_members.simps [simp del]

definition parse_json_value :: "string \<Rightarrow> heap \<Rightarrow> (val \<times> string \<times> heap) outcome" where
  "parse_json_value s h = json_value (2 * length s + 2) s h"

end
