(* ===== verification/Natives.thy ===== *)
theory Natives
  imports Server Json
begin

text \<open>
  The builtins (\<open>native\<close> of \<open>vm/pyro_runtime.c\<close>): one definition per case of its \<open>switch\<close>, in the
  order of the cases, each on the argument list and the state of the runtime. An argument that was
  not passed is read from whatever lies above the stack (\<open>UB ArgRange\<close>). The operating system is the
  record \<open>os\<close>; every use of it is logged.
\<close>

section \<open>Arguments and results\<close>

type_synonym builtin = "val list \<Rightarrow> rt \<Rightarrow> (val \<times> rt) outcome"

definition arg :: "val list \<Rightarrow> nat \<Rightarrow> val outcome" where
  "arg vs k = (if k < length vs then Ok (vs ! k) else UB ArgRange)"

definition str_arg :: "val list \<Rightarrow> nat \<Rightarrow> rt \<Rightarrow> string outcome" where
  "str_arg vs k r = obind (arg vs k) (value_to_string (heap r))"

definition float_arg :: "val list \<Rightarrow> nat \<Rightarrow> f64 outcome" where
  "float_arg vs k = obind (arg vs k) value_as_float"

definition int_of :: "val \<Rightarrow> i64 outcome" where
  \<comment> \<open>\<open>v.kind == VAL_INT ? v.as.i : (int64_t)value_as_float(v)\<close>\<close>
  "int_of v = (case v of VInt i \<Rightarrow> Ok i | _ \<Rightarrow> obind (value_as_float v) f_to_int)"

definition int_arg :: "val list \<Rightarrow> nat \<Rightarrow> i64 outcome" where
  "int_arg vs k = obind (arg vs k) int_of"

definition raw_int :: "val \<Rightarrow> i64 outcome" where
  \<comment> \<open>\<open>v.kind == VAL_FLOAT ? (int64_t)v.as.f : v.as.i\<close>\<close>
  "raw_int v = (case v of VFloat f \<Rightarrow> f_to_int f | _ \<Rightarrow> as_i v)"

definition ret :: "rt \<Rightarrow> val outcome \<Rightarrow> (val \<times> rt) outcome" where
  "ret r m = obind m (\<lambda>v. Ok (v, r))"

definition ret_str :: "rt \<Rightarrow> string outcome \<Rightarrow> (val \<times> rt) outcome" where
  "ret_str r m = obind m (\<lambda>s. with_heap_val (\<lambda>h. Ok (val_str s h)) r)"

definition int_val :: "int \<Rightarrow> val outcome" where
  \<comment> \<open>the result of arithmetic on \<open>int64_t\<close>\<close>
  "int_val i = obind (c_i64 i) (\<lambda>w. Ok (VInt w))"

section \<open>Numbers (cases 0 to 10)\<close>

definition native_sqrt :: builtin where
  "native_sqrt vs r = ret r (obind (float_arg vs 0) (\<lambda>x. Ok (VFloat (f_sqrt x))))"

definition native_pow :: "os \<Rightarrow> builtin" where
  "native_pow os vs r =
     ret r (obind (float_arg vs 0) (\<lambda>x. obind (float_arg vs 1) (\<lambda>y. Ok (VFloat (os_pow os x y)))))"

definition native_abs :: builtin where
  "native_abs vs r =
     ret r (obind (arg vs 0) (\<lambda>v. case v of
         VInt i \<Rightarrow> if sint i < 0 then int_val (- sint i) else Ok (VInt i)
       | VFloat f \<Rightarrow> Ok (VFloat (f_abs f))
       | _ \<Rightarrow> obind (as_i v) (\<lambda>f. Ok (VFloat (f_abs f)))))"

definition f_min :: "f64 \<Rightarrow> f64 \<Rightarrow> f64" where
  "f_min x y = (if f_isnan x then y else if f_isnan y then x else if f_lt y x then y else x)"

definition f_max :: "f64 \<Rightarrow> f64 \<Rightarrow> f64" where
  "f_max x y = (if f_isnan x then y else if f_isnan y then x else if f_lt x y then y else x)"

definition pick :: "(i64 \<Rightarrow> i64 \<Rightarrow> i64) \<Rightarrow> (f64 \<Rightarrow> f64 \<Rightarrow> f64) \<Rightarrow> val list \<Rightarrow> val outcome" where
  "pick fi ff vs =
     obind (arg vs 0) (\<lambda>a. obind (arg vs 1) (\<lambda>b.
     case (a, b) of
       (VInt i, VInt j) \<Rightarrow> Ok (VInt (fi i j))
     | _ \<Rightarrow> obind (value_as_float a) (\<lambda>x. obind (value_as_float b) (\<lambda>y. Ok (VFloat (ff x y))))))"

definition native_min :: builtin where
  "native_min vs r = ret r (pick (\<lambda>i j. if i <s j then i else j) f_min vs)"

definition native_max :: builtin where
  "native_max vs r = ret r (pick (\<lambda>i j. if j <s i then i else j) f_max vs)"

definition native_floor :: builtin where
  "native_floor vs r = ret r (obind (float_arg vs 0) (\<lambda>x. Ok (VFloat (f_floor x))))"

definition native_ceil :: builtin where
  "native_ceil vs r = ret r (obind (float_arg vs 0) (\<lambda>x. Ok (VFloat (f_ceil x))))"

definition native_round :: builtin where
  "native_round vs r = ret r (obind (float_arg vs 0) (\<lambda>x. Ok (VFloat (f_round x))))"

definition native_to_string :: builtin where
  "native_to_string vs r = ret_str r (str_arg vs 0 r)"

definition native_to_int :: builtin where
  "native_to_int vs r =
     ret r (obind (arg vs 0) (\<lambda>v. case v of
         VInt i \<Rightarrow> Ok v
       | VFloat f \<Rightarrow> obind (f_to_int f) (\<lambda>i. Ok (VInt i))
       | VBool b \<Rightarrow> Ok (VInt (if b then 1 else 0))
       | VStr a \<Rightarrow> obind (deref_str (heap r) a) (\<lambda>s. obind (to_int_str (c_str s)) (\<lambda>i. Ok (VInt i)))
       | _ \<Rightarrow> Fatal ''to_int: non-convertible type''))"

definition native_to_number :: builtin where
  "native_to_number vs r =
     ret r (obind (arg vs 0) (\<lambda>v. case v of
         VFloat f \<Rightarrow> Ok v
       | VInt i \<Rightarrow> Ok (VFloat (f_of_int (sint i)))
       | VStr a \<Rightarrow> obind (deref_str (heap r) a) (\<lambda>s. obind (to_number_str (c_str s)) (\<lambda>f. Ok (VFloat f)))
       | _ \<Rightarrow> Fatal ''to_number: non-convertible type''))"

section \<open>Strings and input (cases 11 to 23)\<close>

definition native_remove :: builtin where
  "native_remove vs r =
     obind (arg vs 0) (\<lambda>m. case m of
         VMap a \<Rightarrow> obind (arg vs 1) (\<lambda>k. obind (with_heap (rc_map_remove a k) r) (\<lambda>r'. Ok (VNull, r')))
       | _ \<Rightarrow> Fatal ''remove() applied to a non-map value'')"

definition native_upper :: builtin where
  "native_upper vs r = ret_str r (obind (str_arg vs 0 r) (\<lambda>s. Ok (map toupper s)))"

definition native_lower :: builtin where
  "native_lower vs r = ret_str r (obind (str_arg vs 0 r) (\<lambda>s. Ok (map tolower s)))"

definition native_trim :: builtin where
  "native_trim vs r = ret_str r (obind (str_arg vs 0 r) (\<lambda>s. Ok (str_trim s)))"

definition native_contains :: builtin where
  "native_contains vs r =
     ret r (obind (str_arg vs 0 r) (\<lambda>s. obind (str_arg vs 1 r) (\<lambda>t. Ok (VBool (strstr s t \<noteq> None)))))"

definition native_find :: builtin where
  "native_find vs r =
     ret r (obind (str_arg vs 0 r) (\<lambda>s. obind (str_arg vs 1 r) (\<lambda>t.
       Ok (VInt (case strstr s t of None \<Rightarrow> -1 | Some i \<Rightarrow> of_nat i)))))"

definition native_replace :: builtin where
  "native_replace vs r =
     ret_str r (obind (str_arg vs 0 r) (\<lambda>s. obind (str_arg vs 1 r) (\<lambda>old. obind (str_arg vs 2 r) (\<lambda>new.
       Ok (str_replace s old new)))))"

definition native_substr :: builtin where
  "native_substr vs r =
     ret_str r (obind (str_arg vs 0 r) (\<lambda>s.
       obind (obind (arg vs 1) as_i) (\<lambda>i. obind (obind (arg vs 2) as_i) (\<lambda>n. str_substr s (sint i) (sint n)))))"

definition push_str :: "addr \<Rightarrow> string \<Rightarrow> heap \<Rightarrow> heap outcome" where
  \<comment> \<open>a new string, pushed, and released by its maker\<close>
  "push_str a s h =
     (let (v, h1) = val_str s h
      in obind (rc_array_push a v h1) (\<lambda>h2. release_value v h2))"

definition strings_array :: "string list \<Rightarrow> heap \<Rightarrow> (val \<times> heap) outcome" where
  "strings_array ss h = (let (a, h1) = rc_array_new h in obind (ofold (push_str a) ss h1) (val_array a))"

definition native_split :: builtin where
  "native_split vs r =
     obind (str_arg vs 0 r) (\<lambda>s. obind (str_arg vs 1 r) (\<lambda>sep. with_heap_val (strings_array (split_str s sep)) r))"

definition join_arr :: "heap \<Rightarrow> val list \<Rightarrow> string \<Rightarrow> string outcome" where
  "join_arr h xs sep = obind (omap (value_to_string h) xs) (\<lambda>ss. Ok (join_with sep ss))"

definition native_join :: builtin where
  "native_join vs r =
     obind (arg vs 0) (\<lambda>v. case v of
         VArr a \<Rightarrow>
           obind (str_arg vs 1 r) (\<lambda>sep. obind (deref_arr (heap r) a) (\<lambda>(xs, cap).
           obind (join_arr (heap r) xs sep) (\<lambda>s.
           with_heap_val (\<lambda>h. let (b, h') = new_rc_string s h in val_str_rc b h') r)))
       | _ \<Rightarrow> Fatal ''join() applied to a non-array value'')"

definition c_fgets :: "int \<Rightarrow> string \<Rightarrow> (string \<times> string) option" where
  \<comment> \<open>\<open>fgets\<close> with a buffer of \<open>n\<close> bytes: the line with its newline, and the rest\<close>
  "c_fgets n s =
     (if s = [] then None
      else let front = take (nat (n - 1)) s; t = takeWhile (\<lambda>c. c \<noteq> CHR 0x0A) front;
               line = (if length t < length front then t @ [CHR 0x0A] else t)
           in Some (line, drop (length line) s))"

definition native_input :: builtin where
  "native_input vs r =
     obind (str_arg vs 0 r) (\<lambda>p.
     let r1 = r\<lparr>out := out r @ p\<rparr>
     in case c_fgets 4096 (inp r1) of
          None \<Rightarrow> ret_str r1 (Ok [])
        | Some (line, rest) \<Rightarrow>
            ret_str (r1\<lparr>inp := rest\<rparr>)
              (Ok (rev (dropWhile (\<lambda>c. c = CHR 0x0A \<or> c = CHR 0x0D) (rev (c_str line))))))"

definition native_json_encode :: builtin where
  "native_json_encode vs r = ret_str r (obind (arg vs 0) (\<lambda>v. obind (value_to_json (heap r) v) (\<lambda>s. Ok (c_str s))))"

definition native_json_decode :: builtin where
  "native_json_decode vs r =
     obind (str_arg vs 0 r) (\<lambda>s.
     with_heap_val (\<lambda>h. obind (parse_json_value s h) (\<lambda>(v, rest, h'). Ok (v, h'))) r)"

section \<open>Network, files, arguments (cases 24 to 30)\<close>

definition native_http_get :: "os \<Rightarrow> builtin" where
  "native_http_get os vs r =
     obind (str_arg vs 0 r) (\<lambda>url. obind (cap_net url ''http_get()'' r) (\<lambda>_.
     let (s, r1) = http_client_request os url None r in ret_str r1 (Ok (c_str s))))"

definition native_http_post :: "os \<Rightarrow> builtin" where
  "native_http_post os vs r =
     obind (str_arg vs 0 r) (\<lambda>url. obind (cap_net url ''http_post()'' r) (\<lambda>_.
     obind (str_arg vs 1 r) (\<lambda>body.
     let (s, r1) = http_client_request os url (Some body) r in ret_str r1 (Ok (c_str s)))))"

definition native_sleep :: "os \<Rightarrow> builtin" where
  "native_sleep os vs r =
     obind (obind (arg vs 0) raw_int) (\<lambda>ms. Ok (VNull, if 0 < sint ms then ask (Sleep ms) r else r))"

definition native_write_bytes :: "os \<Rightarrow> builtin" where
  "native_write_bytes os vs r =
     obind (str_arg vs 0 r) (\<lambda>path. obind (cap_fs (os_cwd os) False path ''write_bytes()'' r) (\<lambda>_.
     obind (arg vs 1) (\<lambda>v. case v of
         VArr a \<Rightarrow>
           obind (deref_arr (heap r) a) (\<lambda>(xs, cap).
           obind (omap raw_int xs) (\<lambda>bytes.
           let r1 = ask (WriteFile path (map (\<lambda>w. char_of (uint (ucast w :: 8 word))) bytes)) r
           in Ok (VBool (os_write os (calls r1) \<noteq> None), r1)))
       | _ \<Rightarrow> Ok (VBool False, r))))"

definition native_read_file :: "os \<Rightarrow> builtin" where
  "native_read_file os vs r =
     obind (str_arg vs 0 r) (\<lambda>path. obind (cap_fs (os_cwd os) True path ''read_file()'' r) (\<lambda>_.
     let r1 = ask (ReadFile path) r
     in ret_str r1 (Ok (case os_text os (calls r1) of None \<Rightarrow> [] | Some s \<Rightarrow> s))))"

definition native_args :: builtin where
  "native_args vs r = with_heap_val (strings_array (map c_str (argv r))) r"

definition native_http_serve :: "os \<Rightarrow> builtin" where
  "native_http_serve os vs r =
     obind (str_arg vs 1 r) (\<lambda>dir.
     obind (cap_net ''listen'' ''http_serve()'' r) (\<lambda>_.
     obind (cap_fs (os_cwd os) True dir ''http_serve()'' r) (\<lambda>_.
     obind (obind (arg vs 0) raw_int) (\<lambda>port.
     let r1 = r\<lparr>out := out r @ ''[pyro] serving '' @ dir @ '' on http://localhost:'' @ show_int (sint port) @ [CHR 0x0A]\<rparr>
     in obind (http_serve_dir os dir (ucast port) r1) (\<lambda>r2. Ok (VNull, r2))))))"

end
