(* ===== verification/Builtins.thy ===== *)
theory Builtins
  imports Natives
begin

text \<open>
  The remaining builtins (cases 31 to 68 of \<open>native\<close> in \<open>vm/pyro_runtime.c\<close>: number theory, string
  tests, arrays, clocks and random numbers, the HTTP server, files and processes, assets), and the
  dispatch over all of them.
\<close>

section \<open>Numbers and strings (cases 31 to 37, 40, 42, 43)\<close>

definition native_clamp :: builtin where
  "native_clamp vs r =
     ret r (obind (arg vs 0) (\<lambda>a. obind (arg vs 1) (\<lambda>b. obind (arg vs 2) (\<lambda>c.
     case (a, b, c) of
       (VInt x, VInt lo, VInt hi) \<Rightarrow> Ok (VInt (if x <s lo then lo else if hi <s x then hi else x))
     | _ \<Rightarrow> obind (value_as_float a) (\<lambda>x. obind (value_as_float b) (\<lambda>lo. obind (value_as_float c) (\<lambda>hi.
         Ok (VFloat (if f_lt x lo then lo else if f_lt hi x then hi else x)))))))))"

definition native_sign :: builtin where
  "native_sign vs r = ret r (obind (float_arg vs 0) (\<lambda>x. Ok (VInt (if f_lt x 0 then -1 else if f_lt 0 x then 1 else 0))))"

function gcd_loop :: "int \<Rightarrow> int \<Rightarrow> int" where
  \<comment> \<open>on \<open>0 \<le> x\<close>, \<open>0 \<le> y\<close>, where \<open>%\<close> is \<open>mod\<close>\<close>
  "gcd_loop x y = (if y \<le> 0 then x else gcd_loop y (x mod y))"
  by pat_completeness auto
termination
  by (relation "measure (\<lambda>(x, y). nat y)") auto

declare gcd_loop.simps [simp del]

definition native_gcd :: builtin where
  "native_gcd vs r =
     ret r (obind (int_arg vs 0) (\<lambda>x. obind (int_arg vs 1) (\<lambda>y.
     obind (if sint x < 0 then c_i64 (- sint x) else Ok x) (\<lambda>x.
     obind (if sint y < 0 then c_i64 (- sint y) else Ok y) (\<lambda>y.
     Ok (VInt (word_of_int (gcd_loop (sint x) (sint y)))))))))"

definition native_hypot :: "os \<Rightarrow> builtin" where
  "native_hypot os vs r =
     ret r (obind (float_arg vs 0) (\<lambda>x. obind (float_arg vs 1) (\<lambda>y. Ok (VFloat (os_hypot os x y)))))"

definition native_starts_with :: builtin where
  "native_starts_with vs r =
     ret r (obind (str_arg vs 0 r) (\<lambda>s. obind (str_arg vs 1 r) (\<lambda>p.
       Ok (VBool (length p \<le> length s \<and> take (length p) s = p)))))"

definition native_ends_with :: builtin where
  "native_ends_with vs r =
     ret r (obind (str_arg vs 0 r) (\<lambda>s. obind (str_arg vs 1 r) (\<lambda>p.
       Ok (VBool (length p \<le> length s \<and> drop (length s - length p) s = p)))))"

definition native_repeat :: builtin where
  "native_repeat vs r =
     ret_str r (obind (str_arg vs 0 r) (\<lambda>s. obind (int_arg vs 1) (\<lambda>n. str_repeat s (sint n))))"

definition copy_array :: "val list \<Rightarrow> heap \<Rightarrow> (addr \<times> heap) outcome" where
  \<comment> \<open>a new array, each element pushed in turn\<close>
  "copy_array xs h =
     (let (a, h1) = rc_array_new h in obind (ofold (rc_array_push a) xs h1) (\<lambda>h2. Ok (a, h2)))"

definition new_array_of :: "val list \<Rightarrow> rt \<Rightarrow> (val \<times> rt) outcome" where
  "new_array_of xs = with_heap_val (\<lambda>h. obind (copy_array xs h) (\<lambda>(a, h'). val_array a h'))"

definition array_arg :: "val list \<Rightarrow> nat \<Rightarrow> string \<Rightarrow> rt \<Rightarrow> val list outcome" where
  \<comment> \<open>the elements of an array argument, or the message for another kind\<close>
  "array_arg vs k err r =
     obind (arg vs k) (\<lambda>v. case v of
         VArr a \<Rightarrow> obind (deref_arr (heap r) a) (\<lambda>(xs, cap). Ok xs)
       | _ \<Rightarrow> Fatal err)"

definition native_slice :: builtin where
  "native_slice vs r =
     obind (arg vs 0) (\<lambda>v.
     if is_str v
     then ret_str r (obind (value_to_string (heap r) v) (\<lambda>s. obind (int_arg vs 1) (\<lambda>st. obind (int_arg vs 2) (\<lambda>en.
            str_slice s (sint st) (sint en)))))
     else obind (array_arg vs 0 ''slice() expects an array or a string'' r) (\<lambda>xs.
          obind (int_arg vs 1) (\<lambda>st. obind (int_arg vs 2) (\<lambda>en.
          let n = int (length xs);
              stop = (if n < sint en then n else sint en);
              low0 = (if sint st < 0 then 0 else sint st);
              low = (if stop < low0 then stop else low0)
          in new_array_of (take (nat (stop - low)) (drop (nat low) xs)) r))))"

definition int32_of :: "val \<Rightarrow> int outcome" where
  \<comment> \<open>\<open>(int)v.as.i\<close> wraps; \<open>(int)value_as_float(v)\<close> is undefined outside the range of \<open>int\<close>\<close>
  "int32_of v = (case v of
       VInt i \<Rightarrow> Ok (sint (ucast i :: 32 word))
     | _ \<Rightarrow> obind (obind (value_as_float v) f_to_int) (\<lambda>i.
         obind (oguard (in_i32 (sint i)) FloatRange) (\<lambda>_. Ok (sint i))))"

definition native_pad_case :: "bool \<Rightarrow> builtin" where
  "native_pad_case at_start vs r =
     ret_str r (obind (str_arg vs 0 r) (\<lambda>s. obind (str_arg vs 2 r) (\<lambda>pad.
       obind (obind (arg vs 1) int32_of) (\<lambda>width. Ok (native_pad s width pad at_start)))))"

section \<open>Arrays (cases 38 to 46)\<close>

definition is_num :: "val \<Rightarrow> bool" where
  "is_num v = (case v of VInt i \<Rightarrow> True | VFloat f \<Rightarrow> True | _ \<Rightarrow> False)"

definition native_less :: "heap \<Rightarrow> val \<Rightarrow> val \<Rightarrow> bool outcome" where
  "native_less h a b =
     (if is_num a \<and> is_num b
      then obind (value_as_float a) (\<lambda>x. obind (value_as_float b) (\<lambda>y. Ok (f_lt x y)))
      else obind (value_to_string h a) (\<lambda>s. obind (value_to_string h b) (\<lambda>t. Ok (strcmp s t < 0))))"

fun sink :: "('a \<Rightarrow> 'a \<Rightarrow> bool outcome) \<Rightarrow> 'a \<Rightarrow> 'a list \<Rightarrow> 'a list outcome" where
  \<comment> \<open>the inner loop: \<open>key\<close> moves down the sorted part, which is listed from its end\<close>
  "sink lt key [] = Ok [key]"
| "sink lt key (y # ys) =
     obind (lt key y) (\<lambda>b. if b then obind (sink lt key ys) (\<lambda>zs. Ok (y # zs)) else Ok (key # y # ys))"

definition insertion_sort :: "('a \<Rightarrow> 'a \<Rightarrow> bool outcome) \<Rightarrow> 'a list \<Rightarrow> 'a list outcome" where
  "insertion_sort lt xs = obind (ofold (sink lt) xs []) (\<lambda>ys. Ok (rev ys))"

definition native_sort :: builtin where
  \<comment> \<open>the copies are moved within the new array, without retains\<close>
  "native_sort vs r =
     obind (array_arg vs 0 ''sort() expects an array'' r) (\<lambda>xs.
     with_heap_val (\<lambda>h.
       obind (copy_array xs h) (\<lambda>(a, h1).
       obind (insertion_sort (native_less h1) xs) (\<lambda>ys.
       obind (deref_arr h1 a) (\<lambda>(zs, cap).
       obind (hset_body h1 a (BArr ys cap)) (\<lambda>h2. val_array a h2))))) r)"

definition native_reverse :: builtin where
  "native_reverse vs r = obind (array_arg vs 0 ''reverse() expects an array'' r) (\<lambda>xs. new_array_of (rev xs) r)"

primrec find_index :: "('a \<Rightarrow> bool outcome) \<Rightarrow> nat \<Rightarrow> 'a list \<Rightarrow> nat option outcome" where
  "find_index p i [] = Ok None"
| "find_index p i (x # xs) = obind (p x) (\<lambda>b. if b then Ok (Some i) else find_index p (Suc i) xs)"

definition native_index_of :: builtin where
  "native_index_of vs r =
     ret r (obind (array_arg vs 0 ''index_of() expects an array'' r) (\<lambda>xs.
       obind (arg vs 1) (\<lambda>x.
       obind (find_index (\<lambda>e. value_eq (heap r) e x) 0 xs) (\<lambda>i.
       Ok (VInt (case i of None \<Rightarrow> -1 | Some i \<Rightarrow> of_nat i))))))"

definition native_concat :: builtin where
  "native_concat vs r =
     obind (arg vs 0) (\<lambda>a. case a of
         VArr p \<Rightarrow>
           obind (array_arg vs 1 ''concat() expects two arrays'' r) (\<lambda>ys.
           obind (array_arg vs 0 ''concat() expects two arrays'' r) (\<lambda>xs. new_array_of (xs @ ys) r))
       | _ \<Rightarrow> Fatal ''concat() expects two arrays'')"

definition native_count :: builtin where
  "native_count vs r =
     ret r (obind (array_arg vs 0 ''count() expects an array'' r) (\<lambda>xs.
       obind (arg vs 1) (\<lambda>x.
       obind (omap (\<lambda>e. value_eq (heap r) e x) xs) (\<lambda>bs.
       Ok (VInt (of_nat (length (filter id bs))))))))"

definition native_sum :: builtin where
  "native_sum vs r =
     ret r (obind (array_arg vs 0 ''sum() expects an array'' r) (\<lambda>xs.
       if list_all (\<lambda>v. \<not> is_float v) xs
       then obind (ofold (\<lambda>v t. obind (as_i v) (\<lambda>i. c_i64 (sint t + sint i))) xs 0) (\<lambda>t. Ok (VInt t))
       else obind (ofold (\<lambda>v t. obind (value_as_float v) (\<lambda>x. Ok (f_add t x))) xs 0) (\<lambda>t. Ok (VFloat t))))"

section \<open>Clocks and random numbers (cases 47 to 51)\<close>

definition pyro_get_now_ms :: "os \<Rightarrow> rt \<Rightarrow> i64 \<times> rt" where
  "pyro_get_now_ms os r = (let r1 = ask Now r in (os_number os (calls r1), r1))"

definition pyro_get_mono_ms :: "os \<Rightarrow> rt \<Rightarrow> (i64 \<times> rt) outcome" where
  "pyro_get_mono_ms os r =
     (let r1 = (if start_ms r = 0 then let (t, r1) = pyro_get_now_ms os r in r1\<lparr>start_ms := t\<rparr> else r);
          (now, r2) = pyro_get_now_ms os r1
      in obind (c_i64 (sint now - sint (start_ms r2))) (\<lambda>d. Ok (d, r2)))"

definition native_now_ms :: "os \<Rightarrow> builtin" where
  "native_now_ms os vs r = (let (t, r1) = pyro_get_now_ms os r in Ok (VInt t, r1))"

definition native_monotonic_ms :: "os \<Rightarrow> builtin" where
  "native_monotonic_ms os vs r = obind (pyro_get_mono_ms os r) (\<lambda>(t, r1). Ok (VInt t, r1))"

definition native_random :: builtin where
  "native_random vs r =
     (let (z, r1) = splitmix64_next r
      in Ok (VFloat (f_div (f_of_int (uint (drop_bit 11 z))) (f_of_int 9007199254740992)), r1))"

definition native_random_int :: builtin where
  "native_random_int vs r =
     obind (int_arg vs 0) (\<lambda>a. obind (int_arg vs 1) (\<lambda>b.
     let lo = (if b <s a then b else a); hi = (if b <s a then a else b)
     in obind (c_i64 (sint hi - sint lo)) (\<lambda>d. obind (c_i64 (sint d + 1)) (\<lambda>span.
        let (z, r1) = splitmix64_next r
        in obind (c_i64 (sint lo + sint (z mod span))) (\<lambda>v. Ok (VInt v, r1))))))"

definition native_seed :: builtin where
  "native_seed vs r = obind (int_arg vs 0) (\<lambda>n. Ok (VNull, r\<lparr>prng := n\<rparr>))"

section \<open>The HTTP server (cases 52 to 54)\<close>

definition native_http_listen :: "os \<Rightarrow> builtin" where
  "native_http_listen os vs r =
     obind (cap_net ''listen'' ''http_listen()'' r) (\<lambda>_. obind (int_arg vs 0) (\<lambda>port.
     let (ok, r1) = http_listen os port r in Ok (VBool ok, r1)))"

definition native_http_accept :: "os \<Rightarrow> builtin" where
  "native_http_accept os vs r = http_accept os r"

definition native_http_respond :: "os \<Rightarrow> builtin" where
  "native_http_respond os vs r =
     (if \<not> connected r then Ok (VBool False, r)
      else obind (int_arg vs 0) (\<lambda>st. obind (str_arg vs 1 r) (\<lambda>ctype. obind (str_arg vs 2 r) (\<lambda>payload.
           let (ok, r1) = http_respond os st ctype payload r in Ok (VBool ok, r1)))))"

section \<open>Files and processes (cases 55 to 64)\<close>

definition native_file_exists :: "os \<Rightarrow> builtin" where
  "native_file_exists os vs r =
     obind (str_arg vs 0 r) (\<lambda>p. let (ok, r1) = try_call os (Stat p) r in Ok (VBool ok, r1))"

definition native_is_dir :: "os \<Rightarrow> builtin" where
  "native_is_dir os vs r =
     obind (str_arg vs 0 r) (\<lambda>p. let (ok, r1) = try_call os (IsDir p) r in Ok (VBool ok, r1))"

definition push_leaked :: "addr \<Rightarrow> string \<Rightarrow> heap \<Rightarrow> heap outcome" where
  \<comment> \<open>\<open>rc_array_push(out, val_str(s))\<close>: the maker's reference stays counted\<close>
  "push_leaked a s h = (let (v, h1) = val_str s h in rc_array_push a v h1)"

definition leaked_array :: "string list \<Rightarrow> rt \<Rightarrow> (val \<times> rt) outcome" where
  "leaked_array ss = with_heap_val (\<lambda>h.
     let (a, h1) = rc_array_new h in obind (ofold (push_leaked a) ss h1) (val_array a))"

definition dir_names :: "string list \<Rightarrow> string list" where
  \<comment> \<open>\<open>qsort\<close> with \<open>pyro_name_cmp\<close>\<close>
  "dir_names ns = sort (filter (\<lambda>s. s \<noteq> ''.'' \<and> s \<noteq> ''..'') ns)"

definition native_list_dir :: "os \<Rightarrow> builtin" where
  "native_list_dir os vs r =
     obind (str_arg vs 0 r) (\<lambda>p.
     let r1 = ask (ListDir p) r
     in leaked_array (case os_names os (calls r1) of None \<Rightarrow> [] | Some ns \<Rightarrow> dir_names (map c_str ns)) r1)"

definition dir_prefixes :: "string \<Rightarrow> string list" where
  \<comment> \<open>what stands before each separator but a leading one\<close>
  "dir_prefixes p = map (\<lambda>i. take i p) (filter (\<lambda>i. is_slash (p ! i)) [1..<length p])"

fun make_parents :: "os \<Rightarrow> string \<Rightarrow> string list \<Rightarrow> rt \<Rightarrow> rt" where
  "make_parents os p [] r = r"
| "make_parents os p (d # ds) r =
     (let (isdir, r1) = try_call os (IsDir d) r
      in make_parents os p ds (if isdir then r1 else snd (try_call os (MakeDir p d) r1)))"

definition pyro_mkdir_all :: "os \<Rightarrow> string \<Rightarrow> rt \<Rightarrow> bool \<times> rt" where
  "pyro_mkdir_all os p r =
     (if 1024 \<le> int (length p) then (False, r)
      else let r1 = make_parents os p (dir_prefixes p) r; (isdir, r2) = try_call os (IsDir p) r1
           in if isdir then (True, r2)
              else let (ok, r3) = try_call os (MakeDir p p) r2
                   in if ok then (True, r3) else try_call os (IsDir p) r3)"

definition native_make_dir :: "os \<Rightarrow> builtin" where
  "native_make_dir os vs r =
     obind (str_arg vs 0 r) (\<lambda>p. obind (cap_fs (os_cwd os) False p ''make_dir()'' r) (\<lambda>_.
     let (ok, r1) = pyro_mkdir_all os p r in Ok (VBool ok, r1)))"

definition native_delete_file :: "os \<Rightarrow> builtin" where
  "native_delete_file os vs r =
     obind (str_arg vs 0 r) (\<lambda>p. obind (cap_fs (os_cwd os) False p ''delete_file()'' r) (\<lambda>_.
     let (isdir, r1) = try_call os (IsDir p) r
     in if isdir then Ok (VBool False, r1)
        else let (ok, r2) = try_call os (Remove p) r1 in Ok (VBool ok, r2)))"

definition native_file_size :: "os \<Rightarrow> builtin" where
  "native_file_size os vs r =
     obind (str_arg vs 0 r) (\<lambda>p. let (ok, r1) = try_call os (Stat p) r
       in Ok (VInt (if ok then os_number os (calls r1) else -1), r1))"

definition native_write_file :: "os \<Rightarrow> builtin" where
  "native_write_file os vs r =
     obind (str_arg vs 0 r) (\<lambda>p. obind (cap_fs (os_cwd os) False p ''write_file()'' r) (\<lambda>_.
     obind (str_arg vs 1 r) (\<lambda>c.
     let r1 = ask (WriteFile p c) r in Ok (VBool (os_write os (calls r1) = Some True), r1))))"

definition native_env :: "os \<Rightarrow> builtin" where
  "native_env os vs r =
     obind (str_arg vs 0 r) (\<lambda>n. obind (cap_env n ''env()'' r) (\<lambda>_.
     let r1 = ask (Getenv n) r
     in ret_str r1 (Ok (case os_text os (calls r1) of None \<Rightarrow> [] | Some s \<Rightarrow> c_str s))))"

definition native_exec :: "os \<Rightarrow> builtin" where
  "native_exec os vs r =
     obind (str_arg vs 0 r) (\<lambda>cmd. obind (cap_exec cmd ''exec()'' r) (\<lambda>_.
     let r1 = ask (Popen cmd) r
     in ret_str r1 (Ok (case os_text os (calls r1) of None \<Rightarrow> [] | Some s \<Rightarrow> s))))"

definition native_write_file_atomic :: "os \<Rightarrow> builtin" where
  "native_write_file_atomic os vs r =
     obind (str_arg vs 0 r) (\<lambda>p. obind (cap_fs (os_cwd os) False p ''write_file_atomic()'' r) (\<lambda>_.
     obind (str_arg vs 1 r) (\<lambda>c.
     let tmp = p @ ''.tmp''; r1 = ask (WriteTemp p tmp c) r
     in case os_write os (calls r1) of
          None \<Rightarrow> Ok (VBool False, r1)
        | Some written \<Rightarrow>
            let (ok, r2) = (if written then try_call os (Rename tmp p) r1 else (False, r1))
            in Ok (VBool ok, if ok then r2 else ask (DropTemp p tmp) r2))))"

section \<open>URLs and assets (cases 65 to 68)\<close>

definition native_url_decode :: builtin where
  "native_url_decode vs r = ret_str r (obind (str_arg vs 0 r) (\<lambda>s. Ok (url_decode s)))"

definition native_url_encode :: builtin where
  "native_url_encode vs r = ret_str r (obind (str_arg vs 0 r) (\<lambda>s. Ok (url_encode s)))"

definition native_asset :: builtin where
  \<comment> \<open>the empty string made first is never released\<close>
  "native_asset vs r =
     obind (str_arg vs 0 r) (\<lambda>want.
     obind (ret_str r (Ok [])) (\<lambda>(res, r1).
     case List.find (\<lambda>a. as_name a = want) (assets r1) of
       None \<Rightarrow> Ok (res, r1)
     | Some a \<Rightarrow> ret_str r1 (Ok (as_data a))))"

definition native_asset_names :: builtin where
  "native_asset_names vs r = leaked_array (map as_name (assets r)) r"

section \<open>Dispatch\<close>

definition builtins :: "os \<Rightarrow> builtin list" where
  "builtins os =
     [native_sqrt, native_pow os, native_abs, native_min, native_max, native_floor, native_ceil, native_round,
      native_to_string, native_to_int, native_to_number, native_remove, native_upper, native_lower, native_trim,
      native_contains, native_find, native_replace, native_substr, native_split, native_join, native_input,
      native_json_encode, native_json_decode, native_http_get os, native_http_post os, native_sleep os,
      native_write_bytes os, native_read_file os, native_args, native_http_serve os, native_clamp, native_sign,
      native_gcd, native_hypot os, native_starts_with, native_ends_with, native_repeat, native_sort,
      native_reverse, native_slice, native_index_of, native_pad_case True, native_pad_case False, native_concat,
      native_count, native_sum, native_now_ms os, native_monotonic_ms os, native_random, native_random_int,
      native_seed, native_http_listen os, native_http_accept os, native_http_respond os, native_file_exists os,
      native_is_dir os, native_list_dir os, native_make_dir os, native_delete_file os, native_file_size os,
      native_write_file os, native_env os, native_exec os, native_write_file_atomic os, native_url_decode,
      native_url_encode, native_asset, native_asset_names]"

definition native :: "os \<Rightarrow> nat \<Rightarrow> builtin" where
  "native os i vs r =
     (if i < length (builtins os) then (builtins os ! i) vs r else Fatal ''unknown native builtin'')"

end
