(* ===== verification/Quiet.thy ===== *)
theory Quiet
  imports Builtins Execution
begin

text \<open>
  No builtin indexes the arrays of the execution engine: whatever the arguments, the state and the
  answers of the operating system, none of them ends in a read outside the code section or in an
  access to a missing frame. With it, the guarantees about the dispatch loop hold for programs that
  call the runtime's own builtins.
\<close>

lemma quiet_let: "(\<And>x. x = a \<Longrightarrow> quiet (f x)) \<Longrightarrow> quiet (let x = a in f x)"
  by simp

lemma quiet_case_prod: "(\<And>a b. p = (a, b) \<Longrightarrow> quiet (f a b)) \<Longrightarrow> quiet (case p of (a, b) \<Rightarrow> f a b)"
  by (cases p) simp

lemma quiet_case_prod_app: "(\<And>a b. p = (a, b) \<Longrightarrow> quiet (f a b s)) \<Longrightarrow> quiet ((case p of (a, b) \<Rightarrow> f a b) s)"
  by (cases p) simp

lemma quiet_case_val:
  "(\<And>i. v = VInt i \<Longrightarrow> quiet (fi i)) \<Longrightarrow> (\<And>x. v = VFloat x \<Longrightarrow> quiet (ff x)) \<Longrightarrow> (\<And>b. v = VBool b \<Longrightarrow> quiet (fb b)) \<Longrightarrow>
   (\<And>a. v = VStr a \<Longrightarrow> quiet (fs a)) \<Longrightarrow> quiet fn \<Longrightarrow> (\<And>a. v = VArr a \<Longrightarrow> quiet (fa a)) \<Longrightarrow>
   (\<And>a. v = VMap a \<Longrightarrow> quiet (fm a)) \<Longrightarrow> (\<And>i c. v = VFunc i c \<Longrightarrow> quiet (fc i c)) \<Longrightarrow>
   quiet (case v of VInt i \<Rightarrow> fi i | VFloat x \<Rightarrow> ff x | VBool b \<Rightarrow> fb b | VStr a \<Rightarrow> fs a | VNull \<Rightarrow> fn
     | VArr a \<Rightarrow> fa a | VMap a \<Rightarrow> fm a | VFunc i c \<Rightarrow> fc i c)"
  by (simp split: val.split)

lemma quiet_Ok: "quiet (Ok x)" and quiet_Fatal: "quiet (Fatal e)" and quiet_Diverge: "quiet Diverge" and quiet_ofail: "quiet (ofail b e)"
  by simp_all

lemmas quiet_cases = quiet_let quiet_case_prod quiet_case_prod_app quiet_case_val quiet_case_option quiet_Ok quiet_Fatal quiet_Diverge quiet_ofail

lemma quiet_with_heap [quiet_intros]:
  "(\<And>h. quiet (f h)) \<Longrightarrow> quiet (with_heap f r)" "(\<And>h. quiet (g h)) \<Longrightarrow> quiet (with_heap_val g r)"
  by (auto simp: with_heap_def with_heap_val_def intro!: quiet_obind)

lemma quiet_args [quiet_intros, simp]:
  "quiet (arg vs k)" "quiet (str_arg vs k r)" "quiet (float_arg vs k)"
  by (auto simp: arg_def str_arg_def float_arg_def intro!: quiet_obind)

lemma quiet_f_to_int [quiet_intros, simp]: "quiet (f_to_int f)"
  by (simp add: f_to_int_def Let_def)

lemma quiet_ints [quiet_intros, simp]: "quiet (int_of v)" "quiet (int_arg vs k)" "quiet (raw_int v)" "quiet (int32_of v)"
  by (auto simp: int_of_def int_arg_def raw_int_def int32_of_def intro!: quiet_obind split: val.splits)

lemma quiet_int_val [quiet_intros, simp]: "quiet (int_val i)"
  by (simp add: int_val_def quiet_obind)

lemma quiet_ret [quiet_intros]: "quiet m \<Longrightarrow> quiet (ret r m)" "quiet m' \<Longrightarrow> quiet (ret_str r m')"
  by (auto simp: ret_def ret_str_def intro!: quiet_intros)

lemma quiet_conversions [quiet_intros, simp]:
  "quiet (to_int_str s)" "quiet (to_number_str s)" "quiet (str_substr s i n)" "quiet (str_slice s i n)"
  "quiet (str_repeat s n)"
  by (auto simp: to_int_str_def to_number_str_def str_substr_def str_slice_def str_repeat_def Let_def
      intro!: quiet_obind split: prod.splits)

lemma quiet_owners [quiet_intros, simp]: "quiet (val_str_rc a h)" "quiet (val_array a h)" "quiet (val_map a h)"
  by (auto simp: val_str_rc_def val_array_def val_map_def intro!: quiet_obind)

lemma quiet_push_strs [quiet_intros, simp]:
  "quiet (push_str a s h)" "quiet (push_leaked a s h)" "quiet (put_str a s t h)" "quiet (strings_array ss h)"
  "quiet (leaked_array ss r)"
  by (auto simp: push_str_def push_leaked_def put_str_def strings_array_def leaked_array_def intro!: quiet_intros split: prod.splits)

lemma quiet_copies [quiet_intros, simp]: "quiet (copy_array xs h)" "quiet (new_array_of xs r)" "quiet (array_arg vs k e r)"
  by (auto simp: copy_array_def new_array_of_def array_arg_def intro!: quiet_intros split: prod.splits val.splits)

lemma quiet_rc_map_remove [quiet_intros, simp]: "quiet (rc_map_remove a k h)"
  by (auto simp: rc_map_remove_def intro!: quiet_intros split: option.splits prod.splits)

lemma quiet_gates [quiet_intros, simp]:
  "quiet (cap_fs cwd rd p w r)" "quiet (cap_net p w r)" "quiet (cap_exec p w r)" "quiet (cap_env p w r)"
  by (auto simp: cap_fs_def cap_net_def cap_exec_def cap_env_def cap_denied_def Let_def)

section \<open>JSON\<close>

lemma quiet_to_json_fuel: "quiet (to_json_fuel n h v)"
proof (induction n arbitrary: v)
  case (Suc n)
  then show ?case unfolding to_json_fuel.simps by (intro quiet_intros quiet_cases)
qed simp

lemma quiet_json_string: "quiet (json_string acc s)"
  by (induction acc s rule: json_string.induct) (auto split: list.splits)

lemma quiet_parse_json_string [quiet_intros, simp]: "quiet (parse_json_string s h)"
  by (auto simp: parse_json_string_def intro!: quiet_obind quiet_json_string split: prod.splits)

lemma quiet_json_value:
  "quiet (json_value n s h) \<and> quiet (json_elems n a s h) \<and> quiet (json_members n a s h)"
proof (induction n arbitrary: a s h)
  case 0
  show ?case by (simp add: json_value.simps json_elems.simps json_members.simps)
next
  case (Suc n)
  note IH = Suc [THEN conjunct1] Suc [THEN conjunct2, THEN conjunct1] Suc [THEN conjunct2, THEN conjunct2]
  show ?case unfolding json_value.simps json_elems.simps json_members.simps
    by (intro conjI IH quiet_intros quiet_cases)
qed

lemma quiet_json [quiet_intros, simp]: "quiet (value_to_json h v)" "quiet (parse_json_value s h)"
  using quiet_json_value by (auto simp only: value_to_json_def parse_json_value_def quiet_to_json_fuel)

section \<open>The HTTP server\<close>

lemma quiet_buf_read [quiet_intros, simp]: "quiet (buf_read mem i n)"
  by (simp add: buf_read_def quiet_obind)

lemma quiet_http_read_request [quiet_intros, simp]: "quiet (http_read_request mem ps)"
  unfolding http_read_request_def request_line_def by (intro quiet_intros quiet_cases)

lemma quiet_http_accept [quiet_intros, simp]: "quiet (http_accept os r)"
  unfolding http_accept_def request_map_def by (intro quiet_intros quiet_cases)

lemma quiet_http_serve_dir [quiet_intros, simp]: "quiet (http_serve_dir os d p r)"
  unfolding http_serve_dir_def http_serve_setup_def by (intro quiet_intros quiet_cases)

section \<open>Sorting and searching\<close>

lemma quiet_native_less [quiet_intros, simp]: "quiet (native_less h a b)"
  by (auto simp: native_less_def intro!: quiet_obind)

lemma quiet_sink: "(\<And>x y. quiet (lt x y)) \<Longrightarrow> quiet (sink lt k ys)"
  by (induction ys) (auto intro!: quiet_obind)

lemma quiet_insertion_sort [quiet_intros]: "(\<And>x y. quiet (lt x y)) \<Longrightarrow> quiet (insertion_sort lt xs)"
  by (auto simp: insertion_sort_def intro!: quiet_obind quiet_ofold quiet_sink)

lemma quiet_find_index [quiet_intros]: "(\<And>x. quiet (p x)) \<Longrightarrow> quiet (find_index p i xs)"
  by (induction xs arbitrary: i) (auto intro!: quiet_obind)

section \<open>All builtins\<close>

lemmas native_num_defs = native_sqrt_def native_pow_def native_abs_def pick_def native_min_def native_max_def
  native_floor_def native_ceil_def native_round_def native_to_string_def native_to_int_def native_to_number_def
  native_clamp_def native_sign_def native_gcd_def native_hypot_def

lemmas native_str_defs = native_remove_def native_upper_def native_lower_def native_trim_def native_contains_def
  native_find_def native_replace_def native_substr_def native_split_def native_join_def join_arr_def
  native_input_def native_json_encode_def native_json_decode_def native_starts_with_def native_ends_with_def
  native_repeat_def native_slice_def native_pad_case_def native_url_decode_def native_url_encode_def

lemmas native_arr_defs = native_args_def native_sort_def native_reverse_def native_index_of_def native_concat_def
  native_count_def native_sum_def native_asset_def native_asset_names_def

lemmas native_sys_defs = native_http_get_def native_http_post_def native_sleep_def native_write_bytes_def
  native_read_file_def native_http_serve_def native_now_ms_def native_monotonic_ms_def pyro_get_mono_ms_def
  native_random_def native_random_int_def native_seed_def native_http_listen_def native_http_accept_def
  native_http_respond_def native_file_exists_def native_is_dir_def native_list_dir_def native_make_dir_def
  native_delete_file_def native_file_size_def native_write_file_def native_env_def native_exec_def
  native_write_file_atomic_def

lemma quiet_numbers:
  "list_all (\<lambda>b. \<forall>vs r. quiet (b vs r)) [native_sqrt, native_pow os, native_abs, native_min, native_max, native_floor,
     native_ceil, native_round, native_to_string, native_to_int, native_to_number, native_clamp, native_sign,
     native_gcd, native_hypot os]"
  unfolding list.pred_inject native_num_defs by (intro conjI allI list.pred_inject(1) quiet_intros quiet_cases)

lemma quiet_strings:
  "list_all (\<lambda>b. \<forall>vs r. quiet (b vs r)) [native_remove, native_upper, native_lower, native_trim, native_contains,
     native_find, native_replace, native_substr, native_split, native_join, native_input, native_json_encode,
     native_json_decode, native_starts_with, native_ends_with, native_repeat, native_slice, native_pad_case b,
     native_url_decode, native_url_encode]"
  unfolding list.pred_inject native_str_defs by (intro conjI allI list.pred_inject(1) quiet_intros quiet_cases)

lemma quiet_array_builtins:
  "list_all (\<lambda>b. \<forall>vs r. quiet (b vs r)) [native_args, native_sort, native_reverse, native_index_of, native_concat,
     native_count, native_sum, native_asset, native_asset_names]"
  unfolding list.pred_inject native_arr_defs by (intro conjI allI list.pred_inject(1) quiet_intros quiet_cases)

lemma quiet_system:
  "list_all (\<lambda>b. \<forall>vs r. quiet (b vs r)) [native_http_get os, native_http_post os, native_sleep os,
     native_write_bytes os, native_read_file os, native_http_serve os, native_now_ms os, native_monotonic_ms os,
     native_random, native_random_int, native_seed, native_http_listen os, native_http_accept os,
     native_http_respond os, native_file_exists os, native_is_dir os, native_list_dir os, native_make_dir os,
     native_delete_file os, native_file_size os, native_write_file os, native_env os, native_exec os,
     native_write_file_atomic os]"
  unfolding list.pred_inject native_sys_defs by (intro conjI allI list.pred_inject(1) quiet_intros quiet_cases)

lemma quiet_builtins: "list_all (\<lambda>b. \<forall>vs r. quiet (b vs r)) (builtins os)"
  using quiet_numbers [of os] quiet_strings [of True] quiet_strings [of False] quiet_array_builtins quiet_system [of os]
  by (simp only: builtins_def list.pred_inject simp_thms)

theorem quiet_native: "quiet (native os i vs r)"
  using quiet_builtins [of os] by (auto simp: native_def list_all_length)

end
