(* ===== verification/Mediation.thy ===== *)
theory Mediation
  imports Quiet
begin

text \<open>
  Complete mediation: what the log of operating-system calls can contain. \<open>allowed\<close> says which gate
  stands before each kind of call; \<open>mediated\<close> is the invariant that every logged call had passed its
  gate and that a socket is open only if listening was granted. Every builtin keeps it and changes
  neither the policies nor the sandbox flag, and so does every instruction, hence every state an
  execution reaches satisfies it. Connections made while following a redirect are the exception.
\<close>

section \<open>What the gates let through\<close>

definition fs_ok :: "os \<Rightarrow> rt \<Rightarrow> bool \<Rightarrow> string \<Rightarrow> bool" where
  "fs_ok os r rd p \<longleftrightarrow> cap_fs (os_cwd os) rd p [] r = Ok ()"

definition net_ok :: "rt \<Rightarrow> string \<Rightarrow> bool" where
  "net_ok r t \<longleftrightarrow> cap_net t [] r = Ok ()"

primrec allowed :: "os \<Rightarrow> rt \<Rightarrow> os_call \<Rightarrow> bool" where
  "allowed os r (Dial hop url host port) = (hop = 0 \<longrightarrow> net_ok r url)"
| "allowed os r (Send s) = True"
| "allowed os r (Curl hop url body) = (hop = 0 \<longrightarrow> net_ok r url)"
| "allowed os r (ReadFile p) = fs_ok os r True p"
| "allowed os r (WriteFile p d) = fs_ok os r False p"
| "allowed os r (WriteTemp p t d) = (fs_ok os r False p \<and> t = p @ ''.tmp'')"
| "allowed os r (Rename t p) = (fs_ok os r False p \<and> t = p @ ''.tmp'')"
| "allowed os r (DropTemp p t) = (fs_ok os r False p \<and> t = p @ ''.tmp'')"
| "allowed os r (Stat p) = True"
| "allowed os r (IsDir p) = True"
| "allowed os r (ListDir p) = True"
| "allowed os r (MakeDir p d) = (fs_ok os r False p \<and> prefix d p)"
| "allowed os r (Remove p) = fs_ok os r False p"
| "allowed os r (Getenv n) = (cap_env n [] r = Ok ())"
| "allowed os r (Popen c) = (cap_exec c [] r = Ok ())"
| "allowed os r Socket = net_ok r ''listen''"
| "allowed os r (Bind port) = net_ok r ''listen''"
| "allowed os r Listen = net_ok r ''listen''"
| "allowed os r Accept = net_ok r ''listen''"
| "allowed os r (Respond s) = net_ok r ''listen''"
| "allowed os r Now = True"
| "allowed os r (Sleep ms) = True"

definition rights :: "rt \<Rightarrow> bool \<times> policy \<times> policy" where
  "rights r = (sandboxed r, env_policy r, artifact_policy r)"

definition mediated :: "os \<Rightarrow> rt \<Rightarrow> bool" where
  "mediated os r \<longleftrightarrow> list_all (allowed os r) (calls r) \<and> (listening r \<or> connected r \<longrightarrow> net_ok r ''listen'')"

lemma cap_denied_not_Ok [simp]: "cap_denied r a b c \<noteq> Ok x"
  unfolding cap_denied_def by simp

lemma gate_iff:
  "cap_fs cwd rd p w r = Ok () \<longleftrightarrow> ungated r \<or> cap_both_paths cwd r (if rd then pol_fsread else pol_fswrite) p"
  "cap_net p w r = Ok () \<longleftrightarrow> ungated r \<or>
     cap_both_listed r pol_net (if cap_host_of p = [] then take 511 p else cap_host_of p)"
  "cap_exec p w r = Ok () \<longleftrightarrow> ungated r \<or>
     cap_both_listed r pol_exec (base_name (take 511 (takeWhile (\<lambda>c. c \<noteq> CHR '' '') p)))"
  "cap_env p w r = Ok () \<longleftrightarrow> ungated r \<or> cap_both_listed r pol_env p"
  unfolding cap_fs_def cap_net_def cap_exec_def cap_env_def Let_def by (simp_all only: if_split_eq1 cap_denied_not_Ok) auto

lemma both_rights:
  assumes "rights r' = rights r"
  shows "ungated r' = ungated r" "cap_both r' P = cap_both r P"
  using assms by (simp_all add: rights_def ungated_def policy_active_def cap_both_def)

lemma gates_rights:
  assumes "rights r' = rights r"
  shows "cap_fs cwd rd p w r' = Ok () \<longleftrightarrow> cap_fs cwd rd p w r = Ok ()" "cap_net p w r' = Ok () \<longleftrightarrow> cap_net p w r = Ok ()"
    "cap_exec p w r' = Ok () \<longleftrightarrow> cap_exec p w r = Ok ()" "cap_env p w r' = Ok () \<longleftrightarrow> cap_env p w r = Ok ()"
  by (simp_all only: gate_iff both_rights [OF assms] cap_both_paths_def cap_both_listed_def)

lemma allowed_rights:
  assumes "rights r' = rights r" shows "allowed os r' c \<longleftrightarrow> allowed os r c"
  by (cases c) (simp_all only: allowed.simps fs_ok_def net_ok_def gates_rights [OF assms])

section \<open>The invariant, relative to a state\<close>

definition med :: "os \<Rightarrow> rt \<Rightarrow> rt \<Rightarrow> bool" where
  "med os r0 r \<longleftrightarrow> rights r = rights r0 \<and> list_all (allowed os r0) (calls r) \<and>
     (listening r \<or> connected r \<longrightarrow> net_ok r0 ''listen'')"

lemma med_mediated: "med os r r = mediated os r"
  by (simp add: med_def mediated_def)

lemma med_mediated': "med os r0 r \<Longrightarrow> mediated os r \<and> rights r = rights r0"
proof -
  assume m: "med os r0 r"
  then have "rights r = rights r0" by (simp add: med_def)
  note allowed_rights [OF this] gates_rights(2) [OF this]
  then have "allowed os r = allowed os r0" "net_ok r = net_ok r0"
    by (simp_all only: fun_eq_iff net_ok_def simp_thms)
  with m show ?thesis by (simp add: med_def mediated_def)
qed

lemma med_update [simp]:
  "med os r0 (r\<lparr>heap := h\<rparr>) = med os r0 r" "med os r0 (r\<lparr>out := t\<rparr>) = med os r0 r"
  "med os r0 (r\<lparr>inp := t\<rparr>) = med os r0 r" "med os r0 (r\<lparr>prng := w\<rparr>) = med os r0 r"
  "med os r0 (r\<lparr>http_buf := t\<rparr>) = med os r0 r" "med os r0 (r\<lparr>start_ms := w\<rparr>) = med os r0 r"
  by (simp_all add: med_def rights_def)

lemma med_closed [simp]: "med os r0 r \<Longrightarrow> med os r0 (r\<lparr>connected := False\<rparr>)"
  by (simp add: med_def rights_def)

lemma med_opened: "med os r0 r \<Longrightarrow> net_ok r0 ''listen'' \<Longrightarrow> med os r0 (r\<lparr>connected := b\<rparr>) \<and> med os r0 (r\<lparr>listening := b\<rparr>)"
  by (simp add: med_def rights_def)

lemma med_ask [simp]: "med os r0 r \<Longrightarrow> allowed os r0 c \<Longrightarrow> med os r0 (ask c r)"
  by (simp add: med_def rights_def ask_def)

lemma med_listen: "med os r0 r \<Longrightarrow> listening r \<or> connected r \<Longrightarrow> net_ok r0 ''listen''"
  by (auto simp: med_def)

section \<open>Computations that keep the invariant\<close>

definition keep :: "os \<Rightarrow> rt \<Rightarrow> ('a \<times> rt) outcome \<Rightarrow> bool" where
  "keep os r0 m \<longleftrightarrow> (\<forall>v r'. m = Ok (v, r') \<longrightarrow> med os r0 r')"

named_theorems keep_intros \<open>how a computation of the runtime med_keeps the invariant\<close>

lemma keep_done [keep_intros]: "keep os r0 (Fatal e)" "keep os r0 Diverge" "keep os r0 (UB u)" "med os r0 r \<Longrightarrow> keep os r0 (Ok (v, r))"
  by (simp_all add: keep_def)

lemma keep_obind [keep_intros]: "(\<And>x. m = Ok x \<Longrightarrow> keep os r0 (f x)) \<Longrightarrow> keep os r0 (obind m f)"
  by (auto simp: keep_def outcome_simps)

lemma keep_let [keep_intros]: "(\<And>x. x = a \<Longrightarrow> keep os r0 (f x)) \<Longrightarrow> keep os r0 (let x = a in f x)"
  by simp

lemma keep_if [keep_intros]: "(b \<Longrightarrow> keep os r0 m) \<Longrightarrow> (\<not> b \<Longrightarrow> keep os r0 m') \<Longrightarrow> keep os r0 (if b then m else m')"
  by simp

lemma keep_case_prod [keep_intros]: "(\<And>a b. p = (a, b) \<Longrightarrow> keep os r0 (f a b)) \<Longrightarrow> keep os r0 (case p of (a, b) \<Rightarrow> f a b)"
  by (cases p) simp

lemma keep_case_option [keep_intros]: "(m = None \<Longrightarrow> keep os r0 f) \<Longrightarrow> (\<And>x. m = Some x \<Longrightarrow> keep os r0 (g x)) \<Longrightarrow>
    keep os r0 (case m of None \<Rightarrow> f | Some x \<Rightarrow> g x)"
  by (simp split: option.split)

lemma keep_case_val [keep_intros]:
  "(\<And>i. v = VInt i \<Longrightarrow> keep os r0 (fi i)) \<Longrightarrow> (\<And>x. v = VFloat x \<Longrightarrow> keep os r0 (ff x)) \<Longrightarrow> (\<And>b. v = VBool b \<Longrightarrow> keep os r0 (fb b)) \<Longrightarrow>
   (\<And>a. v = VStr a \<Longrightarrow> keep os r0 (fs a)) \<Longrightarrow> keep os r0 fn \<Longrightarrow> (\<And>a. v = VArr a \<Longrightarrow> keep os r0 (fa a)) \<Longrightarrow>
   (\<And>a. v = VMap a \<Longrightarrow> keep os r0 (fm a)) \<Longrightarrow> (\<And>i c. v = VFunc i c \<Longrightarrow> keep os r0 (fc i c)) \<Longrightarrow>
   keep os r0 (case v of VInt i \<Rightarrow> fi i | VFloat x \<Rightarrow> ff x | VBool b \<Rightarrow> fb b | VStr a \<Rightarrow> fs a | VNull \<Rightarrow> fn
     | VArr a \<Rightarrow> fa a | VMap a \<Rightarrow> fm a | VFunc i c \<Rightarrow> fc i c)"
  by (simp split: val.split)

lemma keep_with_heap_val [keep_intros]: "med os r0 r \<Longrightarrow> keep os r0 (with_heap_val f r)"
  by (auto simp: keep_def with_heap_val_def outcome_simps)

lemma keep_ret [keep_intros]: "med os r0 r \<Longrightarrow> keep os r0 (ret r m)" "med os r0 r \<Longrightarrow> keep os r0 (ret_str r m')"
  by (auto simp: keep_def ret_def ret_str_def with_heap_val_def val_str_def new_rc_string_def halloc_def outcome_simps)

lemma keep_arrays [keep_intros]: "med os r0 r \<Longrightarrow> keep os r0 (new_array_of xs r)" "med os r0 r \<Longrightarrow> keep os r0 (leaked_array ss r)"
  unfolding new_array_of_def leaked_array_def by (rule keep_with_heap_val, assumption)+

lemma med_with_heap: "with_heap f r = Ok r' \<Longrightarrow> med os r0 r' = med os r0 r"
  by (auto simp: with_heap_def outcome_simps)

lemma med_ret_str: "ret_str r m = Ok (v, r') \<Longrightarrow> med os r0 r' = med os r0 r"
  by (auto simp: ret_str_def with_heap_val_def val_str_def new_rc_string_def halloc_def outcome_simps)

lemma med_splitmix: "(z, r') = splitmix64_next r \<Longrightarrow> med os r0 r' = med os r0 r"
  by (auto simp: splitmix64_next_def Let_def)

section \<open>Builtins that ask nothing of the system\<close>

definition med_keeps :: "os \<Rightarrow> builtin \<Rightarrow> bool" where
  "med_keeps os b \<longleftrightarrow> (\<forall>vs r r0. med os r0 r \<longrightarrow> keep os r0 (b vs r))"

lemma med_keepsI: "(\<And>vs r r0. med os r0 r \<Longrightarrow> keep os r0 (b vs r)) \<Longrightarrow> med_keeps os b"
  by (simp add: med_keeps_def)

lemma med_keeps_numbers:
  "list_all (med_keeps os) [native_sqrt, native_pow os', native_abs, native_min, native_max, native_floor,
     native_ceil, native_round, native_to_string, native_to_int, native_to_number, native_clamp, native_sign,
     native_gcd, native_hypot os']"
  unfolding list.pred_inject native_num_defs
  by (intro conjI list.pred_inject(1); rule med_keepsI; intro keep_intros; assumption)

lemma med_keeps_strings:
  "list_all (med_keeps os) [native_remove, native_upper, native_lower, native_trim, native_contains, native_find,
     native_replace, native_substr, native_split, native_join, native_input, native_json_encode, native_json_decode,
     native_starts_with, native_ends_with, native_repeat, native_slice, native_pad_case b, native_url_decode,
     native_url_encode]"
  unfolding list.pred_inject native_str_defs
  by (intro conjI list.pred_inject(1); rule med_keepsI; intro keep_intros; simp add: med_with_heap)

lemma med_keeps_arrays:
  "list_all (med_keeps os) [native_args, native_sort, native_reverse, native_index_of, native_concat, native_count,
     native_sum, native_random, native_random_int, native_seed, native_asset, native_asset_names]"
  unfolding list.pred_inject native_arr_defs native_random_def native_random_int_def native_seed_def
  by (intro conjI list.pred_inject(1); rule med_keepsI; intro keep_intros; simp add: med_ret_str med_splitmix)

section \<open>Builtins that use the system\<close>

lemma fs_gate: "cap_fs (os_cwd os) rd p w r = Ok x \<Longrightarrow> rights r = rights r0 \<Longrightarrow> fs_ok os r0 rd p"
  using gates_rights(1) [of r r0] gate_iff(1) by (cases x) (simp add: fs_ok_def)

lemma net_gate: "cap_net t w r = Ok x \<Longrightarrow> rights r = rights r0 \<Longrightarrow> net_ok r0 t"
  using gates_rights(2) [of r r0] gate_iff(2) by (cases x) (simp add: net_ok_def)

lemma exec_gate: "cap_exec c w r = Ok x \<Longrightarrow> rights r = rights r0 \<Longrightarrow> cap_exec c [] r0 = Ok ()"
  using gates_rights(3) [of r r0] gate_iff(3) by (cases x) simp

lemma env_gate: "cap_env c w r = Ok x \<Longrightarrow> rights r = rights r0 \<Longrightarrow> cap_env c [] r0 = Ok ()"
  using gates_rights(4) [of r r0] gate_iff(4) by (cases x) simp

lemma med_rights: "med os r0 r \<Longrightarrow> rights r = rights r0"
  by (simp add: med_def)

lemma med_try: "try_call os c r = (b, r') \<Longrightarrow> med os r0 r \<Longrightarrow> allowed os r0 c \<Longrightarrow> med os r0 r'"
  by (auto simp: try_call_def Let_def)

lemma med_send: "sock_send_all os c s r = (b, r') \<Longrightarrow> med os r0 r \<Longrightarrow> allowed os r0 (c s) \<Longrightarrow> med os r0 r'"
  by (auto simp: sock_send_all_def Let_def split: if_splits)

lemma med_exchange:
  assumes "http_exchange os hop url u body r = (x, r')" "med os r0 r" "hop = 0 \<longrightarrow> net_ok r0 url"
  shows "med os r0 r'"
proof -
  have "med os r0 (snd (sock_send_all os Send t r1))" if "med os r0 r1" for t r1
    by (rule med_send [OF prod.collapse [symmetric]]) (use that in simp_all)
  with assms show ?thesis
    by (auto simp: http_exchange_def Let_def case_prod_unfold split: option.splits if_splits)
qed

lemma med_hops: "http_hops n os hop url body r = (s, r') \<Longrightarrow> med os r0 r \<Longrightarrow> hop = 0 \<longrightarrow> net_ok r0 url \<Longrightarrow> med os r0 r'"
proof (induction n arbitrary: hop url body r)
  case (Suc n)
  note ex = med_exchange [OF _ Suc.prems(2,3)]
  show ?case
    using Suc.prems by (auto simp: Let_def split: option.splits prod.splits if_splits dest!: ex intro: Suc.IH)
qed simp

lemma med_client: "http_client_request os url body r = (s, r') \<Longrightarrow> med os r0 r \<Longrightarrow> net_ok r0 url \<Longrightarrow> med os r0 r'"
  unfolding http_client_request_def by (rule med_hops) auto

lemma med_now: "pyro_get_now_ms os r = (t, r') \<Longrightarrow> med os r0 r \<Longrightarrow> med os r0 r'"
  by (auto simp: pyro_get_now_ms_def Let_def)

lemma med_mono: "pyro_get_mono_ms os r = Ok (t, r') \<Longrightarrow> med os r0 r \<Longrightarrow> med os r0 r'"
  by (auto simp: pyro_get_mono_ms_def Let_def outcome_simps split: prod.splits if_splits dest!: med_now)

lemma med_parents:
  "med os r0 r \<Longrightarrow> fs_ok os r0 False p \<Longrightarrow> \<forall>d \<in> set ds. prefix d p \<Longrightarrow> med os r0 (make_parents os p ds r)"
proof (induction ds arbitrary: r)
  case (Cons d ds)
  then show ?case by (auto simp: try_call_def Let_def)
qed simp

lemma med_mkdir:
  assumes "pyro_mkdir_all os p r = (b, r')" "med os r0 r" "fs_ok os r0 False p"
  shows "med os r0 r'"
proof -
  have "\<forall>d \<in> set (dir_prefixes p). prefix d p" by (auto simp: dir_prefixes_def take_is_prefix)
  from med_parents [OF assms(2,3) this] assms show ?thesis
    by (auto simp: pyro_mkdir_all_def try_call_def Let_def split: if_splits)
qed

lemma med_http_listen: "http_listen os port r = (b, r') \<Longrightarrow> med os r0 r \<Longrightarrow> net_ok r0 ''listen'' \<Longrightarrow> med os r0 r'"
  by (auto simp: http_listen_def try_call_def Let_def med_opened split: if_splits)

lemma med_http_respond:
  "http_respond os st ct t r = (b, r') \<Longrightarrow> med os r0 r \<Longrightarrow> net_ok r0 ''listen'' \<Longrightarrow> med os r0 r'"
  by (auto simp: http_respond_def Let_def split: prod.splits dest!: med_send)

lemma keep_accept: "med os r0 r \<Longrightarrow> keep os r0 (http_accept os r)"
  unfolding http_accept_def
  by (intro keep_intros) (use med_listen in \<open>auto simp: med_opened\<close>)

lemma serve_not_Ok [simp]: "http_serve_dir os d port r \<noteq> Ok x"
  by (auto simp: http_serve_dir_def outcome_simps)

lemmas system_gates = fs_gate net_gate exec_gate env_gate
lemmas system_calls = med_client med_try med_now med_mono med_http_listen med_http_respond med_mkdir

lemma med_keeps_system:
  "list_all (med_keeps os) [native_http_get os, native_http_post os, native_sleep os,
     native_write_bytes os, native_read_file os, native_http_serve os, native_now_ms os,
     native_http_listen os, native_http_accept os, native_http_respond os, native_file_exists os, native_is_dir os,
     native_list_dir os, native_make_dir os, native_file_size os, native_write_file os, native_env os, native_exec os]"
  unfolding list.pred_inject native_sys_defs
  by (intro conjI list.pred_inject(1); rule med_keepsI; (intro keep_intros keep_accept)?;
      (auto simp: med_rights dest: system_gates system_calls system_calls [OF sym] intro: med_listen; fail)?)

lemma med_keeps_monotonic: "med_keeps os (native_monotonic_ms os)"
  by (rule med_keepsI) (auto simp: keep_def native_monotonic_ms_def outcome_simps dest: med_mono)

lemma med_keeps_delete: "med_keeps os (native_delete_file os)"
  by (rule med_keepsI, unfold native_delete_file_def, intro keep_intros)
     (auto simp: med_rights try_call_def Let_def dest: fs_gate)

lemma med_keeps_atomic: "med_keeps os (native_write_file_atomic os)"
  by (rule med_keepsI, unfold native_write_file_atomic_def, intro keep_intros)
     (auto simp: med_rights try_call_def Let_def dest: fs_gate split: if_splits)

lemma med_keeps_builtins: "list_all (med_keeps os) (builtins os)"
  using med_keeps_numbers [of os os] med_keeps_strings [of os True] med_keeps_strings [of os False] med_keeps_arrays [of os]
    med_keeps_system [of os] med_keeps_monotonic [of os] med_keeps_delete [of os] med_keeps_atomic [of os]
  by (simp only: builtins_def list.pred_inject simp_thms)

lemma native_mediated:
  assumes "native os i vs r = Ok (v, r')" "mediated os r"
  shows "mediated os r' \<and> rights r' = rights r"
proof -
  have i: "i < length (builtins os)" "(builtins os ! i) vs r = Ok (v, r')"
    using assms(1) by (auto simp: native_def split: if_splits)
  then have "med_keeps os (builtins os ! i)" using med_keeps_builtins by (simp add: list_all_length)
  with i assms(2) have "med os r r'" by (auto simp: med_keeps_def keep_def med_mediated [symmetric])
  then show ?thesis by (rule med_mediated')
qed

section \<open>Instructions\<close>

text \<open>What an instruction other than a builtin call leaves of the runtime's state.\<close>

definition system :: "vm \<Rightarrow> (bool \<times> policy \<times> policy) \<times> history \<times> bool \<times> bool" where
  "system s = (let r = v_rt s in (rights r, calls r, listening r, connected r))"

lemma mediated_system: "system s' = system s \<Longrightarrow> mediated os (v_rt s') \<longleftrightarrow> mediated os (v_rt s)"
proof -
  assume s: "system s' = system s"
  then have "rights (v_rt s') = rights (v_rt s)" by (simp add: system_def Let_def)
  note allowed_rights [OF this] gates_rights(2) [OF this]
  then have "allowed os (v_rt s') = allowed os (v_rt s)" "net_ok (v_rt s') = net_ok (v_rt s)"
    by (simp_all only: fun_eq_iff net_ok_def simp_thms)
  with s show ?thesis by (simp add: mediated_def system_def Let_def)
qed

lemma system_update [simp]:
  "system (s\<lparr>v_pc := pc\<rparr>) = system s" "system (s\<lparr>v_stk := vs\<rparr>) = system s" "system (s\<lparr>v_locals := f\<rparr>) = system s"
  "system (s\<lparr>v_frames := fs\<rparr>) = system s" "system (s\<lparr>v_handlers := hs\<rparr>) = system s" "system (s\<lparr>v_globals := vs\<rparr>) = system s"
  "system (push v s) = system s" "system (print t s) = system s"
  by (simp_all add: system_def push_def print_def rights_def Let_def)

named_theorems system_dest \<open>helpers of the engine that leave the system state alone\<close>

lemma system_heap [system_dest]:
  "on_heap f s = Ok s' \<Longrightarrow> system s' = system s" "on_heap_val g s = Ok (v, s') \<Longrightarrow> system s' = system s"
  by (auto simp: on_heap_def on_heap_val_def with_heap_def with_heap_val_def outcome_simps system_def rights_def Let_def)

lemma system_rc [system_dest]: "release v s = Ok s' \<Longrightarrow> system s' = system s" "retain v s = Ok s' \<Longrightarrow> system s' = system s"
  by (auto simp: release_def retain_def dest: system_heap)

lemma system_stack [system_dest]:
  "pop s = Ok (v, s') \<Longrightarrow> system s' = system s" "popn n s = Ok (vs, s') \<Longrightarrow> system s' = system s"
  "next8 p s = Ok (b, s') \<Longrightarrow> system s' = system s" "next16 p s = Ok (w, s') \<Longrightarrow> system s' = system s"
  "next_i32 p s = Ok (j, s') \<Longrightarrow> system s' = system s" "jump p rel s = Ok s' \<Longrightarrow> system s' = system s"
  "set_local k v s = Ok s' \<Longrightarrow> system s' = system s" "null_locals base m s = Ok s' \<Longrightarrow> system s' = system s"
  "enter_frame fi f base s = Ok s' \<Longrightarrow> system s' = system s"
  by (auto simp: pop_def popn_def next8_def next16_def next_i32_def jump_def set_local_def null_locals_def
      enter_frame_def outcome_simps split: list.splits)

lemma system_ofold:
  assumes "ofold f xs s = Ok s'" "\<And>x s s'. f x s = Ok s' \<Longrightarrow> system s' = system s"
  shows "system s' = system s"
  using ofold_invariant [OF assms(1), of "\<lambda>t. system t = system s"] assms(2) by auto

lemma system_locals [system_dest]: "set_locals base vs s = Ok s' \<Longrightarrow> system s' = system s"
  "release_locals f s = Ok s' \<Longrightarrow> system s' = system s" "ofold release vs s = Ok s' \<Longrightarrow> system s' = system s"
  by (auto simp: set_locals_def release_locals_def outcome_simps elim!: system_ofold dest: system_dest)

lemma system_unwind [system_dest]:
  "unwind_stack n vs s = Ok s' \<Longrightarrow> system s' = system s" "unwind_frames m fs s = Ok s' \<Longrightarrow> system s' = system s"
proof -
  show "unwind_stack n vs s = Ok s' \<Longrightarrow> system s' = system s"
  proof (induction vs arbitrary: s)
    case (Cons v vs)
    then show ?case by (auto simp: outcome_simps split: if_splits dest: system_rc)
  qed auto
  show "unwind_frames m fs s = Ok s' \<Longrightarrow> system s' = system s"
  proof (induction fs arbitrary: s)
    case (Cons f fs)
    then show ?case by (auto simp: outcome_simps split: if_splits dest: system_locals)
  qed auto
qed

lemma system_raise [system_dest]: "raise_exception v s = Ok (b, s') \<Longrightarrow> system s' = system s"
  by (auto simp: raise_exception_def outcome_simps Let_def split: list.splits if_splits dest!: system_dest)

lemma system_top: "top_slot s = Ok (v, f) \<Longrightarrow> system (f w t) = system t"
  by (auto simp: top_slot_def split: list.splits)

lemmas op_flow_defs = op_CONST_def op_POP_def op_LOAD_def op_STORE_def op_GETGLOBAL_def op_SETGLOBAL_def op_BIN_def
  op_COALESCE_def op_JMP_def op_JMPC_def op_CALL_def op_PUSHFN_def op_PRINT_def op_INDEX_def op_SETIDX_def
  op_TRYPUSH_def op_TRYPOP_def op_THROW_def op_ASSERT_def

lemmas op_top_defs = op_NEG_def op_BNOT_def op_NOT_def op_LEN_def op_HAS_def op_KEYS_def op_UNWRAP_def

lemma system_flow:
  "op_CONST p s = Ok s' \<Longrightarrow> system s' = system s" "op_POP s = Ok s' \<Longrightarrow> system s' = system s"
  "op_LOAD p s = Ok s' \<Longrightarrow> system s' = system s" "op_STORE p s = Ok s' \<Longrightarrow> system s' = system s"
  "op_GETGLOBAL p s = Ok s' \<Longrightarrow> system s' = system s" "op_SETGLOBAL p s = Ok s' \<Longrightarrow> system s' = system s"
  "op_BIN x s = Ok s' \<Longrightarrow> system s' = system s" "op_COALESCE s = Ok s' \<Longrightarrow> system s' = system s"
  "op_JMP p s = Ok s' \<Longrightarrow> system s' = system s" "op_JMPC b p s = Ok s' \<Longrightarrow> system s' = system s"
  "op_CALL p s = Ok s' \<Longrightarrow> system s' = system s" "op_PUSHFN p s = Ok s' \<Longrightarrow> system s' = system s"
  "op_PRINT s = Ok s' \<Longrightarrow> system s' = system s" "op_INDEX s = Ok s' \<Longrightarrow> system s' = system s"
  "op_SETIDX s = Ok s' \<Longrightarrow> system s' = system s" "op_TRYPUSH p s = Ok s' \<Longrightarrow> system s' = system s"
  "op_TRYPOP s = Ok s' \<Longrightarrow> system s' = system s" "op_THROW s = Ok s' \<Longrightarrow> system s' = system s"
  "op_ASSERT s = Ok s' \<Longrightarrow> system s' = system s"
  unfolding op_flow_defs Let_def
  by (auto simp: outcome_simps split: if_splits dest!: system_dest)

definition stays :: "vm \<Rightarrow> vm outcome \<Rightarrow> bool" where
  "stays s m \<longleftrightarrow> (\<forall>s'. m = Ok s' \<longrightarrow> system s' = system s)"

named_theorems stays_intros \<open>computations of the engine that leave the system state alone\<close>

lemma stays_done [stays_intros]: "stays s (Fatal e)" "stays s (UB u)" "stays s Diverge" "system s' = system s \<Longrightarrow> stays s (Ok s')"
  by (simp_all add: stays_def)

lemma stays_obind [stays_intros]: "(\<And>x. m = Ok x \<Longrightarrow> stays s (f x)) \<Longrightarrow> stays s (obind m f)"
  by (auto simp: stays_def outcome_simps)

lemma stays_if [stays_intros]: "(b \<Longrightarrow> stays s m) \<Longrightarrow> (\<not> b \<Longrightarrow> stays s m') \<Longrightarrow> stays s (if b then m else m')"
  by simp

lemma stays_case_prod [stays_intros]: "(\<And>a b. p = (a, b) \<Longrightarrow> stays s (f a b)) \<Longrightarrow> stays s (case p of (a, b) \<Rightarrow> f a b)"
  "(\<And>a b. p = (a, b) \<Longrightarrow> stays s (g a b t)) \<Longrightarrow> stays s ((case p of (a, b) \<Rightarrow> g a b) t)"
  by (cases p, simp)+

lemma stays_case_val [stays_intros]:
  "(\<And>i. v = VInt i \<Longrightarrow> stays s (fi i)) \<Longrightarrow> (\<And>x. v = VFloat x \<Longrightarrow> stays s (ff x)) \<Longrightarrow> (\<And>b. v = VBool b \<Longrightarrow> stays s (fb b)) \<Longrightarrow>
   (\<And>a. v = VStr a \<Longrightarrow> stays s (fs a)) \<Longrightarrow> stays s fn \<Longrightarrow> (\<And>a. v = VArr a \<Longrightarrow> stays s (fa a)) \<Longrightarrow>
   (\<And>a. v = VMap a \<Longrightarrow> stays s (fm a)) \<Longrightarrow> (\<And>i c. v = VFunc i c \<Longrightarrow> stays s (fc i c)) \<Longrightarrow>
   stays s (case v of VInt i \<Rightarrow> fi i | VFloat x \<Rightarrow> ff x | VBool b \<Rightarrow> fb b | VStr a \<Rightarrow> fs a | VNull \<Rightarrow> fn
     | VArr a \<Rightarrow> fa a | VMap a \<Rightarrow> fm a | VFunc i c \<Rightarrow> fc i c)"
  by (simp split: val.split)

lemma stays_ofold: "(\<And>x t. stays t (f x t)) \<Longrightarrow> ofold f xs s = Ok s' \<Longrightarrow> system s' = system s"
  by (auto simp: stays_def elim: system_ofold)

lemma stays_tail: "system t = system s \<Longrightarrow> stays s (release v t)" "system t = system s \<Longrightarrow> stays s (set_local i v t)"
  "system t = system s \<Longrightarrow> stays s (enter_frame fi f base t)"
  by (auto simp: stays_def dest!: system_dest)

lemma stays_loops:
  "stays t (on_heap (rc_array_push a v) t)" "stays t (obind (on_heap (rc_array_push a v) t) (release v))"
  "stays t ((\<lambda>(k, v) s. obind (on_heap (rc_map_set m k v) s) (\<lambda>s'. obind (release k s') (release v))) kv t)"
  "stays t ((\<lambda>(i, c) s. obind (retain c s) (set_local (base + i) c)) ic t)"
  by (auto simp: stays_def outcome_simps split: prod.splits dest!: system_dest)

lemmas system_folds = stays_ofold [OF stays_loops(1)] stays_ofold [OF stays_loops(2)] stays_ofold [OF stays_loops(3)]
  stays_ofold [OF stays_loops(4)]

lemma stays_tops:
  "stays s (op_NEG s)" "stays s (op_BNOT s)" "stays s (op_NOT s)" "stays s (op_LEN s)" "stays s (op_HAS s)"
  "stays s (op_KEYS s)" "stays s (op_UNWRAP s)"
  unfolding op_top_defs
  by (intro stays_intros; auto simp: system_top dest!: system_dest)+

lemma stays_multi:
  "stays s (op_CLOSURE p s)" "stays s (op_NEWARR p s)" "stays s (op_NEWMAP p s)" "stays s (op_CALLVALUE p s)"
  "stays s (op_APPEND s)"
  unfolding op_CLOSURE_def op_NEWARR_def op_NEWMAP_def op_CALLVALUE_def op_APPEND_def Let_def
  by (intro stays_intros stays_tail; auto dest!: system_dest system_folds)+

end
