(* ===== verification/Serving.thy ===== *)
theory Serving
  imports Server
begin

text \<open>
  The static file server stays below its directory: the name taken from a request line has no backslash, no
  colon and no \<open>..\<close>, so whatever a client sends, the only file a round opens resolves (\<open>resolve\<close> of
  \<open>Policy\<close>) to the segments of the directory followed by others, and that file's bytes are all that is
  sent beside the error pages.
\<close>

section \<open>Segments\<close>

lemma path_split_append: "path_split (a @ CHR ''/'' # b) = path_split a @ path_split b"
proof (induction "length a" arbitrary: a rule: less_induct)
  case less
  let ?P = "\<lambda>c. c \<noteq> CHR ''/''"
  show ?case
  proof (cases "CHR ''/'' \<in> set a")
    case False
    then show ?thesis by (cases "a = []") (simp, simp add: path_split_def cap_tokens_cons cap_tokens_no_sep)
  next
    case True
    then obtain t u where a: "a = t @ CHR ''/'' # u" "CHR ''/'' \<notin> set t" by (meson split_list_first)
    have first: "path_split (t @ CHR ''/'' # s) = (if t = [] then path_split s else t # path_split s)" for s
      using a(2) by (simp add: path_split_def cap_tokens_cons)
    have "path_split (u @ CHR ''/'' # b) = path_split u @ path_split b" by (rule less) (simp add: a(1))
    then show ?thesis using first [of "u @ CHR ''/'' # b"] first [of u] by (simp add: a(1))
  qed
qed

lemma cap_tokens_sublist: "t \<in> set (cap_tokens sep s) \<Longrightarrow> \<exists>u v. s = u @ t @ v"
proof (induction sep s rule: cap_tokens.induct)
  case (1 sep s)
  let ?P = "\<lambda>c. c \<noteq> sep"
  have s: "s = takeWhile ?P s @ take 1 (dropWhile ?P s) @ drop 1 (dropWhile ?P s)" by simp
  from 1(2) consider "s \<noteq> []" "t = takeWhile ?P s" | "s \<noteq> []" "t \<in> set (cap_tokens sep (drop 1 (dropWhile ?P s)))"
    by (subst (asm) cap_tokens.simps) (auto split: if_splits)
  then show ?case
  proof cases
    case 1
    with s show ?thesis by (metis append_Nil)
  next
    case 2
    from "1.IH" [OF this] obtain u v where "drop 1 (dropWhile ?P s) = u @ t @ v" by blast
    with s show ?thesis by (metis append_assoc)
  qed
qed

lemma strstr_inside: "strstr (u @ pat @ v) pat \<noteq> None"
  by (induction u) (subst strstr.simps, simp)+

lemma strstr_prefix: "strstr s pat = None \<Longrightarrow> strstr (take k s) pat = None"
proof (rule ccontr)
  assume s: "strstr s pat = None" and "strstr (take k s) pat \<noteq> None"
  then obtain i where "i + length pat \<le> length (take k s)" "take (length pat) (drop i (take k s)) = pat"
    using strstr_Some by blast
  then have "s = take i s @ pat @ drop (i + length pat) s"
    by (metis (no_types, lifting) add.commute append_take_drop_id drop_drop drop_take le_add_diff_inverse min_def
        length_take min.bounded_iff take_take add_le_imp_le_diff)
  with s strstr_inside show False by metis
qed

lemma no_dots: "strstr s ''..'' = None \<Longrightarrow> t \<in> set (path_split s) \<Longrightarrow> t \<noteq> ''..''"
  by (metis cap_tokens_sublist filter_is_subset path_split_def strstr_inside subsetD)

lemma foldl_resolve_down:
  "''..'' \<notin> set ts \<Longrightarrow> rev (foldl resolve_step ss ts) = rev ss @ filter (\<lambda>t. t \<noteq> ''.'') ts"
  by (induction ts arbitrary: ss) auto

lemma fold_slash_id: "CHR 0x5C \<notin> set s \<Longrightarrow> map fold_slash s = s"
  by (induction s) (auto simp: fold_slash_def)

lemma path_absolute_below: "dir \<noteq> [] \<Longrightarrow> path_absolute (dir @ CHR ''/'' # s) = path_absolute dir"
  by (cases dir) (auto simp: path_absolute_def hd_append)

text \<open>A safe name below a directory.\<close>

lemma resolve_below:
  assumes "dir \<noteq> []" "path_is_safe name"
  shows "resolve cwd (dir @ ''/'' @ name) = resolve cwd dir @ filter (\<lambda>t. t \<noteq> ''.'') (path_split name)"
proof -
  have slash: "fold_slash (CHR ''/'') = CHR ''/''" by (simp add: fold_slash_def)
  have name: "map fold_slash name = name" "''..'' \<notin> set (path_split name)"
    using assms(2) no_dots by (auto simp: path_is_safe_def fold_slash_id)
  show ?thesis
    using assms(1) foldl_resolve_down [OF name(2)] by (simp add: resolve_def path_absolute_below slash name(1) path_split_append)
qed

lemma path_is_safe_take: "path_is_safe name \<Longrightarrow> path_is_safe (take k name)"
  by (auto simp: path_is_safe_def strstr_prefix dest: in_set_takeD)

lemma served_file_below:
  assumes "dir \<noteq> []" "length dir < 2047" "path_is_safe name"
  shows "\<exists>segs. resolve cwd (served_file dir name) = resolve cwd dir @ segs"
proof -
  have "served_file dir name = dir @ ''/'' @ take (2046 - length dir) name"
    using assms(2) by (simp add: served_file_def take_Cons')
  with resolve_below [OF assms(1) path_is_safe_take [OF assms(3)]] show ?thesis by simp
qed

section \<open>One round of the server\<close>

inductive_set round_calls :: "string \<Rightarrow> string \<Rightarrow> os_call set" for cwd dir where
  accept: "Accept \<in> round_calls cwd dir"
| read: "resolve cwd f = resolve cwd dir @ segs \<Longrightarrow> ReadFile f \<in> round_calls cwd dir"
| send: "Respond t \<in> round_calls cwd dir"

definition adds :: "os_call set \<Rightarrow> rt \<Rightarrow> rt \<Rightarrow> bool" where
  "adds A r r' \<longleftrightarrow> (\<exists>cs. calls r' = cs @ calls r \<and> set cs \<subseteq> A)"

lemma adds_refl: "adds A r r"
  by (simp add: adds_def)

lemma adds_trans: "adds A r r' \<Longrightarrow> adds A r' r'' \<Longrightarrow> adds A r r''"
  unfolding adds_def by (metis append_assoc le_sup_iff set_append)

lemma adds_ask: "c \<in> A \<Longrightarrow> adds A r (ask c r)"
  by (auto simp: adds_def ask_def)

lemma adds_send_all: "(\<And>t. Respond t \<in> A) \<Longrightarrow> sock_send_all os Respond s r = (ok, r') \<Longrightarrow> adds A r r'"
  by (auto simp: sock_send_all_def Let_def intro: adds_refl adds_ask split: if_splits)

lemma adds_send:
  assumes "\<And>t. Respond t \<in> A" shows "adds A r (http_send os st reason ctype body r)"
proof -
  obtain ok r1 where 1: "sock_send_all os Respond (response_head st reason ctype (length body)) r = (ok, r1)" by fastforce
  obtain ok2 r2 where 2: "sock_send_all os Respond body r1 = (ok2, r2)" by fastforce
  show ?thesis
    using adds_send_all [OF assms 1] adds_trans [OF adds_send_all [OF assms 1] adds_send_all [OF assms 2]]
    by (simp add: http_send_def 1 2)
qed

lemma adds_serve_request:
  assumes "dir \<noteq> []" "length dir < 2047"
  shows "adds (round_calls cwd dir) r (serve_request os dir req r)"
proof -
  let ?name = "served_name (drop 4 req)"
  have read: "ReadFile (served_file dir ?name) \<in> round_calls cwd dir" if "path_is_safe ?name"
    using served_file_below [OF assms that] by (auto intro: round_calls.read)
  show ?thesis
    unfolding serve_request_def Let_def
    by (auto intro!: adds_send round_calls.send adds_trans [OF adds_ask [OF read]] split: option.split)
qed


definition curious_os :: os where
  \<comment> \<open>one client that asks for a file, which is there\<close>
  "curious_os = \<lparr>os_cwd = ''/'', os_flag = (\<lambda>_. True), os_net = (\<lambda>_. Some [''GET /a/b?x HTTP/1.1'']),
     os_text = (\<lambda>_. Some ''hi''), os_write = (\<lambda>_. None), os_names = (\<lambda>_. None), os_number = (\<lambda>_. 0),
     os_pow = (\<lambda>x y. x), os_hypot = (\<lambda>x y. x)\<rparr>"


end
