(* ===== verification/JsonTrees.thy ===== *)
theory JsonTrees
  imports Natives Growth
begin

text \<open>
  JSON as trees, and the round trip through \<open>json_encode()\<close> and \<open>json_decode()\<close>. \<open>stands h A v j\<close>: in the
  heap \<open>h\<close> the value \<open>v\<close> stands for the tree \<open>j\<close> and has no object at an address of \<open>A\<close>. The encoder
  writes the text \<open>json_text j\<close> of the tree; the parser, given that text, builds a value that stands
  for the same tree, out of new objects only. Floats have no tree: fourteen digits do not determine a double.
\<close>

section \<open>Trees\<close>

datatype json = JNull | JBool bool | JInt i64 | JStr string | JArr "json list" | JObj "(string \<times> json) list"

primrec json_text :: "json \<Rightarrow> string" where
  "json_text JNull = ''null''"
| "json_text (JBool b) = (if b then ''true'' else ''false'')"
| "json_text (JInt i) = show_int (sint i)"
| "json_text (JStr s) = escape_json_string s"
| "json_text (JArr js) = ''['' @ join_with '','' (map json_text js) @ '']''"
| "json_text (JObj ps) =
     ''{'' @ join_with '','' (map (\<lambda>(k, t). escape_json_string k @ '':'' @ t) (map (map_prod id json_text) ps)) @ ''}''"

primrec json_plain :: "json \<Rightarrow> bool" where
  \<comment> \<open>no string contains a NUL, and the keys of an object are in strict order\<close>
  "json_plain JNull = True"
| "json_plain (JBool b) = True"
| "json_plain (JInt i) = True"
| "json_plain (JStr s) = (nul \<notin> set s)"
| "json_plain (JArr js) = list_all (\<lambda>b. b) (map json_plain js)"
| "json_plain (JObj ps) =
     (sorted_wrt (<) (map fst ps) \<and> list_all (\<lambda>(k, b). nul \<notin> set k \<and> b) (map (map_prod id json_plain) ps))"

lemma json_plain_obj:
  "json_plain (JObj ps) \<longleftrightarrow> sorted_wrt (<) (map fst ps) \<and> (\<forall>p \<in> set ps. nul \<notin> set (fst p) \<and> json_plain (snd p))"
  by (simp add: list_all_iff case_prod_beta)

inductive stands :: "heap \<Rightarrow> addr set \<Rightarrow> val \<Rightarrow> json \<Rightarrow> bool" for h A where
  null: "stands h A VNull JNull"
| bool: "stands h A (VBool b) (JBool b)"
| int: "stands h A (VInt i) (JInt i)"
| str: "deref_str h a = Ok s \<Longrightarrow> a \<notin> A \<Longrightarrow> stands h A (VStr a) (JStr (c_str s))"
| arr: "deref_arr h a = Ok (xs, cap) \<Longrightarrow> a \<notin> A \<Longrightarrow> list_all2 (stands h A) xs js \<Longrightarrow> stands h A (VArr a) (JArr js)"
| obj: "str_map h a m \<Longrightarrow> a \<notin> A \<Longrightarrow> map fst ps = sorted_list_of_set (dom m) \<Longrightarrow>
    list_all2 (stands h A) (map (\<lambda>k. the (m k)) (map fst ps)) (map snd ps) \<Longrightarrow> stands h A (VMap a) (JObj ps)"

inductive_simps stands_simps [simp]:
  "stands h A VNull j" "stands h A (VBool b) j" "stands h A (VInt i) j" "stands h A (VStr a) j"
inductive_cases stands_arrE: "stands h A (VArr a) j"
inductive_cases stands_objE: "stands h A (VMap a) j"

lemma stands_mono: "stands h A v j \<Longrightarrow> B \<subseteq> A \<Longrightarrow> stands h B v j"
proof (induction rule: stands.induct)
  case (arr a xs cap js)
  then show ?case by (intro stands.arr) (auto elim: list_all2_mono)
next
  case (obj a m ps)
  then show ?case by (intro stands.obj) (auto elim: list_all2_mono)
qed (auto intro: stands.intros)

lemma str_map_unique: "str_map h a m \<Longrightarrow> str_map h a m' \<Longrightarrow> m = m'"
  by (auto elim!: str_mapE)

lemma str_map_dom: "str_map h a m \<Longrightarrow> finite (dom m)"
  by (erule str_mapE) (use finite_dom_map_of str_table_pairs(2) in metis)

lemma stands_unique: "stands h A v j \<Longrightarrow> stands h B v j' \<Longrightarrow> j = j'"
proof (induction arbitrary: j' rule: stands.induct)
  case (arr a xs cap js)
  from arr.prems obtain js' where j': "j' = JArr js'" "list_all2 (stands h B) xs js'"
    using arr.hyps(1) by (auto elim: stands_arrE)
  have "js = js'"
    using arr.IH j'(2) by (auto simp: list_all2_conv_all_nth intro!: nth_equalityI)
  with j'(1) show ?case by simp
next
  case (obj a m ps)
  from obj.prems obtain ps' where j': "j' = JObj ps'" "map fst ps' = sorted_list_of_set (dom m)"
      "list_all2 (stands h B) (map (\<lambda>k. the (m k)) (map fst ps')) (map snd ps')"
    using str_map_unique [OF obj.hyps(1)] by (auto elim!: stands_objE)
  have keys: "map fst ps = map fst ps'" using obj.hyps(3) j'(2) by simp
  then have "map snd ps = map snd ps'"
    using obj.IH j'(3) unfolding keys by (auto simp: list_all2_conv_all_nth intro!: nth_equalityI)
  with keys have "ps = ps'" by (metis zip_map_fst_snd)
  with j'(1) show ?case by simp
qed auto

section \<open>The encoder\<close>

definition below :: "heap \<Rightarrow> addr set \<Rightarrow> nat \<Rightarrow> addr set" where
  \<comment> \<open>the objects that stand for trees of at most that size\<close>
  "below h A k = {a. a < length h \<and> (\<exists>v j. val_addr v = Some a \<and> stands h A v j \<and> size j \<le> k)}"

lemma card_below: "card (below h A k) \<le> length h"
  using card_mono [of "{..<length h}" "below h A k"] by (auto simp: below_def)

lemma below_less:
  assumes "stands h A v j" "val_addr v = Some a" "a < length h" "k < size j"
    and kind: "\<And>w i. val_addr w = Some a \<Longrightarrow> stands h A w i \<Longrightarrow> w = v"
  shows "card (below h A k) < card (below h A (size j))"
proof (rule psubset_card_mono)
  show "finite (below h A (size j))" by (simp add: below_def)
  have "below h A k \<subseteq> below h A (size j)"
    using assms(4) unfolding below_def by (blast intro: order_trans less_imp_le)
  moreover have "a \<in> below h A (size j)" using assms(1-3) by (auto simp: below_def)
  moreover have "a \<notin> below h A k"
  proof
    assume "a \<in> below h A k"
    then obtain w i where w: "val_addr w = Some a" "stands h A w i" "size i \<le> k" by (auto simp: below_def)
    with kind have "w = v" by blast
    with w(2,3) stands_unique [OF assms(1)] assms(4) show False by fastforce
  qed
  ultimately show "below h A k \<subset> below h A (size j)" by blast
qed

lemma stands_val_addr: "stands h A w i \<Longrightarrow> val_addr w = Some a \<Longrightarrow>
    (\<exists>s. w = VStr a \<and> deref_str h a = Ok s) \<or> (\<exists>x. w = VArr a \<and> deref_arr h a = Ok x) \<or> (\<exists>x. w = VMap a \<and> deref_map h a = Ok x)"
  by (cases rule: stands.cases) (auto elim!: str_mapE)

lemma list_all2_mono_in:
  "list_all2 P xs ys \<Longrightarrow> (\<And>x y. x \<in> set xs \<Longrightarrow> P x y \<Longrightarrow> Q x y) \<Longrightarrow> list_all2 Q xs ys"
  by (auto simp: list_all2_conv_all_nth)

lemma omap_list_all2: "list_all2 (\<lambda>x y. f x = Ok (g y)) xs ys \<Longrightarrow> omap f xs = Ok (map g ys)"
  by (induction rule: list_all2_induct) auto

lemma str_map_pairs:
  assumes "str_map h a m"
  obtains bs n ps where "deref_map h a = Ok (bs, n)" "n = 0 \<longleftrightarrow> m = Map.empty"
    "omap (\<lambda>(k, x). obind (value_to_string h k) (\<lambda>s. Ok (s, x))) (concat bs) = Ok ps"
    "sort_pairs ps = map (\<lambda>k. (k, the (m k))) (sorted_list_of_set (dom m))"
proof -
  from assms obtain bs n where m: "deref_map h a = Ok (bs, n)" "str_keys.tbl_inv h bs"
      "str_keys.tbl_abs h bs = m" "n = length (concat bs)"
    by (rule str_mapE)
  let ?ps = "map (\<lambda>(k, x). (str_of h k, x)) (concat bs)"
  have "value_to_string h x = Ok (str_of h x)" if "x \<in> str_vals h" for x
    using str_vals_live [OF that] value_to_string_VStr by (auto simp: c_str_id)
  then have "omap (\<lambda>(k, x). obind (value_to_string h k) (\<lambda>s. Ok (s, x))) (concat bs) = Ok ?ps"
    by (rule str_table_pairs(3) [OF m(2)])
  moreover have "sort_pairs ?ps = map (\<lambda>k. (k, the (m k))) (sorted_list_of_set (dom m))"
    using sort_pairs_graph [OF str_table_pairs(1) [OF m(2)]] by (simp only: str_table_pairs(2) [OF m(2)] m(3))
  moreover have "n = card (dom m)" using str_keys.tbl_card [OF m(2)] by (simp only: m(3,4))
  then have "n = 0 \<longleftrightarrow> m = Map.empty" using str_map_dom [OF assms] by (metis card_0_eq dom_eq_empty_conv)
  ultimately show ?thesis using m(1) that by blast
qed

lemma to_json_arr:
  assumes "deref_arr h a = Ok (xs, cap)" "list_all2 (\<lambda>x j. to_json_fuel n h x = Ok (json_text j)) xs js"
  shows "to_json_fuel (Suc n) h (VArr a) = Ok (json_text (JArr js))"
  using omap_list_all2 [OF assms(2)] by (simp add: assms(1))

lemma to_json_obj:
  assumes "str_map h a m" "map fst ps = sorted_list_of_set (dom m)"
    "list_all2 (\<lambda>x j. to_json_fuel n h x = Ok (json_text j)) (map (\<lambda>k. the (m k)) (map fst ps)) (map snd ps)"
  shows "to_json_fuel (Suc n) h (VMap a) = Ok (json_text (JObj ps))"
proof -
  from assms(1) obtain bs sz qs where m: "deref_map h a = Ok (bs, sz)" "sz = 0 \<longleftrightarrow> m = Map.empty"
      "omap (\<lambda>(k, x). obind (value_to_string h k) (\<lambda>s. Ok (s, x))) (concat bs) = Ok qs"
      "sort_pairs qs = map (\<lambda>k. (k, the (m k))) (sorted_list_of_set (dom m))"
    by (rule str_map_pairs)
  let ?f = "\<lambda>(s, x). obind (to_json_fuel n h x) (\<lambda>t. Ok (escape_json_string s @ '':'' @ t))"
  have "list_all2 (\<lambda>q p. ?f q = Ok ((\<lambda>(k, j). escape_json_string k @ '':'' @ json_text j) p)) (sort_pairs qs) ps"
    using assms(3) by (simp add: m(4) assms(2) [symmetric] list_all2_conv_all_nth case_prod_beta)
  from omap_list_all2 [OF this]
  have body: "omap ?f (sort_pairs qs) = Ok (map (\<lambda>(k, j). escape_json_string k @ '':'' @ json_text j) ps)" .
  have lines: "map (\<lambda>(k, t). escape_json_string k @ '':'' @ t) (map (map_prod id json_text) ps) =
      map (\<lambda>(k, j). escape_json_string k @ '':'' @ json_text j) ps"
    by (simp add: case_prod_beta)
  show ?thesis
  proof (cases "m = Map.empty")
    case True
    with assms(2) have "ps = []" by simp
    with True m(1,2) show ?thesis by simp
  next
    case False
    with m(1,2) body show ?thesis by (simp only: to_json_fuel.simps val.case obind.simps prod.case m(3) if_False json_text.simps lines)
  qed
qed

lemma to_json_stands: "stands h A v j \<Longrightarrow> card (below h A (size j)) < n \<Longrightarrow> to_json_fuel n h v = Ok (json_text j)"
proof (induction arbitrary: n rule: stands.induct)
  case (arr a xs cap js)
  from arr.prems obtain k where n: "n = Suc k" by (cases n) auto
  have "list_all2 (stands h A) xs js" using arr.IH by (rule list_all2_mono) simp
  with arr.hyps have st: "stands h A (VArr a) (JArr js)" by (intro stands.arr)
  have kind: "w = VArr a" if "val_addr w = Some a" "stands h A w i" for w i
    using stands_val_addr [OF that(2,1)] arr.hyps(1) by (auto simp: deref_str_Ok_iff deref_map_Ok_iff deref_arr_Ok_iff)
  have "to_json_fuel k h x = Ok (json_text i)" if "(x, i) \<in> set (zip xs js)" for x i
  proof -
    have "i \<in> set js" using that by (rule set_zip_rightD)
    then have "size i < size (JArr js)" by (induction js) auto
    moreover have "a < length h" using arr.hyps(1) by (auto simp: deref_arr_Ok_iff dest: hget_Some_less)
    ultimately have "card (below h A (size i)) < card (below h A (size (JArr js)))"
      by (intro below_less [OF st _ _ _ kind]) simp_all
    with arr.prems n have "card (below h A (size i)) < k" by linarith
    with arr.IH that show ?thesis by (auto simp: list_all2_iff)
  qed
  then have "list_all2 (\<lambda>x i. to_json_fuel k h x = Ok (json_text i)) xs js"
    using list_all2_lengthD [OF arr.IH] by (auto simp: list_all2_iff)
  from to_json_arr [OF arr.hyps(1) this] show ?case by (simp only: n)
next
  case (obj a m ps)
  from obj.prems obtain k where n: "n = Suc k" by (cases n) auto
  have "list_all2 (stands h A) (map (\<lambda>k. the (m k)) (map fst ps)) (map snd ps)"
    using obj.IH by (rule list_all2_mono) simp
  with obj.hyps have st: "stands h A (VMap a) (JObj ps)" by (intro stands.obj)
  from obj.hyps(1) obtain t where t: "deref_map h a = Ok t" by (auto elim!: str_mapE)
  have kind: "w = VMap a" if "val_addr w = Some a" "stands h A w i" for w i
    using stands_val_addr [OF that(2,1)] t by (cases t) (auto simp: deref_str_Ok_iff deref_map_Ok_iff deref_arr_Ok_iff)
  have "to_json_fuel k h x = Ok (json_text i)"
    if mem: "(x, i) \<in> set (zip (map (\<lambda>k. the (m k)) (map fst ps)) (map snd ps))" for x i
  proof -
    have "i \<in> set (map snd ps)" using mem by (rule set_zip_rightD)
    then have "size i < size (JObj ps)" by (induction ps) fastforce+
    moreover have "a < length h" using t by (cases t) (auto simp: deref_map_Ok_iff dest: hget_Some_less)
    ultimately have "card (below h A (size i)) < card (below h A (size (JObj ps)))"
      by (intro below_less [OF st _ _ _ kind]) simp_all
    with obj.prems n have "card (below h A (size i)) < k" by linarith
    with obj.IH mem show ?thesis by (auto simp: list_all2_iff)
  qed
  then have "list_all2 (\<lambda>x i. to_json_fuel k h x = Ok (json_text i)) (map (\<lambda>k. the (m k)) (map fst ps)) (map snd ps)"
    by (auto simp: list_all2_iff)
  from to_json_obj [OF obj.hyps(1,3) this] show ?case by (simp only: n)
qed (auto dest!: less_imp_Suc_add)

lemma value_to_json_stands: "stands h A v j \<Longrightarrow> value_to_json h v = Ok (json_text j)"
  unfolding value_to_json_def by (rule to_json_stands) (auto intro: le_imp_less_Suc card_below)

section \<open>Trees in a later heap\<close>

lemma val_ok_elem:
  assumes "rc_sound R h" "deref_arr h a = Ok (xs, cap)" "x \<in> set xs"
  shows "val_ok h x"
  using rc_inv_val_ok [OF assms(1) [unfolded rc_sound_def]] array_elem_held [OF assms(2,3)] by blast

lemma val_ok_entry:
  assumes "rc_sound R h" "str_map h a m" "m k = Some x"
  shows "val_ok h x"
proof -
  from assms(2) obtain bs n where m: "deref_map h a = Ok (bs, n)" "str_keys.tbl_inv h bs" "str_keys.tbl_abs h bs = m"
    by (rule str_mapE)
  have "map_of (map (\<lambda>(k, x). (str_of h k, x)) (concat bs)) k = Some x"
    using str_table_pairs(2) [OF m(2)] assms(3) by (simp only: m(3))
  then have x: "x \<in> snd ` set (concat bs)" by (force dest: map_of_SomeD simp del: set_concat)
  have "snd kv \<in> set (concat (map (\<lambda>(k, v). [k, v]) xs))" if "kv \<in> set xs" for kv :: "val \<times> val" and xs
    using that by (induction xs) auto
  then have "x \<in> set (children (BMap bs n))" using x by (auto simp only: children.simps image_iff)
  moreover obtain c where "hget h a = Some c" "cbody c = BMap bs n" using m(1) by (auto simp: deref_map_Ok_iff)
  ultimately show ?thesis using heap_okD [OF rc_sound_heap_ok [OF assms(1)]] by metis
qed

lemma stands_hext:
  assumes ext: "hext A h' h" and A: "A \<subseteq> B" "\<forall>x \<in> A. \<forall>s. deref_str h x \<noteq> Ok s" and inv: "rc_sound R h'"
  shows "stands h B v j \<Longrightarrow> val_ok h' v \<Longrightarrow> stands h' B v j"
proof (induction rule: stands.induct)
  case (str a s)
  then obtain c where c: "hget h a = Some c" "cbody c = BStr s" by (auto simp: deref_str_Ok_iff)
  with hext_held [OF ext c(1) _ str(3)] str(2) A(1) have "deref_str h' a = Ok s" by (auto simp: deref_str_Ok_iff)
  with str(2) show ?case by auto
next
  case (arr a xs cap js)
  then obtain c where c: "hget h a = Some c" "cbody c = BArr xs cap" by (auto simp: deref_arr_Ok_iff)
  with hext_held [OF ext c(1) _ arr.prems] arr.hyps(2) A(1) have a: "deref_arr h' a = Ok (xs, cap)"
    by (auto simp: deref_arr_Ok_iff)
  have "list_all2 (stands h' B) xs js"
    using arr.IH by (rule list_all2_mono_in) (use val_ok_elem [OF inv a] in auto)
  with a arr.hyps(2) show ?case by (intro stands.arr)
next
  case (obj a m ps)
  have m: "str_map h' a m"
    using A(1) obj.hyps(2) by (intro hext_str_map [OF ext obj.hyps(1) _ A(2) inv obj.prems]) auto
  have "val_ok h' (the (m k))" if "k \<in> set (map fst ps)" for k
    using that obj.hyps(3) str_map_dom [OF m] by (auto intro!: val_ok_entry [OF inv m])
  then have "list_all2 (stands h' B) (map (\<lambda>k. the (m k)) (map fst ps)) (map snd ps)"
    by (intro list_all2_mono_in [OF obj.IH]) auto
  with m obj.hyps(2,3) show ?case by (intro stands.obj)
qed auto

section \<open>The parser\<close>

lemma json_string_escape: "json_string acc (concat (map json_escape_char s) @ CHR 0x22 # rest) = Ok (rev acc @ s, rest)"
  by (induction s arbitrary: acc) (auto simp: json_escape_char_def json_unescape_def)

lemma parse_escape:
  "parse_json_string (escape_json_string s @ rest) h = (let (v, h') = val_str s h in Ok (v, rest, h'))"
  using json_string_escape [of "[]" s rest] by (simp add: parse_json_string_def escape_json_string_def)

definition text_start :: "char \<Rightarrow> bool" where
  "text_start c \<longleftrightarrow> isdigit c \<or> c = CHR 0x22 \<or> c \<in> set ''-[{tfn''"

lemma text_start_other: "text_start c \<Longrightarrow> \<not> isspace c \<and> c \<noteq> CHR '']'' \<and> c \<noteq> CHR ''}''"
  by (auto simp: text_start_def isdigit_def isspace_def code_def)

lemma skip_ws_nonspace [simp]: "\<not> isspace c \<Longrightarrow> skip_ws (c # cs) = c # cs"
  by (simp add: skip_ws_def)

lemma starts_char [simp]: "starts [c] (d # ds) \<longleftrightarrow> c = d" "starts [c] [] \<longleftrightarrow> False"
  by (auto simp: starts_def)

lemma show_int_shape:
  "\<exists>c cs. show_int i = c # cs \<and> (isdigit c \<or> c = CHR ''-'') \<and> list_all isdigit cs"
proof (cases "i < 0")
  case True
  with show_pos_digits [of "- i"] show ?thesis by (simp add: show_int_def)
next
  case False
  with show_pos_digits [of i] show ?thesis by (cases "show_pos i") (auto simp: show_int_def)
qed

lemma json_text_start: "\<exists>c cs. json_text j = c # cs \<and> text_start c"
proof (cases j)
  case (JInt i)
  with show_int_shape [of "sint i"] show ?thesis by (auto simp: text_start_def)
qed (auto simp: text_start_def escape_json_string_def)

lemma skip_ws_text [simp]: "skip_ws (json_text j @ rest) = json_text j @ rest"
  using json_text_start [of j] text_start_other by auto

definition ends :: "string \<Rightarrow> bool" where
  "ends rest \<longleftrightarrow> (rest = [] \<or> hd rest \<in> set '',]}'')"

definition parses :: "json \<Rightarrow> bool" where
  \<comment> \<open>the parser reads the text of \<open>j\<close>, whatever follows it, into new objects that stand for \<open>j\<close>\<close>
  "parses j \<longleftrightarrow> (\<forall>n rest R h. length (json_text j) \<le> n \<longrightarrow> ends rest \<longrightarrow> rc_sound R h \<longrightarrow>
     (\<exists>v h'. json_value n (json_text j @ rest) h = Ok (v, rest, h') \<and> rc_sound (v # R) h' \<and> hext {} h' h \<and>
        stands h' {..<length h} v j))"

lemma parsesD:
  assumes "parses j" "length (json_text j) \<le> n" "ends rest" "rc_sound R h"
  obtains v h' where "json_value n (json_text j @ rest) h = Ok (v, rest, h')" "rc_sound (v # R) h'"
    "hext {} h' h" "stands h' {..<length h} v j"
  using assms unfolding parses_def by blast

lemma parses_simple:
  assumes "val_addr v = None" "\<And>h. stands h {..<length h} v j"
    "\<And>n rest h. ends rest \<Longrightarrow> json_value (Suc n) (json_text j @ rest) h = Ok (v, rest, h)"
  shows "parses j"
  unfolding parses_def
proof (intro allI impI)
  fix n :: nat and rest R h assume n: "length (json_text j) \<le> n" "ends rest" "rc_sound R h"
  then obtain m where "n = Suc m" using json_text_start [of j] by (cases n) auto
  with n assms show "\<exists>v h'. json_value n (json_text j @ rest) h = Ok (v, rest, h') \<and> rc_sound (v # R) h' \<and>
      hext {} h' h \<and> stands h' {..<length h} v j"
    by (auto simp: rc_sound_def rc_inv_Cons_None)
qed

lemma parses_null: "parses JNull"
  by (rule parses_simple [of VNull])
     (simp_all add: json_value.simps skip_ws_def starts_def isspace_def code_def)

lemma parses_bool: "parses (JBool b)"
  by (rule parses_simple [of "VBool b"])
     (cases b; simp add: json_value.simps skip_ws_def starts_def isspace_def code_def)+

lemma number_front:
  assumes "list_all number_char ds" "ends rest"
  shows "takeWhile number_char (ds @ rest) = ds" "dropWhile number_char (ds @ rest) = rest"
proof -
  have "\<not> number_char c" if "c \<in> set '',]}''" for c using that by (auto simp: number_char_def isdigit_def code_def)
  with assms(2) have "rest = [] \<or> \<not> number_char (hd rest)" by (auto simp: ends_def)
  then show "takeWhile number_char (ds @ rest) = ds" "dropWhile number_char (ds @ rest) = rest"
    using assms(1) by (induction ds; cases rest; auto)+
qed

lemma parse_number_show:
  assumes "ends rest"
  shows "parse_json_number (show_int (sint i) @ rest) = (VInt i, rest)"
proof -
  obtain c cs where c: "show_int (sint i) = c # cs" "isdigit c \<or> c = CHR ''-''" "list_all isdigit cs"
    using show_int_shape by blast
  then have "list_all number_char (show_int (sint i))" by (auto simp: number_char_def list_all_iff)
  note front = number_front [OF this assms]
  have "\<not> (d \<in> {CHR ''.'', CHR ''e'', CHR ''E''})" if "isdigit d \<or> d = CHR ''-''" for d
    using that by (auto simp: isdigit_def code_def)
  then have int: "\<not> list_ex (\<lambda>c. c \<in> {CHR ''.'', CHR ''e'', CHR ''E''}) (show_int (sint i))"
    using c by (simp add: list_ex_iff list_all_iff)
  have "rest = [] \<or> \<not> isdigit (hd rest)" using assms by (auto simp: ends_def isdigit_def code_def)
  moreover have "in_i64 (sint i)" by simp
  ultimately have "strtoll (show_int (sint i) @ rest) = (sint i, rest, False)" by (intro strtoll_show)
  with front int show ?thesis by (simp add: parse_json_number_def Let_def)
qed

lemma parses_int: "parses (JInt i)"
proof (rule parses_simple [of "VInt i"])
  fix n rest h assume "ends rest"
  note num = parse_number_show [OF this, of i]
  obtain c cs where c: "show_int (sint i) = c # cs" "isdigit c \<or> c = CHR ''-''" using show_int_shape by blast
  have "\<not> isspace c" "c \<noteq> CHR 0x22" "c \<notin> set ''[{tfn''"
    using c(2) by (auto simp: isdigit_def isspace_def code_def)
  with num c(1) show "json_value (Suc n) (json_text (JInt i) @ rest) h = Ok (VInt i, rest, h)"
    by (simp add: json_value.simps starts_def)
qed simp_all

lemma parses_str: "nul \<notin> set s \<Longrightarrow> parses (JStr s)"
  unfolding parses_def
proof (intro allI impI)
  fix n :: nat and rest R h
  assume s: "nul \<notin> set s" and n: "length (json_text (JStr s)) \<le> n" and inv: "rc_sound R h"
  obtain v h' where v: "val_str s h = (v, h')" by fastforce
  note new = new_string [OF inv v]
  from n obtain m where m: "n = Suc m" by (cases n) (auto simp: escape_json_string_def)
  have q: "skip_ws (escape_json_string s @ rest) = escape_json_string s @ rest" "starts [CHR 0x22] (escape_json_string s @ rest)"
    by (simp_all add: escape_json_string_def isspace_def code_def)
  have "json_value n (json_text (JStr s) @ rest) h = Ok (v, rest, h')"
    by (simp add: m json_value.simps q Let_def parse_escape v)
  moreover have "stands h' {..<length h} v (JStr s)"
    using stands.str [OF new(4), of "{..<length h}"] s by (simp add: new(3) c_str_id)
  ultimately show "\<exists>v h'. json_value n (json_text (JStr s) @ rest) h = Ok (v, rest, h') \<and> rc_sound (v # R) h' \<and>
      hext {} h' h \<and> stands h' {..<length h} v (JStr s)"
    using new(1,2) by blast
qed

text \<open>The elements of an array, one after the other; \<open>a\<close> is older than all of them.\<close>

lemma push_elem:
  assumes inv: "rc_sound (v # R) h1" and a: "VArr a \<in> set R" "deref_arr h1 a = Ok (xs, cap)" "0 < cap" "length xs \<le> cap"
    and st: "list_all2 (stands h1 {..a}) (xs @ [v]) js"
  obtains h2 h3 cap' where "rc_array_push a v h1 = Ok h2" "release_value v h2 = Ok h3" "rc_sound R h3" "hext {a} h3 h1"
    "deref_arr h3 a = Ok (xs @ [v], cap')" "0 < cap'" "length (xs @ [v]) \<le> cap'" "list_all2 (stands h3 {..a}) (xs @ [v]) js"
proof -
  let ?b = "BArr (xs @ [v]) (push_cap (length xs) cap)"
  obtain h2 where h2: "rc_array_push a v h1 = Ok h2" "rc_sound (v # R) h2"
      "deref_arr h2 a = Ok (xs @ [v], push_cap (length xs) cap)" "hsub h2 (setb h1 a ?b)"
    by (rule rc_array_push_sound [OF inv _ _ a(2-4), of v]) (use a(1) in auto)
  obtain h3 where h3: "release_value v h2 = Ok h3" "rc_sound R h3" "hsub h3 h2" by (rule release_sound [OF h2(2)])
  have ext: "hext {a} h3 h1" using hext_trans [OF hext_hsub [OF h3(3)] hext_setb [OF h2(4)]] .
  have arr: "deref_arr h3 a = Ok (xs @ [v], push_cap (length xs) cap)"
    by (rule hext_arr [OF hext_hsub [OF h3(3), of "{}"] h2(3) _ h3(2) a(1)]) simp
  have "\<forall>x \<in> {a}. \<forall>s. deref_str h1 x \<noteq> Ok s" using a(2) by (auto simp: deref_arr_Ok_iff deref_str_Ok_iff)
  then have "list_all2 (stands h3 {..a}) (xs @ [v]) js"
    by (intro list_all2_mono_in [OF st] stands_hext [OF ext _ _ h3(2)] val_ok_elem [OF h3(2) arr]) auto
  moreover have "0 < push_cap (length xs) cap" "length (xs @ [v]) \<le> push_cap (length xs) cap"
    using a(3,4) by (auto simp: push_cap_def)
  ultimately show ?thesis using that h2(1) h3(1,2) ext arr by blast
qed

lemma parse_elems:
  assumes "\<forall>j \<in> set js. parses j" "js \<noteq> []" "length (join_with '','' (map json_text js)) < n" "VArr a \<in> set R"
  shows "rc_sound R h \<Longrightarrow> deref_arr h a = Ok (xs, cap) \<Longrightarrow> 0 < cap \<Longrightarrow> length xs \<le> cap \<Longrightarrow>
    list_all2 (stands h {..a}) xs js0 \<Longrightarrow>
    \<exists>h' xs' cap'. json_elems n a (join_with '','' (map json_text js) @ '']'' @ rest) h = Ok (rest, h') \<and>
      rc_sound R h' \<and> hext {a} h' h \<and> deref_arr h' a = Ok (xs', cap') \<and> list_all2 (stands h' {..a}) xs' (js0 @ js)"
  using assms
proof (induction js arbitrary: n h xs cap js0)
  case (Cons j js)
  let ?t = "if js = [] then '']'' @ rest else '','' @ join_with '','' (map json_text js) @ '']'' @ rest"
  from Cons.prems(8) obtain k where n: "n = Suc k" by (cases n) auto
  have len: "length (json_text j) \<le> k" using Cons.prems(8) by (simp add: n split: if_splits)
  have fin: "ends ?t" by (simp add: ends_def)
  have "parses j" using Cons.prems(6) by simp
  then obtain v h1 where v: "json_value k (json_text j @ ?t) h = Ok (v, ?t, h1)" "rc_sound (v # R) h1"
      "hext {} h1 h" "stands h1 {..<length h} v j"
    by (rule parsesD [OF _ len fin Cons.prems(1)])
  have a: "a < length h" using Cons.prems(2) by (auto simp: deref_arr_Ok_iff dest: hget_Some_less)
  have arr: "deref_arr h1 a = Ok (xs, cap)"
    by (rule hext_arr [OF v(3) Cons.prems(2) _ v(2)]) (use Cons.prems(9) in auto)
  have "list_all2 (stands h1 {..a}) xs js0"
    by (intro list_all2_mono_in [OF Cons.prems(5)] stands_hext [OF v(3) _ _ v(2)] val_ok_elem [OF v(2) arr]) auto
  moreover have "stands h1 {..a} v j" using a by (intro stands_mono [OF v(4)]) auto
  ultimately have "list_all2 (stands h1 {..a}) (xs @ [v]) (js0 @ [j])" by (simp add: list_all2_appendI)
  from push_elem [OF v(2) Cons.prems(9) arr Cons.prems(3,4) this] obtain h2 h3 cap' where
      h3: "rc_array_push a v h1 = Ok h2" "release_value v h2 = Ok h3" "rc_sound R h3" "hext {a} h3 h1"
        "deref_arr h3 a = Ok (xs @ [v], cap')" "0 < cap'" "length (xs @ [v]) \<le> cap'"
        "list_all2 (stands h3 {..a}) (xs @ [v]) (js0 @ [j])" .
  have ext: "hext {a} h3 h" using hext_trans [OF h3(4) hext_mono [OF v(3)]] by simp
  have nonspace: "\<not> isspace (CHR '']'')" "\<not> isspace (CHR '','')" by (simp_all add: isspace_def code_def)
  have first: "join_with '','' (map json_text (j # js)) @ '']'' @ rest = json_text j @ ?t" by simp
  show ?case
  proof (cases "js = []")
    case True
    with v(1) h3 ext nonspace show ?thesis by (simp add: n json_elems.simps Let_def)
  next
    case False
    then obtain j2 js2 where js: "js = j2 # js2" by (cases js) auto
    have ws: "skip_ws (join_with '','' (map json_text js) @ '']'' @ rest) = join_with '','' (map json_text js) @ '']'' @ rest"
      by (simp add: js)
    have "length (join_with '','' (map json_text js)) < k" using Cons.prems(8) False by (simp add: n)
    from Cons.IH [OF h3(3,5,6,7,8) _ False this Cons.prems(9)] Cons.prems(6) obtain h' xs' cap'' where
        "json_elems k a (join_with '','' (map json_text js) @ '']'' @ rest) h3 = Ok (rest, h')"
        "rc_sound R h'" "hext {a} h' h3" "deref_arr h' a = Ok (xs', cap'')"
        "list_all2 (stands h' {..a}) xs' ((js0 @ [j]) @ js)"
      by auto
    with v(1) h3(1,2) nonspace ws False hext_trans [OF _ ext] show ?thesis
      by (simp add: n json_elems.simps Let_def)
  qed
qed simp

text \<open>The members of an object.\<close>

definition entries :: "heap \<Rightarrow> addr set \<Rightarrow> (string \<Rightarrow> val option) \<Rightarrow> (string \<times> json) list \<Rightarrow> bool" where
  "entries h A m ps \<longleftrightarrow> dom m = fst ` set ps \<and> (\<forall>(k, j) \<in> set ps. \<exists>x. m k = Some x \<and> stands h A x j)"

lemma entries_hext:
  assumes "entries h B m ps" "hext A h' h" "A \<subseteq> B" "\<forall>x \<in> A. \<forall>s. deref_str h x \<noteq> Ok s" "rc_sound R h'"
    "\<And>k x. m k = Some x \<Longrightarrow> val_ok h' x"
  shows "entries h' B m ps"
  using assms(1,6) stands_hext [OF assms(2-5)] unfolding entries_def by fastforce

lemma entries_mono:
  assumes "entries h A m ps" "B \<subseteq> A"
  shows "entries h B m ps"
  using assms(1) stands_mono [OF _ assms(2)] unfolding entries_def by blast

lemma entries_snoc:
  assumes "entries h A m ps" "stands h A v j" "k \<notin> fst ` set ps"
  shows "entries h A (m(k \<mapsto> v)) (ps @ [(k, j)])"
  using assms by (fastforce simp: entries_def)

lemma entries_obj:
  assumes "str_map h a m" "entries h A m ps" "a \<notin> A" "sorted_wrt (<) (map fst ps)"
  shows "stands h A (VMap a) (JObj ps)"
proof (rule stands.obj [OF assms(1,3)])
  have "sorted_list_of_set (set (map fst ps)) = map fst ps"
    using assms(4) by (intro sorted_list_of_set.idem_if_sorted_distinct) (auto simp: strict_sorted_iff)
  then show "map fst ps = sorted_list_of_set (dom m)" using assms(2) by (simp add: entries_def)
  have "stands h A (the (m (fst p))) (snd p)" if "p \<in> set ps" for p
    using that assms(2) by (fastforce simp: entries_def)
  then show "list_all2 (stands h A) (map (\<lambda>k. the (m k)) (map fst ps)) (map snd ps)"
    by (simp add: list_all2_conv_all_nth)
qed

lemma store_member:
  assumes inv: "rc_sound (v # k # R) h" and key: "k \<in> str_vals h" "str_of h k = key" "key \<notin> fst ` set ps"
    and m: "VMap a \<in> set R" "str_map h a m" "entries h {..a} m ps" and v: "stands h {..a} v j"
  obtains h1 h2 h3 where "rc_map_set a k v h = Ok h1" "release_value k h1 = Ok h2" "release_value v h2 = Ok h3"
    "rc_sound R h3" "hext {a} h3 h" "str_map h3 a (m(key \<mapsto> v))" "entries h3 {..a} (m(key \<mapsto> v)) (ps @ [(key, j)])"
proof -
  obtain h1 b where h1: "rc_map_set a k v h = Ok h1" "rc_sound (v # k # R) h1" "str_map h1 a (m(key \<mapsto> v))"
      "hsub h1 (setb h a b)"
    using str_map_set [OF inv _ key(1) _ _ m(2)] m(1) key(2) by fastforce
  have "rc_sound (k # v # R) h1" by (rule rc_sound_perm [OF h1(2)]) simp
  then obtain h2 where h2: "release_value k h1 = Ok h2" "rc_sound (v # R) h2" "hsub h2 h1" by (rule release_sound)
  then obtain h3 where h3: "release_value v h2 = Ok h3" "rc_sound R h3" "hsub h3 h2" by (elim release_sound)
  have later: "hsub h3 h1" by (rule hsub_trans [OF h3(3) h2(3)])
  have ext: "hext {a} h3 h" by (rule hext_trans [OF hext_hsub [OF later] hext_setb [OF h1(4)]])
  have live: "val_ok h3 (VMap a)"
    using rc_inv_val_ok [OF h3(2) [unfolded rc_sound_def]] m(1) by blast
  have m3: "str_map h3 a (m(key \<mapsto> v))"
    by (rule hext_str_map [OF hext_hsub [OF later, of "{}"] h1(3) _ _ h3(2) live]) simp_all
  have "\<forall>x \<in> {a}. \<forall>s. deref_str h x \<noteq> Ok s"
    using m(2) by (auto elim!: str_mapE simp: deref_map_Ok_iff deref_str_Ok_iff)
  then have "entries h3 {..a} (m(key \<mapsto> v)) (ps @ [(key, j)])"
    by (intro entries_hext [OF entries_snoc [OF m(3) v key(3)] ext _ _ h3(2)] val_ok_entry [OF h3(2) m3]) auto
  then show ?thesis using that h1(1) h2(1) h3(1,2) ext m3 by blast
qed

definition member_text :: "string \<times> json \<Rightarrow> string" where
  "member_text p = escape_json_string (fst p) @ '':'' @ json_text (snd p)"

lemma obj_text: "json_text (JObj ps) = ''{'' @ join_with '','' (map member_text ps) @ ''}''"
  by (simp add: member_text_def [abs_def] case_prod_beta comp_def)

lemma escape_shape: "\<exists>cs. escape_json_string s = CHR 0x22 # cs"
  by (simp add: escape_json_string_def)

lemma parse_members:
  assumes "\<forall>p \<in> set ps. parses (snd p) \<and> nul \<notin> set (fst p)" "ps \<noteq> []"
    "length (join_with '','' (map member_text ps)) < n" "VMap a \<in> set R" "distinct (map fst (ps0 @ ps))"
  shows "rc_sound R h \<Longrightarrow> str_map h a m \<Longrightarrow> entries h {..a} m ps0 \<Longrightarrow>
    \<exists>h' m'. json_members n a (join_with '','' (map member_text ps) @ ''}'' @ rest) h = Ok (rest, h') \<and>
      rc_sound R h' \<and> hext {a} h' h \<and> str_map h' a m' \<and> entries h' {..a} m' (ps0 @ ps)"
  using assms
proof (induction ps arbitrary: n h m ps0)
  case (Cons p ps)
  obtain key j where p: "p = (key, j)" by fastforce
  let ?t = "if ps = [] then ''}'' @ rest else '','' @ join_with '','' (map member_text ps) @ ''}'' @ rest"
  from Cons.prems(6) obtain n' where n: "n = Suc n'" by (cases n) auto
  obtain k h1 where k: "val_str key h = (k, h1)" by fastforce
  note new = new_string [OF Cons.prems(1) k]
  have len: "length (json_text j) \<le> n'" using Cons.prems(6) by (simp add: n p member_text_def split: if_splits)
  have fin: "ends ?t" by (simp add: ends_def)
  have pj: "parses j" and nul: "nul \<notin> set key" using Cons.prems(4) by (simp_all add: p)
  obtain v h2 where v: "json_value n' (json_text j @ ?t) h1 = Ok (v, ?t, h2)" "rc_sound (v # k # R) h2"
      "hext {} h2 h1" "stands h2 {..<length h1} v j"
    by (rule parsesD [OF pj len fin new(1)])
  have ext: "hext {} h2 h" by (rule hext_trans [OF v(3) new(2)])
  have live: "val_ok h2 x" if "x \<in> set (v # k # R)" for x
    using rc_inv_val_ok [OF v(2) [unfolded rc_sound_def]] that by blast
  have m2: "str_map h2 a m"
    by (rule hext_str_map [OF ext Cons.prems(2) _ _ v(2) live]) (use Cons.prems(7) in auto)
  have "k \<in> str_vals h1" "str_of h1 k = key" "val_addr k = Some (length h)"
    using new(3,4) nul by (auto simp: str_vals_def str_of_def)
  with hext_str [OF v(3) _ _ _ live [of k]] have key: "k \<in> str_vals h2" "str_of h2 k = key" by auto
  have "a < length h" using Cons.prems(2) by (auto elim!: str_mapE simp: deref_map_Ok_iff dest: hget_Some_less)
  moreover have "length h \<le> length h1" using new(2) [of "{}"] by (simp add: hext_def)
  ultimately have "stands h2 {..a} v j" by (intro stands_mono [OF v(4)]) auto
  moreover have "entries h2 {..a} m ps0"
    by (rule entries_hext [OF Cons.prems(3) ext _ _ v(2) val_ok_entry [OF v(2) m2]]) simp_all
  moreover have "key \<notin> fst ` set ps0" using Cons.prems(8) by (auto simp: p)
  ultimately obtain h3 h4 h5 where h5: "rc_map_set a k v h2 = Ok h3" "release_value k h3 = Ok h4" "release_value v h4 = Ok h5"
      "rc_sound R h5" "hext {a} h5 h2" "str_map h5 a (m(key \<mapsto> v))" "entries h5 {..a} (m(key \<mapsto> v)) (ps0 @ [(key, j)])"
    using store_member [OF v(2) key _ Cons.prems(7) m2] by metis
  have ext5: "hext {a} h5 h" using hext_trans [OF h5(5) hext_mono [OF ext]] by simp
  have first: "join_with '','' (map member_text (p # ps)) @ ''}'' @ rest = escape_json_string key @ '':'' @ json_text j @ ?t"
    by (simp add: p member_text_def)
  have nonspace: "\<not> isspace (CHR ''}'')" "\<not> isspace (CHR '','')" "\<not> isspace (CHR '':'')" "\<not> isspace (CHR 0x22)"
    by (simp_all add: isspace_def code_def)
  have quote: "skip_ws (escape_json_string s @ z) = escape_json_string s @ z" "starts [CHR 0x22] (escape_json_string s @ z)" for s z
    using escape_shape [of s] nonspace(4) by auto
  show ?case
  proof (cases "ps = []")
    case True
    then show ?thesis
      unfolding first n json_members.simps
      using v(1) h5 ext5 nonspace by (auto simp add: Let_def quote parse_escape k p)
  next
    case False
    then obtain p2 ps2 where ps: "ps = p2 # ps2" by (cases ps) auto
    have ws: "skip_ws (join_with '','' (map member_text ps) @ ''}'' @ rest) = join_with '','' (map member_text ps) @ ''}'' @ rest"
      by (simp add: ps member_text_def quote)
    have len': "length (join_with '','' (map member_text ps)) < n'" using Cons.prems(6) False by (simp add: n)
    from Cons.IH [OF h5(4,6,7) _ False len' Cons.prems(7)] Cons.prems(4,8) obtain h' m' where
        "json_members n' a (join_with '','' (map member_text ps) @ ''}'' @ rest) h5 = Ok (rest, h')"
        "rc_sound R h'" "hext {a} h' h5" "str_map h' a m'" "entries h' {..a} m' ((ps0 @ [(key, j)]) @ ps)"
      by (auto simp: p)
    moreover from this(3) have "hext {a} h' h" by (rule hext_trans [OF _ ext5])
    ultimately show ?thesis
      unfolding first n json_members.simps
      using v(1) h5(1-3) nonspace ws False by (auto simp add: Let_def quote parse_escape k p)
  qed
qed simp

text \<open>A finished array or map is handed out, with one more reference counted.\<close>

lemma hand_out:
  assumes "rc_sound (v # R) h2" "val_addr v = Some a" "a = length h" "h1 = h @ [c]" "hext {a} h2 h1" "stands h2 {..<a} v j"
  obtains h3 where "incref a h2 = Ok h3" "rc_sound (v # R) h3" "hext {} h3 h" "stands h3 {..<length h} v j"
proof -
  obtain h3 where h3: "incref a h2 = Ok h3" "rc_sound (v # R) h3" "hsub h3 h2"
    by (rule incref_owned [OF assms(1) _ assms(2)]) simp
  have "hext {a} h3 h1" by (rule hext_trans [OF hext_hsub [OF h3(3)] assms(5)])
  then have "hext {} h3 h" unfolding assms(3,4) by (rule hext_new)
  moreover have "val_ok h3 v" using rc_inv_val_ok [OF h3(2) [unfolded rc_sound_def]] by simp
  then have "stands h3 {..<a} v j" using stands_hext [OF hext_hsub [OF h3(3), of "{}"] _ _ h3(2) assms(6)] by simp
  ultimately show ?thesis using that h3(1,2) assms(3) by simp
qed

lemma bracket_not_space: "\<not> isspace (CHR ''['')" "\<not> isspace (CHR ''{'')" "\<not> isspace (CHR '']'')" "\<not> isspace (CHR ''}'')"
  by (simp_all add: isspace_def code_def)

lemma json_value_arr:
  assumes "rc_array_new h = (a, h1)" "incref a h2 = Ok h3"
    "(if starts '']'' (skip_ws s) then Ok (tl (skip_ws s), h1) else json_elems k a (skip_ws s) h1) = Ok (rest, h2)"
  shows "json_value (Suc k) (''['' @ s) h = Ok (VArr a, rest, h3)"
  using assms bracket_not_space by (simp add: json_value.simps val_array_def Let_def split: if_splits)

lemma json_value_obj:
  assumes "rc_map_new h = (a, h1)" "incref a h2 = Ok h3"
    "(if starts ''}'' (skip_ws s) then Ok (tl (skip_ws s), h1) else json_members k a (skip_ws s) h1) = Ok (rest, h2)"
  shows "json_value (Suc k) (''{'' @ s) h = Ok (VMap a, rest, h3)"
  using assms bracket_not_space by (simp add: json_value.simps val_map_def Let_def split: if_splits)

lemma parses_arr:
  assumes "\<forall>j \<in> set js. parses j"
  shows "parses (JArr js)"
  unfolding parses_def
proof (intro allI impI)
  fix n :: nat and rest R h
  assume n: "length (json_text (JArr js)) \<le> n" and inv: "rc_sound R h"
  let ?body = "join_with '','' (map json_text js) @ '']'' @ rest"
  from n obtain k where k: "n = Suc k" by (cases n) auto
  obtain a h1 where new: "rc_array_new h = (a, h1)" by fastforce
  note na = new_array [OF inv new]
  have "\<exists>h2 xs cap. (if starts '']'' (skip_ws ?body) then Ok (tl (skip_ws ?body), h1) else json_elems k a (skip_ws ?body) h1) = Ok (rest, h2) \<and>
      rc_sound (VArr a # R) h2 \<and> hext {a} h2 h1 \<and> deref_arr h2 a = Ok (xs, cap) \<and> list_all2 (stands h2 {..a}) xs js"
  proof (cases js)
    case Nil
    with na(1,3) bracket_not_space show ?thesis by simp
  next
    case (Cons j js')
    obtain c cs where c: "json_text j = c # cs" "text_start c" using json_text_start by blast
    then have ws: "skip_ws ?body = ?body" "\<not> starts '']'' ?body"
      using text_start_other [OF c(2)] by (auto simp: Cons)
    have "js \<noteq> []" "length (join_with '','' (map json_text js)) < k" using n by (simp_all add: Cons k)
    from parse_elems [OF assms this _ na(1) na(3), of "[]"] ws show ?thesis by simp
  qed
  then obtain h2 xs cap where h2: "(if starts '']'' (skip_ws ?body) then Ok (tl (skip_ws ?body), h1) else json_elems k a (skip_ws ?body) h1) = Ok (rest, h2)"
      "rc_sound (VArr a # R) h2" "hext {a} h2 h1" "deref_arr h2 a = Ok (xs, cap)" "list_all2 (stands h2 {..a}) xs js"
    by blast
  have "stands h2 {..<a} (VArr a) (JArr js)"
    using h2(5) by (intro stands.arr [OF h2(4)]) (auto elim!: list_all2_mono intro: stands_mono)
  with na(4) obtain h3 where h3: "incref a h2 = Ok h3" "rc_sound (VArr a # R) h3" "hext {} h3 h" "stands h3 {..<length h} (VArr a) (JArr js)"
    using hand_out [OF h2(2) _ na(2) _ h2(3)] by auto
  have "json_value n (json_text (JArr js) @ rest) h = Ok (VArr a, rest, h3)"
    using json_value_arr [OF new h3(1) h2(1)] by (simp only: k json_text.simps append_assoc)
  with h3 show "\<exists>v h'. json_value n (json_text (JArr js) @ rest) h = Ok (v, rest, h') \<and> rc_sound (v # R) h' \<and>
      hext {} h' h \<and> stands h' {..<length h} v (JArr js)"
    by blast
qed

lemma parses_obj:
  assumes "\<forall>p \<in> set ps. parses (snd p) \<and> nul \<notin> set (fst p)" "sorted_wrt (<) (map fst ps)"
  shows "parses (JObj ps)"
  unfolding parses_def
proof (intro allI impI)
  fix n :: nat and rest R h
  assume n: "length (json_text (JObj ps)) \<le> n" and inv: "rc_sound R h"
  let ?body = "join_with '','' (map member_text ps) @ ''}'' @ rest"
  from n obtain k where k: "n = Suc k" by (cases n) auto
  obtain a h1 where new: "rc_map_new h = (a, h1)" by fastforce
  note nm = new_map [OF inv new]
  have "\<exists>h2 m. (if starts ''}'' (skip_ws ?body) then Ok (tl (skip_ws ?body), h1) else json_members k a (skip_ws ?body) h1) = Ok (rest, h2) \<and>
      rc_sound (VMap a # R) h2 \<and> hext {a} h2 h1 \<and> str_map h2 a m \<and> entries h2 {..a} m ps"
  proof (cases ps)
    case Nil
    moreover have "entries h1 {..a} Map.empty []" by (simp add: entries_def)
    ultimately show ?thesis using nm(1,3) bracket_not_space by auto
  next
    case (Cons p ps')
    obtain cs where c: "escape_json_string (fst p) = CHR 0x22 # cs" using escape_shape by blast
    then have ws: "skip_ws ?body = ?body" "\<not> starts ''}'' ?body"
      by (simp_all add: Cons member_text_def isspace_def code_def)
    have "entries h1 {..a} Map.empty []" by (simp add: entries_def)
    moreover have "ps \<noteq> []" "length (join_with '','' (map member_text ps)) < k" using n by (simp_all add: Cons k obj_text del: json_text.simps)
    moreover have "distinct (map fst ([] @ ps))" using assms(2) by (simp add: strict_sorted_iff)
    ultimately show ?thesis using parse_members [OF assms(1) _ _ _ _ nm(1,3), where ?ps0.0 = "[]"] ws by simp
  qed
  then obtain h2 m where h2: "(if starts ''}'' (skip_ws ?body) then Ok (tl (skip_ws ?body), h1) else json_members k a (skip_ws ?body) h1) = Ok (rest, h2)"
      "rc_sound (VMap a # R) h2" "hext {a} h2 h1" "str_map h2 a m" "entries h2 {..a} m ps"
    by blast
  have "entries h2 {..<a} m ps" by (rule entries_mono [OF h2(5)]) auto
  then have "stands h2 {..<a} (VMap a) (JObj ps)" by (intro entries_obj [OF h2(4)]) (use assms(2) in simp_all)
  with nm(4) obtain h3 where h3: "incref a h2 = Ok h3" "rc_sound (VMap a # R) h3" "hext {} h3 h" "stands h3 {..<length h} (VMap a) (JObj ps)"
    using hand_out [OF h2(2) _ nm(2) _ h2(3)] by auto
  have "json_value n (json_text (JObj ps) @ rest) h = Ok (VMap a, rest, h3)"
    using json_value_obj [OF new h3(1) h2(1)] by (simp only: k obj_text append_assoc)
  with h3 show "\<exists>v h'. json_value n (json_text (JObj ps) @ rest) h = Ok (v, rest, h') \<and> rc_sound (v # R) h' \<and>
      hext {} h' h \<and> stands h' {..<length h} v (JObj ps)"
    by blast
qed

lemma parses_plain: "json_plain j \<Longrightarrow> parses j"
proof (induction j)
  case (JArr js)
  then show ?case by (intro parses_arr) (auto simp: list_all_iff)
next
  case (JObj ps)
  have "parses (snd p) \<and> nul \<notin> set (fst p)" if p: "p \<in> set ps" for p
    using JObj.IH [OF p, of "snd p"] JObj.prems p unfolding json_plain_obj by (cases p) auto
  with JObj.prems show ?case unfolding json_plain_obj by (intro parses_obj) auto
qed (simp_all add: parses_null parses_bool parses_int parses_str)

section \<open>The round trip\<close>

lemma stands_plain: "stands h A v j \<Longrightarrow> json_plain j"
proof (induction rule: stands.induct)
  case (arr a xs cap js)
  then show ?case by (auto simp: list_all2_conv_all_nth list_all_length)
next
  case (obj a m ps)
  from obj.hyps(1) obtain bs n where m: "str_keys.tbl_inv h bs" "str_keys.tbl_abs h bs = m" by (rule str_mapE)
  have "nul \<notin> set k" if k: "k \<in> dom m" for k
  proof -
    have "map_of (map (\<lambda>(k, x). (str_of h k, x)) (concat bs)) = m"
      using str_table_pairs(2) [OF m(1)] by (simp only: m(2))
    then have "k \<in> fst ` set (map (\<lambda>(k, x). (str_of h k, x)) (concat bs))"
      using k by (metis dom_map_of_conv_image_fst)
    then obtain kv where "kv \<in> set (concat bs)" "k = str_of h (fst kv)" by (auto simp del: set_concat)
    with str_keys.tbl_inv_keys [OF m(1)] str_vals_live [of "fst kv" h] show ?thesis by auto
  qed
  moreover have "set (map fst ps) = dom m" using obj.hyps(3) str_map_dom [OF obj.hyps(1)] by simp
  ultimately have "nul \<notin> set (fst p)" if "p \<in> set ps" for p using that by (metis image_eqI list.set_map)
  moreover have "json_plain (snd p)" if "p \<in> set ps" for p
    using that obj.IH by (auto simp: list_all2_conv_all_nth in_set_conv_nth)
  moreover have "sorted_wrt (<) (map fst ps)" unfolding obj.hyps(3) by (rule strict_sorted_list_of_set)
  ultimately show ?case unfolding json_plain_obj by auto
qed simp_all

lemma escape_no_nul: "nul \<notin> set s \<Longrightarrow> nul \<notin> set (escape_json_string s)"
  by (auto simp: escape_json_string_def json_escape_char_def nul_def split: if_splits)

lemma json_text_no_nul: "json_plain j \<Longrightarrow> nul \<notin> set (json_text j)"
proof (induction j)
  case (JArr js)
  then have "nul \<notin> set (join_with '','' (map json_text js))"
    by (intro join_with_not_nul) (auto simp: list_all_iff nul_def)
  then show ?case by (simp add: nul_def)
next
  case (JObj ps)
  have "nul \<notin> set (member_text p)" if p: "p \<in> set ps" for p
  proof -
    have "nul \<notin> set (fst p)" "json_plain (snd p)" using p JObj.prems unfolding json_plain_obj by blast+
    moreover have "snd p \<in> Basic_BNFs.snds p" by (cases p) simp
    ultimately show ?thesis using JObj.IH [OF p] escape_no_nul by (auto simp: member_text_def nul_def)
  qed
  then have "nul \<notin> set (join_with '','' (map member_text ps))"
    by (intro join_with_not_nul) (auto simp: nul_def)
  then show ?case unfolding obj_text by (simp add: nul_def)
qed (simp_all add: nul_def escape_no_nul [unfolded nul_def] show_int_not_nul [unfolded nul_def])

text \<open>C6. json_decode() of the text json_encode() makes of a value of null, booleans, integers, strings, arrays and maps with NUL-free string keys is a value that stands for the same tree, built of new objects only; both calls succeed, the argument is left as it was, and the reference counts stay sound.\<close>

theorem json_round_trip:
  assumes "rc_sound R (heap r)" "v \<in> set R" "stands (heap r) {} v j"
  shows "\<exists>s r1 w r2. native_json_encode [v] r = Ok (s, r1) \<and> native_json_decode [s] r1 = Ok (w, r2) \<and>
    rc_sound (w # s # R) (heap r2) \<and> stands (heap r2) {..<length (heap r)} w j \<and> stands (heap r2) {} v j"
proof -
  note plain = stands_plain [OF assms(3)]
  then have cstr: "c_str (json_text j) = json_text j" by (intro c_str_id json_text_no_nul)
  obtain s h1 where s: "val_str (json_text j) (heap r) = (s, h1)" by fastforce
  note new = new_string [OF assms(1) s]
  have enc: "native_json_encode [v] r = Ok (s, r\<lparr>heap := h1\<rparr>)"
    by (simp add: native_json_encode_def arg_def value_to_json_stands [OF assms(3)] cstr ret_str_def with_heap_val_def s)
  have arg: "str_arg [s] 0 (r\<lparr>heap := h1\<rparr>) = Ok (json_text j)"
    using value_to_string_VStr [OF new(4)] by (simp add: str_arg_def arg_def new(3) cstr)
  have len: "length (json_text j) \<le> 2 * length (json_text j) + 2" by simp
  have fin: "ends []" by (simp add: ends_def)
  obtain w h2 where w: "json_value (2 * length (json_text j) + 2) (json_text j @ []) h1 = Ok (w, [], h2)"
      "rc_sound (w # s # R) h2" "hext {} h2 h1" "stands h2 {..<length h1} w j"
    by (rule parsesD [OF parses_plain [OF plain] len fin new(1)])
  have dec: "native_json_decode [s] (r\<lparr>heap := h1\<rparr>) = Ok (w, r\<lparr>heap := h2\<rparr>)"
    using w(1) by (simp add: native_json_decode_def arg parse_json_value_def with_heap_val_def)
  have ext: "hext {} h2 (heap r)" by (rule hext_trans [OF w(3) new(2)])
  have "val_ok h2 v" using rc_inv_val_ok [OF w(2) [unfolded rc_sound_def]] assms(2) by simp
  then have "stands h2 {} v j" using stands_hext [OF ext _ _ w(2) assms(3)] by simp
  moreover have "stands h2 {..<length (heap r)} w j"
    using new(2) [of "{}"] by (intro stands_mono [OF w(4)]) (auto simp: hext_def)
  ultimately show ?thesis using enc dec w(2) by (intro exI [of _ s] exI [of _ "r\<lparr>heap := h1\<rparr>"] exI [of _ w] exI [of _ "r\<lparr>heap := h2\<rparr>"]) simp
qed

definition nested :: heap where
  \<comment> \<open>a map with one entry, an array\<close>
  "nested = [Some \<lparr>rc = 1, cbody = BStr ''k''\<rparr>, Some \<lparr>rc = 1, cbody = BArr [VInt 1, VNull] 8\<rparr>,
     Some \<lparr>rc = 1, cbody = BMap [[(VStr 0, VArr 1)]] 1\<rparr>]"

lemma nested_stands: "stands nested {} (VMap 2) (JObj [(''k'', JArr [JInt 1, JNull])])"
proof (rule stands.obj)
  have str: "deref_str nested 0 = Ok ''k''" by (simp add: nested_def deref_str_def deref_def hget_def)
  then have key: "VStr 0 \<in> str_vals nested" "str_of nested (VStr 0) = ''k''"
    by (simp_all add: str_vals_def str_of_def nul_def)
  have "str_keys.tbl_inv nested [[(VStr 0, VArr 1)]]"
    using key by (simp add: str_keys.tbl_inv_def str_keys.bucket_inv_def str_keys.slot_def)
  moreover have "str_keys.tbl_abs nested [[(VStr 0, VArr 1)]] = [''k'' \<mapsto> VArr 1]"
    by (rule ext) (simp add: str_keys.tbl_abs_def str_keys.bucket_abs_def str_keys.slot_def key(2))
  ultimately show "str_map nested 2 [''k'' \<mapsto> VArr 1]"
    by (simp add: str_map_def nested_def deref_map_def deref_def hget_def)
  have "stands nested {} (VArr 1) (JArr [JInt 1, JNull])"
    by (rule stands.arr [of nested 1 "[VInt 1, VNull]" 8]) (simp_all add: nested_def deref_arr_def deref_def hget_def)
  then show "list_all2 (stands nested {}) (map (\<lambda>k. the ([''k'' \<mapsto> VArr 1] k)) (map fst [(''k'', JArr [JInt 1, JNull])]))
      (map snd [(''k'', JArr [JInt 1, JNull])])"
    by simp
qed simp_all

theorem json_round_trip_witness:
  "\<exists>s r1 w r2. native_json_encode [VMap 2] (initial_rt\<lparr>heap := nested\<rparr>) = Ok (s, r1) \<and>
     native_json_decode [s] r1 = Ok (w, r2) \<and>
     stands (heap r2) {..<3} w (JObj [(''k'', JArr [JInt 1, JNull])])"
proof -
  have "rc_sound [VMap 2] nested" by (simp add: nested_def heap_eval)
  moreover have "length nested = 3" by (simp add: nested_def)
  ultimately show ?thesis
    using json_round_trip [of "[VMap 2]" "initial_rt\<lparr>heap := nested\<rparr>" "VMap 2"] nested_stands by fastforce
qed

end
