(* ===== verification/Progress.thy ===== *)
theory Progress
  imports Execution
begin

text \<open>
  The dispatch loop makes progress: an instruction that does not transfer control backwards leaves the
  program counter behind it. An execution without backward jumps, calls, returns to a caller and caught
  exceptions therefore ends within one instruction per byte of code.
\<close>

definition goes_back :: "program \<Rightarrow> vm \<Rightarrow> bool" where
  \<comment> \<open>the instruction about to be executed may lower the program counter\<close>
  "goes_back p s = (case next8 p s of
       Ok (b, s1) \<Rightarrow> (case decode_op b of
           None \<Rightarrow> False
         | Some x \<Rightarrow> x \<in> {opCALL, opCALLVALUE} \<or> (x = opRET \<and> 1 < length (v_frames s)) \<or>
             (x \<in> {opTHROW, opUNWRAP, opASSERT} \<and> v_handlers s \<noteq> []) \<or>
             (x \<in> {opJMP, opJMPF, opJMPT} \<and> (case next_i32 p s1 of Ok (rel, s2) \<Rightarrow> rel < 0 | _ \<Rightarrow> False)))
     | _ \<Rightarrow> False)"

section \<open>Instructions that go on\<close>

lemma on_plain:
  "op_POP s = Ok s' \<Longrightarrow> v_pc s \<le> v_pc s'"
  "op_BIN x s = Ok s' \<Longrightarrow> v_pc s \<le> v_pc s'"
  "op_NOT s = Ok s' \<Longrightarrow> v_pc s \<le> v_pc s'"
  "op_BNOT s = Ok s' \<Longrightarrow> v_pc s \<le> v_pc s'"
  "op_COALESCE s = Ok s' \<Longrightarrow> v_pc s \<le> v_pc s'"
  "op_PRINT s = Ok s' \<Longrightarrow> v_pc s \<le> v_pc s'"
  "op_INDEX s = Ok s' \<Longrightarrow> v_pc s \<le> v_pc s'"
  "op_SETIDX s = Ok s' \<Longrightarrow> v_pc s \<le> v_pc s'"
  "op_LEN s = Ok s' \<Longrightarrow> v_pc s \<le> v_pc s'"
  "op_HAS s = Ok s' \<Longrightarrow> v_pc s \<le> v_pc s'"
  "op_TRYPOP s = Ok s' \<Longrightarrow> v_pc s \<le> v_pc s'"
  by (auto simp: op_POP_def op_BIN_def op_NOT_def op_BNOT_def op_COALESCE_def op_PRINT_def op_INDEX_def
      op_SETIDX_def op_LEN_def op_HAS_def op_TRYPOP_def op_simps dest!: same_dests split: if_splits)

lemma on_values:
  "op_NEG s = Ok s' \<Longrightarrow> v_pc s \<le> v_pc s'"
  "op_APPEND s = Ok s' \<Longrightarrow> v_pc s \<le> v_pc s'"
  "op_KEYS s = Ok s' \<Longrightarrow> v_pc s \<le> v_pc s'"
  by (auto simp: op_NEG_def op_APPEND_def op_KEYS_def op_simps split: val.splits dest!: same_dests)

lemma on_operand:
  "op_CONST p s = Ok s' \<Longrightarrow> v_pc s \<le> v_pc s'"
  "op_LOAD p s = Ok s' \<Longrightarrow> v_pc s \<le> v_pc s'"
  "op_STORE p s = Ok s' \<Longrightarrow> v_pc s \<le> v_pc s'"
  "op_GETGLOBAL p s = Ok s' \<Longrightarrow> v_pc s \<le> v_pc s'"
  "op_SETGLOBAL p s = Ok s' \<Longrightarrow> v_pc s \<le> v_pc s'"
  "op_PUSHFN p s = Ok s' \<Longrightarrow> v_pc s \<le> v_pc s'"
  "op_TRYPUSH p s = Ok s' \<Longrightarrow> v_pc s \<le> v_pc s'"
  by (auto simp: op_CONST_def op_LOAD_def op_STORE_def op_GETGLOBAL_def op_SETGLOBAL_def op_PUSHFN_def op_TRYPUSH_def
      op_simps dest!: same_dests operand_dests)

lemma on_containers:
  "op_NEWARR p s = Ok s' \<Longrightarrow> v_pc s \<le> v_pc s'"
  "op_NEWMAP p s = Ok s' \<Longrightarrow> v_pc s \<le> v_pc s'"
  "op_CLOSURE p s = Ok s' \<Longrightarrow> v_pc s \<le> v_pc s'"
  "op_NATIVE nf p s = Ok s' \<Longrightarrow> v_pc s \<le> v_pc s'"
  by (auto simp: op_NEWARR_def op_NEWMAP_def op_CLOSURE_def op_NATIVE_def op_simps
      dest!: same_dests loop_dests operand_dests)

lemma jump_forward: "jump p rel s = Ok s' \<Longrightarrow> prog_ok p \<Longrightarrow> 0 \<le> rel \<Longrightarrow> v_pc s \<le> v_pc s'"
  by (auto simp: jump_def outcome_simps prog_ok_def dest: pyro_jump_to_Ok(3))

lemma on_jump:
  assumes "prog_ok p" "\<And>rel s1. next_i32 p s = Ok (rel, s1) \<Longrightarrow> 0 \<le> rel"
  shows "op_JMP p s = Ok s' \<Longrightarrow> v_pc s \<le> v_pc s'" "op_JMPC b p s = Ok s' \<Longrightarrow> v_pc s \<le> v_pc s'"
proof -
  assume "op_JMP p s = Ok s'"
  then obtain rel s1 where r: "next_i32 p s = Ok (rel, s1)" "jump p rel s1 = Ok s'" by (auto simp: op_JMP_def op_simps)
  from operand_dests(3) [OF r(1)] jump_forward [OF r(2) assms(1) assms(2) [OF r(1)]]
  show "v_pc s \<le> v_pc s'" by simp
next
  assume "op_JMPC b p s = Ok s'"
  then obtain rel s1 a s2 t s3 where r: "next_i32 p s = Ok (rel, s1)" "pop s1 = Ok (a, s2)"
      "release a s2 = Ok s3" "(if t = b then jump p rel s3 else Ok s3) = Ok s'"
    by (auto simp only: op_JMPC_def outcome_simps split_paired_all prod.case)
  have "v_pc s3 = v_pc s + 4"
    using operand_dests(3) [OF r(1)] r(2) same_release [OF r(3)] by (auto simp: pop_Ok same_def)
  then show "v_pc s \<le> v_pc s'"
    using r(4) jump_forward [OF _ assms(1) assms(2) [OF r(1)], of s3 s'] by (auto split: if_splits)
qed

lemma on_raising:
  assumes "v_handlers s = []"
  shows "op_THROW s = Ok s' \<Longrightarrow> v_pc s \<le> v_pc s'" "op_UNWRAP s = Ok s' \<Longrightarrow> v_pc s \<le> v_pc s'"
    "op_ASSERT s = Ok s' \<Longrightarrow> v_pc s \<le> v_pc s'"
  using assms
  by (auto simp: op_THROW_def op_UNWRAP_def op_ASSERT_def op_simps raise_exception_def split: if_splits dest!: same_dests)

lemma on_RET:
  assumes "ctl_ok p s" "op_RET s = Ok (Next s')"
  shows "1 < length (v_frames s)"
proof (rule ccontr)
  assume "\<not> 1 < length (v_frames s)"
  then obtain f where "v_frames s = [f]"
    using assms(1) by (cases "v_frames s"; cases "tl (v_frames s)") (auto simp: ctl_ok_def)
  with assms show False by (auto simp: ctl_ok_def op_RET_def op_simps split: if_splits)
qed

lemma on_exec_op:
  assumes p: "prog_ok p" and s: "ctl_ok p s" and run: "exec_op x nf p s = Ok (Next s')"
    and call: "x \<notin> {opCALL, opCALLVALUE}" and ret: "x = opRET \<Longrightarrow> length (v_frames s) \<le> 1"
    and raise: "x \<in> {opTHROW, opUNWRAP, opASSERT} \<Longrightarrow> v_handlers s = []"
    and jump: "\<And>rel s1. x \<in> {opJMP, opJMPF, opJMPT} \<Longrightarrow> next_i32 p s = Ok (rel, s1) \<Longrightarrow> 0 \<le> rel"
  shows "v_pc s \<le> v_pc s'"
proof -
  consider "x = opRET" | "x \<in> {opTHROW, opUNWRAP, opASSERT}" | "x \<in> {opJMP, opJMPF, opJMPT}"
    | "x \<notin> {opRET, opTHROW, opUNWRAP, opASSERT, opJMP, opJMPF, opJMPT, opCALL, opCALLVALUE}"
    using call by auto
  then show ?thesis
  proof cases
    case 1
    with run ret on_RET [OF s] show ?thesis by fastforce
  next
    case 2
    with run on_raising [OF raise [OF 2]] show ?thesis by (auto simp: next_vm_Ok)
  next
    case 3
    with run on_jump [OF p jump [OF 3]] show ?thesis by (auto simp: next_vm_Ok)
  next
    case 4
    have here: "push v s = s' \<Longrightarrow> v_pc s \<le> v_pc s'" "print t s = s' \<Longrightarrow> v_pc s \<le> v_pc s'" for v t by auto
    note rules = on_plain on_values on_operand on_containers here
    show ?thesis
      using run 4
      by (cases x; simp only: exec_op.simps next_vm_Ok outcome.inject outcome.distinct result.inject result.distinct
            insert_iff simp_thms)
         (erule rules)+
  qed
qed

section \<open>Executions that do not go back\<close>

lemma step_advances:
  assumes p: "prog_ok p" and s: "state_ok p s" and run: "step nf p s = Ok (Next s')" and "\<not> goes_back p s"
  shows "v_pc s < v_pc s'"
proof -
  from run obtain b s1 x where r: "next8 p s = Ok (b, s1)" "decode_op b = Some x" "exec_op x nf p s1 = Ok (Next s')"
    by (auto simp: step_def obind_Ok_iff split: option.splits)
  note adv = operand_dests(1) [OF r(1)]
  have s1: "ctl_ok p s1" using s p adv
    by (auto simp: state_ok_def intro!: ctl_ok_same [of p s] pc_ok_advanced [of p s])
  have "v_pc s1 \<le> v_pc s'"
    by (rule on_exec_op [OF p s1 r(3)]) (use assms(4) r(1,2) adv in \<open>auto simp: goes_back_def\<close>)
  with adv show ?thesis by simp
qed

lemma run_ends:
  assumes p: "prog_ok p" and fwd: "\<And>s. reachable nf p r s \<Longrightarrow> \<not> goes_back p s"
  shows "reachable nf p r s \<Longrightarrow> uint (p_codelen p) < v_pc s + int n \<Longrightarrow> run n nf p s \<noteq> None"
proof (induction n arbitrary: s)
  case 0
  then show ?case using reachable_state_ok [OF 0(1) p] by (simp add: state_ok_def ctl_ok_def pc_ok_def)
next
  case (Suc n)
  note ok = reachable_state_ok [OF Suc.prems(1) p]
  show ?case
  proof (cases "\<exists>s'. step nf p s = Ok (Next s')")
    case True
    then obtain s' where s': "step nf p s = Ok (Next s')" by blast
    from step_advances [OF p ok s' fwd [OF Suc.prems(1)]] Suc.IH [OF reachable.step [OF Suc.prems(1) s']] Suc.prems(2)
    show ?thesis by (simp add: s')
  next
    case False
    then show ?thesis by (auto split: outcome.splits result.splits)
  qed
qed


definition skipper :: program where
  \<comment> \<open>a jump over \<open>null\<close>, then halt\<close>
  "skipper = tiny\<lparr>p_code := op_byte opJMP # [1, 0, 0, 0] @ map op_byte [opNULL, opHALT], p_codelen := 7\<rparr>"

lemma skipper_opcodes:
  "decode_op 0 = Some opHALT" "decode_op 1 = Some opCONST" "decode_op 4 = Some opNULL" "decode_op 48 = Some opJMP"
  by code_simp+

lemma skipper_forward: "\<not> goes_back skipper s"
proof (cases "v_pc s \<in> {0, 1, 2, 3, 4, 5, 6}")
  case True
  then show ?thesis
    by (auto simp: goes_back_def skipper_def tiny_def next8_def fetch_def c_int32_def in_i32_def skipper_opcodes
        next_i32_def read_i32_def read_u32_def)
next
  case False
  then have "next8 skipper s = UB CodeRange"
    by (auto simp: next8_def fetch_def skipper_def)
  then show ?thesis by (simp add: goes_back_def)
qed


end
