(* ===== verification/Ownership.thy ===== *)
theory Ownership
  imports Growth Arith
begin

text \<open>
  Which runtime functions keep the ownership invariant, whatever values they are given. \<open>safe m Q\<close>: the
  computation \<open>m\<close> does not touch a freed object, and what it returns satisfies \<open>Q\<close>. Other undefined
  behaviour is not excluded here.
\<close>

section \<open>Computations that touch live objects only\<close>

definition safe :: "'a outcome \<Rightarrow> ('a \<Rightarrow> bool) \<Rightarrow> bool" where
  "safe m Q = (case m of Ok x \<Rightarrow> Q x | UB u \<Rightarrow> u \<noteq> DanglingPtr | _ \<Rightarrow> True)"

abbreviation reads :: "'a outcome \<Rightarrow> bool" where
  "reads m \<equiv> safe m (\<lambda>_. True)"

named_theorems safe_intros \<open>functions that touch live objects only\<close>

lemma safe_simps [simp]:
  "safe (Ok x) Q = Q x" "safe (Fatal e) Q" "safe Diverge Q" "safe (UB u) Q \<longleftrightarrow> u \<noteq> DanglingPtr"
  by (simp_all add: safe_def)

lemma safe_Ok: "safe m Q \<Longrightarrow> m = Ok x \<Longrightarrow> Q x"
  by simp

lemma safe_not_dangling: "safe m Q \<Longrightarrow> m \<noteq> UB DanglingPtr"
  by auto

lemma safe_mono: "safe m P \<Longrightarrow> (\<And>x. m = Ok x \<Longrightarrow> P x \<Longrightarrow> Q x) \<Longrightarrow> safe m Q"
  by (cases m) auto

lemma safe_obind: "safe m P \<Longrightarrow> (\<And>x. m = Ok x \<Longrightarrow> P x \<Longrightarrow> safe (f x) Q) \<Longrightarrow> safe (obind m f) Q"
  by (cases m) auto

lemma safe_oguard [simp]: "u \<noteq> DanglingPtr \<Longrightarrow> safe (oguard b u) (\<lambda>_. b)"
  by (simp add: oguard_def)

lemma safe_ofail [simp]: "safe (ofail b e) (\<lambda>_. \<not> b)"
  by (simp add: ofail_def)

lemma safe_guarded:
  "u \<noteq> DanglingPtr \<Longrightarrow> (b \<Longrightarrow> safe (f ()) Q) \<Longrightarrow> safe (obind (oguard b u) f) Q"
  "(\<not> b' \<Longrightarrow> safe (f ()) Q) \<Longrightarrow> safe (obind (ofail b' e) f) Q"
  by (auto simp: oguard_def ofail_def)

lemma safe_ofold:
  assumes "P s" "\<And>x s. x \<in> set xs \<Longrightarrow> P s \<Longrightarrow> safe (f x s) P"
  shows "safe (ofold f xs s) P"
  using assms by (induction xs arbitrary: s) (auto intro!: safe_obind)

lemma safe_omap:
  assumes "\<And>x. x \<in> set xs \<Longrightarrow> safe (f x) P"
  shows "safe (omap f xs) (list_all P)"
  using assms by (induction xs) (auto intro!: safe_obind)

lemma reads_omap: "(\<And>x. x \<in> set xs \<Longrightarrow> reads (f x)) \<Longrightarrow> reads (omap f xs)"
  by (rule safe_mono [OF safe_omap]) auto

lemma reads_obind [safe_intros]: "reads m \<Longrightarrow> (\<And>x. m = Ok x \<Longrightarrow> safe (f x) Q) \<Longrightarrow> safe (obind m f) Q"
  by (rule safe_obind)

section \<open>Reading values\<close>

lemma held_ok:
  assumes "val_ok h v"
  shows "v = VStr a \<Longrightarrow> \<exists>s. deref_str h a = Ok s" "v = VArr a \<Longrightarrow> \<exists>x. deref_arr h a = Ok x"
    "v = VMap a \<Longrightarrow> \<exists>x. deref_map h a = Ok x" "v = VFunc f (Some a) \<Longrightarrow> \<exists>x. deref_arr h a = Ok x"
  using assms
  by (auto simp: val_ok_def kind_ok_def deref_str_Ok_iff deref_arr_Ok_iff deref_map_Ok_iff split: option.splits body.splits)

lemma child_arr: "heap_ok h \<Longrightarrow> deref_arr h a = Ok (xs, cap) \<Longrightarrow> v \<in> set xs \<Longrightarrow> val_ok h v"
  by (auto simp: deref_arr_Ok_iff intro: heap_okD)

lemma child_map:
  assumes "heap_ok h" "deref_map h a = Ok (bs, n)" "kv \<in> set (concat bs)"
  shows "val_ok h (fst kv)" "val_ok h (snd kv)"
proof -
  obtain c where c: "hget h a = Some c" "cbody c = BMap bs n" using assms(2) by (auto simp: deref_map_Ok_iff)
  have "fst kv \<in> set (concat (map (\<lambda>(k, v). [k, v]) xs)) \<and> snd kv \<in> set (concat (map (\<lambda>(k, v). [k, v]) xs))"
    if "kv \<in> set xs" for xs :: "(val \<times> val) list"
    using that by (induction xs) auto
  from this [OF assms(3)] show "val_ok h (fst kv)" "val_ok h (snd kv)"
    by (auto intro!: heap_okD [OF assms(1) c(1)] simp: c(2) simp del: set_concat)
qed

text \<open>Rendering the keys of a map, and then something about its sorted entries.\<close>

lemma safe_entries:
  fixes g :: "val \<Rightarrow> string outcome"
  assumes "heap_ok h" "deref_map h a = Ok (bs, n)" "\<And>k. val_ok h k \<Longrightarrow> reads (g k)"
    "\<And>s x. val_ok h x \<Longrightarrow> reads (f (s, x))"
  shows "safe (omap (\<lambda>(k, x). obind (g k) (\<lambda>s. Ok (s, x))) (concat bs)) (\<lambda>ps. reads (omap f (sort_pairs ps)))"
proof (rule safe_mono)
  show "safe (omap (\<lambda>(k, x). obind (g k) (\<lambda>s. Ok (s, x))) (concat bs)) (list_all (\<lambda>q. val_ok h (snd q)))"
  proof (rule safe_omap)
    fix p assume "p \<in> set (concat bs)"
    from child_map [OF assms(1,2) this] assms(3)
    show "safe ((\<lambda>(k, x). obind (g k) (\<lambda>s. Ok (s, x))) p) (\<lambda>q. val_ok h (snd q))"
      by (cases p) (auto intro!: reads_obind)
  qed
  fix ps :: "(string \<times> val) list" assume "list_all (\<lambda>q. val_ok h (snd q)) ps"
  then show "reads (omap f (sort_pairs ps))"
    using assms(4) by (fastforce intro!: reads_omap simp: list_all_iff sort_pairs_def)
qed

lemma reads_to_str_fuel: "heap_ok h \<Longrightarrow> val_ok h v \<Longrightarrow> reads (to_str_fuel n h v)"
proof (induction n arbitrary: v)
  case (Suc n)
  show ?case
  proof (cases v)
    case (VStr a)
    with held_ok(1) [OF Suc.prems(2)] show ?thesis by auto
  next
    case (VArr a)
    with held_ok(2) [OF Suc.prems(2)] obtain xs cap where a: "deref_arr h a = Ok (xs, cap)" by auto
    with VArr Suc show ?thesis by (auto intro!: reads_obind reads_omap intro: child_arr)
  next
    case (VMap a)
    with held_ok(3) [OF Suc.prems(2)] obtain bs m where a: "deref_map h a = Ok (bs, m)" by auto
    let ?f = "\<lambda>(s, x). obind (to_str_fuel n h x) (\<lambda>t. Ok (s @ '': '' @ t))"
    have "reads (?f (s, x))" if "val_ok h x" for s x
      using Suc.IH [OF Suc.prems(1) that] by (auto intro!: reads_obind)
    then have "safe (omap (\<lambda>(k, x). obind (to_str_fuel n h k) (\<lambda>s. Ok (s, x))) (concat bs)) (\<lambda>ps. reads (omap ?f (sort_pairs ps)))"
      by (intro safe_entries [OF Suc.prems(1) a Suc.IH [OF Suc.prems(1)]])
    then have "reads (obind (omap (\<lambda>(k, x). obind (to_str_fuel n h k) (\<lambda>s. Ok (s, x))) (concat bs)) (\<lambda>ps.
        obind (omap ?f (sort_pairs ps)) (\<lambda>ss. Ok (''{'' @ join_with '', '' ss @ ''}''))))"
      by (rule safe_obind) (rule reads_obind, simp_all)
    then show ?thesis
      unfolding VMap to_str_fuel.simps val.case a obind.simps prod.case by simp
  qed simp_all
qed (simp split: option.splits)

lemma reads_values [safe_intros]:
  assumes "heap_ok h" "val_ok h v"
  shows "reads (value_to_string h v)" "reads (value_truthy h v)" "reads (value_length h v)" "reads (hash_value h v)"
proof -
  show "reads (value_to_string h v)" unfolding value_to_string_def by (rule reads_to_str_fuel [OF assms])
  show "reads (value_truthy h v)" "reads (value_length h v)" "reads (hash_value h v)"
    using held_ok [OF assms(2)]
    by (cases v; fastforce simp: value_truthy_def value_length_def hash_value_def)+
qed

lemma reads_as_i [safe_intros, simp]: "reads (as_i v)" "reads (value_as_float v)" "reads (c_i64 i)"
proof -
  show as_i: "reads (as_i v)" for v by (auto simp: as_i_def split: val.split option.split)
  show "reads (value_as_float v)" by (auto simp: value_as_float_def intro!: reads_obind as_i split: val.split)
  show "reads (c_i64 i)" by (simp add: c_i64_def)
qed

lemma reads_value_eq [safe_intros]:
  assumes "heap_ok h" "val_ok h a" "val_ok h b"
  shows "reads (value_eq h a b)"
  using reads_values(1) [OF assms(1,2)] reads_values(1) [OF assms(1,3)]
  by (cases a; cases b) (auto simp: value_eq_def is_str_def is_float_def is_bool_def intro!: reads_obind)

lemma reads_buckets:
  assumes "\<And>x. x \<in> fst ` set b \<Longrightarrow> reads (eq x k)"
  shows "reads (bucket_lookup eq k b)" "reads (bucket_put eq k v b)" "reads (bucket_del eq k b)"
  using assms by (induction b) (auto intro!: reads_obind)

lemma reads_tables:
  assumes "\<And>x. x \<in> fst ` set (concat bs) \<Longrightarrow> reads (eq x k)" "reads (hash k)"
  shows "reads (tbl_lookup eq hash bs k)" "reads (tbl_put eq hash bs k v)" "reads (tbl_del eq hash bs k)"
    "reads (tbl_push hash (k, w) bs)"
proof -
  have index: "safe (tbl_index hash bs k) (\<lambda>i. i < length bs)"
    unfolding tbl_index_def by (rule reads_obind [OF assms(2)]) simp
  have eq: "reads (eq x k)" if "i < length bs" "x \<in> fst ` set (bs ! i)" for x i
    using that by (intro assms(1)) (force dest: nth_mem)
  show "reads (tbl_lookup eq hash bs k)" "reads (tbl_put eq hash bs k v)" "reads (tbl_del eq hash bs k)"
    unfolding tbl_lookup_def tbl_put_def tbl_del_def
    by (auto intro!: safe_obind [OF index] reads_buckets eq reads_obind)
  show "reads (tbl_push hash (k, w) bs)"
    unfolding tbl_push_def by (auto intro!: safe_obind [OF index])
qed

section \<open>Owned references\<close>

lemma owned_ok: "rc_sound R h \<Longrightarrow> v \<in> set R \<Longrightarrow> val_ok h v"
  using rc_inv_val_ok [of "{}" R h v] by (simp add: rc_sound_def)

lemma owned_cell:
  assumes "rc_sound R h" "v \<in> set R"
  shows "v = VArr a \<Longrightarrow> \<exists>xs cap. deref_arr h a = Ok (xs, cap)" "v = VMap a \<Longrightarrow> \<exists>bs n. deref_map h a = Ok (bs, n)"
    "v = VStr a \<Longrightarrow> \<exists>s. deref_str h a = Ok s" "v = VFunc f (Some a) \<Longrightarrow> \<exists>xs cap. deref_arr h a = Ok (xs, cap)"
  using held_ok [OF owned_ok [OF assms]] by force+

lemma held_elem: "deref_arr h a = Ok (xs, cap) \<Longrightarrow> v \<in> set xs \<Longrightarrow> v \<in> set (all_held h {})"
  by (rule array_elem_held)

lemma held_entry:
  assumes "deref_map h a = Ok (bs, n)" "kv \<in> set (concat bs)"
  shows "fst kv \<in> set (all_held h {})" "snd kv \<in> set (all_held h {})"
proof -
  obtain c where c: "hget h a = Some c" "cbody c = BMap bs n" using assms(1) by (auto simp: deref_map_Ok_iff)
  have "fst kv \<in> set (concat (map (\<lambda>(k, v). [k, v]) xs)) \<and> snd kv \<in> set (concat (map (\<lambda>(k, v). [k, v]) xs))"
    if "kv \<in> set xs" for xs :: "(val \<times> val) list"
    using that by (induction xs) auto
  from this [OF assms(2)] have "fst kv \<in> set (held h {} a) \<and> snd kv \<in> set (held h {} a)"
    by (simp only: held_children [OF c(1)] c(2) children.simps)
  then show "fst kv \<in> set (all_held h {})" "snd kv \<in> set (all_held h {})"
    by (simp_all add: all_held_split [OF hget_Some_less [OF c(1)]])
qed

lemma rc_sound_null: "val_addr v = None \<Longrightarrow> rc_sound (v # R) h = rc_sound R h"
  by (simp add: rc_sound_def rc_inv_Cons_None)

lemma rc_sound_less:
  assumes "rc_sound R h" "mset R' \<subseteq># mset R"
  shows "rc_sound R' h"
proof -
  obtain X where "mset R = mset X + mset R'" using assms(2) by (metis ex_mset subset_mset.add_diff_inverse add.commute)
  then have "rc_sound (X @ R') h" using rc_sound_perm [OF assms(1), of "X @ R'"] by simp
  then show ?thesis unfolding rc_sound_def by (rule rc_inv_subset)
qed

lemma safe_release: "rc_sound (v # R) h \<Longrightarrow> safe (release_value v h) (\<lambda>h'. rc_sound R h' \<and> hsub h' h)"
  by (erule release_sound) simp

lemma safe_retain:
  "rc_sound R h \<Longrightarrow> v \<in> set R \<union> set (all_held h {}) \<Longrightarrow> safe (retain_value v h) (\<lambda>h'. rc_sound (v # R) h' \<and> hsub h' h)"
  by (erule (1) retain_sound) simp

lemma safe_incref:
  assumes "rc_sound R h" "v \<in> set R" "val_addr v = Some a"
  shows "safe (incref a h) (\<lambda>h'. rc_sound (v # R) h' \<and> hsub h' h)"
  using safe_retain [OF assms(1), of v] assms(2,3) by (simp add: retain_value_def)

lemma safe_val_array: "rc_sound R h \<Longrightarrow> VArr a \<in> set R \<Longrightarrow> safe (val_array a h) (\<lambda>(v, h'). rc_sound (v # R) h')"
  unfolding val_array_def by (rule safe_obind [OF safe_incref]) auto

lemma safe_val_map: "rc_sound R h \<Longrightarrow> VMap a \<in> set R \<Longrightarrow> safe (val_map a h) (\<lambda>(v, h'). rc_sound (v # R) h')"
  unfolding val_map_def by (rule safe_obind [OF safe_incref]) auto

lemma sound_new:
  "rc_sound R h \<Longrightarrow> val_str t h = (v, h') \<Longrightarrow> rc_sound (v # R) h'"
  "rc_sound R h \<Longrightarrow> rc_array_new h = (a, h') \<Longrightarrow> rc_sound (VArr a # R) h'"
  "rc_sound R h \<Longrightarrow> rc_map_new h = (a, h') \<Longrightarrow> rc_sound (VMap a # R) h'"
  by (simp_all add: new_string(1) new_array(1) new_map(1))

section \<open>Arrays\<close>

lemma safe_array_push:
  assumes inv: "rc_sound R h" and v: "v \<in> set R \<union> set (all_held h {})" and a: "VArr a \<in> set R"
  shows "safe (rc_array_push a v h) (\<lambda>h'. rc_sound R h' \<and> hext {a} h' h)"
proof -
  obtain xs cap where arr: "deref_arr h a = Ok (xs, cap)" using owned_cell(1) [OF inv a] by blast
  then obtain c where c: "hget h a = Some c" "cbody c = BArr xs cap" by (auto simp: deref_arr_Ok_iff)
  have "safe (retain_value v (setb h a (BArr (xs @ [v]) cap'))) (\<lambda>h'. rc_sound R h' \<and> hext {a} h' h)" for cap'
    by (rule store_sound [OF inv v c(1), of "BArr (xs @ [v]) cap'"]) (simp_all add: c(2) kind_ok_def hext_setb)
  then show ?thesis
    by (simp add: rc_array_push_def arr Let_def oguard_def hset_body_setb [OF c(1)])
qed

lemma safe_array_get:
  assumes "rc_sound R h" "VArr a \<in> set R"
  shows "safe (rc_array_get a i h) (\<lambda>v. v \<in> set (all_held h {}))"
proof -
  obtain xs cap where arr: "deref_arr h a = Ok (xs, cap)" using owned_cell(1) [OF assms] by blast
  then show ?thesis by (auto simp: rc_array_get_def intro!: held_elem [OF arr] nth_mem)
qed

lemma safe_array_set:
  assumes "rc_sound R h" "v \<in> set R" "VArr a \<in> set R"
  shows "safe (rc_array_set a i v h) (rc_sound R)"
proof -
  obtain xs cap where arr: "deref_arr h a = Ok (xs, cap)" using owned_cell(1) [OF assms(1,3)] by blast
  show ?thesis
  proof (cases "sint i < 0 \<or> int (length xs) \<le> sint i")
    case True
    then show ?thesis by (simp add: rc_array_set_def arr)
  next
    case False
    then have "0 \<le> sint i" "sint i < int (length xs)" by simp_all
    from rc_array_set_sound [OF assms arr this] show ?thesis by (metis safe_simps(1))
  qed
qed

section \<open>Maps with any keys\<close>

lemma tbl_push_nodes: "tbl_push hash kv bs = Ok bs' \<Longrightarrow> mset (concat bs') = add_mset kv (mset (concat bs))"
proof -
  assume "tbl_push hash kv bs = Ok bs'"
  then obtain i where i: "i < length bs" "bs' = bs[i := kv # bs ! i]"
    by (auto simp: tbl_push_def outcome_simps dest: tbl_index_less)
  from mset_concat_upd [OF i(1), of "kv # bs ! i"] i(2) show ?thesis by simp
qed

lemma ofold_push_nodes: "ofold (tbl_push hash) kvs t = Ok t' \<Longrightarrow> mset (concat t') = mset kvs + mset (concat t)"
proof (induction kvs arbitrary: t)
  case (Cons kv kvs)
  then obtain t1 where t1: "tbl_push hash kv t = Ok t1" "ofold (tbl_push hash) kvs t1 = Ok t'" by (auto simp: outcome_simps)
  from Cons.IH [OF t1(2)] tbl_push_nodes [OF t1(1)] show ?case by simp
qed simp

lemma tbl_resize_nodes: "tbl_resize hash bs = Ok bs' \<Longrightarrow> mset (concat bs') = mset (concat bs)"
  unfolding tbl_resize_def by (drule ofold_push_nodes) (simp only: concat_replicate_trivial mset.simps add_0_right)

lemma reads_resize: "(\<And>k. k \<in> fst ` set (concat bs) \<Longrightarrow> reads (hash k)) \<Longrightarrow> reads (tbl_resize hash bs)"
  unfolding tbl_resize_def tbl_push_def tbl_index_def
  by (rule safe_mono [OF safe_ofold [where P = "\<lambda>_. True"]]) (force intro!: reads_obind simp del: set_concat)+

lemma owned_map:
  assumes inv: "rc_sound R h" and a: "VMap a \<in> set R" and k: "k \<in> set R"
  obtains bs n c where "deref_map h a = Ok (bs, n)" "hget h a = Some c" "cbody c = BMap bs n"
    "reads (tbl_lookup (value_eq h) (hash_value h) bs k)" "\<forall>v. reads (tbl_put (value_eq h) (hash_value h) bs k v)"
    "reads (tbl_del (value_eq h) (hash_value h) bs k)" "\<forall>v. reads (tbl_push (hash_value h) (k, v) bs)"
    "reads (tbl_resize (hash_value h) bs)"
proof -
  obtain bs n where m: "deref_map h a = Ok (bs, n)" using owned_cell(2) [OF inv a] by blast
  then obtain c where "hget h a = Some c" "cbody c = BMap bs n" by (auto simp: deref_map_Ok_iff)
  note ok = rc_sound_heap_ok [OF inv] owned_ok [OF inv k]
  have key: "reads (value_eq h x k)" "reads (hash_value h x)" if "x \<in> fst ` set (concat bs)" for x
    using that child_map(1) [OF ok(1) m] reads_value_eq [OF ok(1) _ ok(2)] reads_values(4) [OF ok(1)]
    by (auto simp del: set_concat)
  show ?thesis
  proof (rule that [OF m \<open>hget h a = Some c\<close> \<open>cbody c = BMap bs n\<close>])
    note tables = reads_tables [of bs "value_eq h" k "hash_value h", OF key(1) reads_values(4) [OF ok]]
    show "reads (tbl_lookup (value_eq h) (hash_value h) bs k)" "reads (tbl_del (value_eq h) (hash_value h) bs k)"
      "\<forall>v. reads (tbl_put (value_eq h) (hash_value h) bs k v)" "\<forall>v. reads (tbl_push (hash_value h) (k, v) bs)"
      using tables by blast+
    show "reads (tbl_resize (hash_value h) bs)" by (rule reads_resize [OF key(2)])
  qed
qed

lemma safe_map_resize:
  assumes inv: "rc_sound R h" and a: "VMap a \<in> set R"
  shows "safe (rc_map_resize a h) (\<lambda>h'. rc_sound R h' \<and> hext {a} h' h)"
proof -
  obtain bs n c where m: "deref_map h a = Ok (bs, n)" "hget h a = Some c" "cbody c = BMap bs n"
      "reads (tbl_resize (hash_value h) bs)"
    by (rule owned_map [OF inv a a])
  have "rc_sound R (setb h a (BMap bs' n))" if r: "tbl_resize (hash_value h) bs = Ok bs'" for bs'
    by (rule rc_sound_setb [OF inv m(2)])
       (use children_map_cong [OF tbl_resize_nodes [OF r], of n n] in \<open>simp_all add: m(3) kind_ok_def\<close>)
  then show ?thesis
    unfolding rc_map_resize_def m(1) obind.simps prod.case
    by (auto intro!: reads_obind m(4) hext_setb [OF hsub_refl] simp: hset_body_setb [OF m(2)])
qed

lemma safe_map_overwrite:
  assumes inv: "rc_sound R h" and a: "VMap a \<in> set R" and v: "v \<in> set R"
    and c: "hget h a = Some c" "cbody c = BMap bs n"
    and put: "tbl_put (value_eq h) (hash_value h) bs k v = Ok (Some (old, bs'))"
  shows "safe (obind (release_value old h) (\<lambda>h1. obind (hset_body h1 a (BMap bs' n)) (\<lambda>h2. retain_value v h2)))
    (\<lambda>h'. rc_sound R h' \<and> hext {a} h' h)"
proof -
  obtain k0 M where M: "mset (concat bs) = add_mset (k0, old) M" "mset (concat bs') = add_mset (k0, v) M"
    by (rule tbl_put_nodes [OF put])
  obtain l where l: "mset l = M" by (metis ex_mset)
  let ?b = "BMap bs' n" and ?hole = "BMap [(k0, VNull) # l] n"
  let ?M = "add_mset k0 (sum_mset (image_mset node_refs M))"
  have old: "mset (children (cbody c)) = add_mset old ?M"
    and new: "mset (children ?b) = add_mset v ?M" and hole: "mset (children ?hole) = add_mset VNull ?M"
    unfolding c(2) children_map_mset M by (simp_all add: node_refs_def l)
  obtain h2 h' where h': "release_value old h = Ok h2" "hget h2 a \<noteq> None"
      "retain_value v (setb h2 a ?b) = Ok h'" "rc_sound R h'" "hsub h' (setb h a ?b)"
    by (rule overwrite_sound [OF inv v c(1) a _ old new hole]) (simp_all add: c(2) kind_ok_def)
  from h'(2) obtain c2 where "hget h2 a = Some c2" by auto
  with h' show ?thesis by (simp add: hset_body_setb hext_setb)
qed

lemma safe_map_put:
  assumes inv: "rc_sound R h" and a: "VMap a \<in> set R" and k: "k \<in> set R" and v: "v \<in> set R"
  shows "safe (rc_map_put a k v h) (\<lambda>h'. rc_sound R h' \<and> hext {a} h' h)"
proof -
  obtain bs n c where m: "deref_map h a = Ok (bs, n)" "hget h a = Some c" "cbody c = BMap bs n"
      "\<forall>v. reads (tbl_put (value_eq h) (hash_value h) bs k v)" "\<forall>v. reads (tbl_push (hash_value h) (k, v) bs)"
    by (rule owned_map [OF inv a k])
  have absent: "safe (obind (retain_value k h) (\<lambda>h1. obind (retain_value v h1) (\<lambda>h2.
        obind (tbl_push (hash_value h) (k, v) bs) (\<lambda>bs'. hset_body h2 a (BMap bs' (Suc n))))))
      (\<lambda>h'. rc_sound R h' \<and> hext {a} h' h)"
  proof (intro safe_obind [OF safe_retain [OF inv]] safe_obind [OF safe_retain] reads_obind spec [OF m(5)])
    fix h1 h2 bs'
    assume h1: "rc_sound (k # R) h1 \<and> hsub h1 h" and h2: "rc_sound (v # k # R) h2 \<and> hsub h2 h1"
      and bs': "tbl_push (hash_value h) (k, v) bs = Ok bs'"
    have sub: "hsub h2 h" using h1 h2 by (blast intro: hsub_trans)
    have "VMap a \<in> set (v # k # R)" using a by simp
    then obtain c2 where c2: "hget h2 a = Some c2" using rc_sound_live [of "v # k # R" h2 "VMap a" a] h2 by auto
    have c2b: "cbody c2 = BMap bs n" using hsub_body [OF sub c2] m by simp
    have nodes: "mset (children (BMap bs' (Suc n))) = {#k, v#} + mset (children (BMap bs n))"
      unfolding children_map_mset tbl_push_nodes [OF bs'] by (simp add: node_refs_def)
    have "rc_sound R (setb h2 a (BMap bs' (Suc n)))"
      using h2 nodes by (intro rc_sound_setb [of "v # k # R", OF _ c2]) (simp_all add: c2b kind_ok_def)
    then show "safe (hset_body h2 a (BMap bs' (Suc n))) (\<lambda>h'. rc_sound R h' \<and> hext {a} h' h)"
      using hext_setb [OF hsub_setb [OF sub]] by (simp add: hset_body_setb [OF c2])
  qed (use k v in auto)
  show ?thesis
    unfolding rc_map_put_def m(1) obind.simps prod.case
  proof (rule reads_obind [OF spec [OF m(4)]])
    fix r assume "tbl_put (value_eq h) (hash_value h) bs k v = Ok r"
    then show "safe (case r of Some (old, bs') \<Rightarrow>
        obind (release_value old h) (\<lambda>h1. obind (hset_body h1 a (BMap bs' n)) (\<lambda>h2. retain_value v h2))
      | None \<Rightarrow> obind (retain_value k h) (\<lambda>h1. obind (retain_value v h1) (\<lambda>h2.
          obind (tbl_push (hash_value h) (k, v) bs) (\<lambda>bs'. hset_body h2 a (BMap bs' (Suc n))))))
        (\<lambda>h'. rc_sound R h' \<and> hext {a} h' h)"
      using absent safe_map_overwrite [OF inv a v m(2,3)] by (auto split: option.split)
  qed
qed

lemma safe_map_set:
  assumes inv: "rc_sound R h" and a: "VMap a \<in> set R" and k: "k \<in> set R" and v: "v \<in> set R"
  shows "safe (rc_map_set a k v h) (\<lambda>h'. rc_sound R h' \<and> hext {a} h' h)"
proof -
  obtain bs n where m: "deref_map h a = Ok (bs, n)" using owned_cell(2) [OF inv a] by blast
  show ?thesis
    unfolding rc_map_set_def m obind.simps prod.case
  proof (rule safe_obind [where P = "\<lambda>h0. rc_sound R h0 \<and> hext {a} h0 h"])
    show "safe (if 3 * length bs \<le> 4 * n then rc_map_resize a h else Ok h) (\<lambda>h0. rc_sound R h0 \<and> hext {a} h0 h)"
      using safe_map_resize [OF inv a] inv by simp
    fix h0 assume h0: "rc_sound R h0 \<and> hext {a} h0 h"
    then show "safe (rc_map_put a k v h0) (\<lambda>h'. rc_sound R h' \<and> hext {a} h' h)"
      by (intro safe_mono [OF safe_map_put [OF _ a k v]]) (auto intro: hext_trans)
  qed
qed

lemma bucket_lookup_mem: "bucket_lookup eq k b = Ok (Some v) \<Longrightarrow> v \<in> snd ` set b"
  by (induction eq k b rule: bucket_lookup.induct) (force simp: outcome_simps split: if_splits)+

lemma safe_map_lookup:
  assumes "rc_sound R h" "VMap a \<in> set R" "k \<in> set R"
  shows "safe (rc_map_get a k h) (\<lambda>v. v = VNull \<or> v \<in> set (all_held h {}))" "reads (rc_map_has a k h)"
proof -
  obtain bs n c where m: "deref_map h a = Ok (bs, n)" "hget h a = Some c" "cbody c = BMap bs n"
      "reads (tbl_lookup (value_eq h) (hash_value h) bs k)"
    by (rule owned_map [OF assms])
  have mem: "v \<in> set (all_held h {})" if "tbl_lookup (value_eq h) (hash_value h) bs k = Ok (Some v)" for v
  proof -
    from that obtain i where i: "i < length bs" "bucket_lookup (value_eq h) k (bs ! i) = Ok (Some v)"
      by (auto simp: tbl_lookup_def outcome_simps dest: tbl_index_less)
    from bucket_lookup_mem [OF i(2)] obtain kv where "kv \<in> set (bs ! i)" "v = snd kv" by blast
    with i(1) held_entry(2) [OF m(1), of kv] show ?thesis by (metis UN_I nth_mem set_concat)
  qed
  show "safe (rc_map_get a k h) (\<lambda>v. v = VNull \<or> v \<in> set (all_held h {}))" "reads (rc_map_has a k h)"
    unfolding rc_map_get_def rc_map_has_def m(1) obind.simps prod.case
    by (auto intro!: reads_obind m(4) mem split: option.split)
qed

lemma safe_map_remove:
  assumes inv: "rc_sound R h" and a: "VMap a \<in> set R" and k: "k \<in> set R"
  shows "safe (rc_map_remove a k h) (rc_sound R)"
proof -
  obtain bs n c where m: "deref_map h a = Ok (bs, n)" "hget h a = Some c" "cbody c = BMap bs n"
      "reads (tbl_del (value_eq h) (hash_value h) bs k)"
    by (rule owned_map [OF inv a k])
  have present: "safe (obind (hset_body h a (BMap bs' n)) (\<lambda>h1. obind (release_value k' h1) (\<lambda>h2.
        obind (release_value v h2) (\<lambda>h3. hset_body h3 a (BMap bs' (n - 1)))))) (rc_sound R)"
    if d: "tbl_del (value_eq h) (hash_value h) bs k = Ok (Some ((k', v), bs'))" for k' v bs'
  proof -
    have nodes: "mset (children (cbody c)) = {#k', v#} + mset (children (BMap bs' n))"
      unfolding m(3) children_map_mset tbl_del_nodes [OF d] by (simp add: node_refs_def)
    have "rc_sound (k' # v # R) (setb h a (BMap bs' n))"
      by (rule rc_sound_setb [OF inv m(2)]) (use nodes in \<open>simp_all add: m(3) kind_ok_def\<close>)
    then show ?thesis
      unfolding hset_body_setb [OF m(2)] obind.simps
    proof (intro safe_obind [OF safe_release] safe_obind [OF safe_release [of v R]])
      fix h2 h3 assume h2: "rc_sound (v # R) h2 \<and> hsub h2 (setb h a (BMap bs' n))" and h3: "rc_sound R h3 \<and> hsub h3 h2"
      obtain c3 where c3: "hget h3 a = Some c3" using rc_sound_live [of R h3 "VMap a" a] h3 a by auto
      have "hsub h3 (setb h a (BMap bs' n))" using h2 h3 by (blast intro: hsub_trans)
      from hsub_body [OF this c3] m(2) have "cbody c3 = BMap bs' n" by simp
      with h3 show "safe (hset_body h3 a (BMap bs' (n - 1))) (rc_sound R)"
        by (auto simp: hset_body_setb [OF c3] kind_ok_def intro!: rc_sound_setb [OF _ c3])
    qed auto
  qed
  show ?thesis
    unfolding rc_map_remove_def m(1) obind.simps prod.case
    by (rule reads_obind [OF m(4)]) (use inv present in \<open>auto split: option.split\<close>)
qed

section \<open>Sorted keys, indexing and operators\<close>

lemma safe_keys_sorted:
  assumes inv: "rc_sound R h" and a: "VMap a \<in> set R"
  shows "safe (rc_map_keys_sorted a h) (\<lambda>(arr, h'). rc_sound (VArr arr # R) h')"
proof -
  obtain arr h0 where new: "rc_array_new h = (arr, h0)" by fastforce
  note inv0 = sound_new(2) [OF inv new]
  have a0: "VMap a \<in> set (VArr arr # R)" using a by simp
  obtain bs n where m: "deref_map h0 a = Ok (bs, n)" using owned_cell(2) [OF inv0 a0] by blast
  have ne: "a \<noteq> arr" using m new_array(3) [OF inv new] by (auto simp: deref_map_Ok_iff deref_arr_Ok_iff)
  let ?f = "\<lambda>(k, x :: val). obind (value_to_string h0 k) (\<lambda>s. Ok (s, k))"
  have "safe (?f p) (\<lambda>q. snd q \<in> fst ` set (concat bs))" if p: "p \<in> set (concat bs)" for p
  proof -
    have "reads (value_to_string h0 (fst p))"
      by (rule reads_values(1) [OF rc_sound_heap_ok [OF inv0] child_map(1) [OF rc_sound_heap_ok [OF inv0] m p]])
    then show ?thesis unfolding case_prod_beta
      by (rule reads_obind) (simp only: safe_simps snd_conv imageI [OF p])
  qed
  then have keys: "safe (omap ?f (concat bs)) (list_all (\<lambda>q. snd q \<in> fst ` set (concat bs)))" by (rule safe_omap)
  have push: "safe (ofold (\<lambda>(s, k). rc_array_push arr k) (sort_pairs ps) h0)
      (\<lambda>h'. rc_sound (VArr arr # R) h' \<and> deref_map h' a = Ok (bs, n))"
    if ps: "list_all (\<lambda>q. snd q \<in> fst ` set (concat bs)) ps" for ps :: "(string \<times> val) list"
  proof (rule safe_ofold)
    fix q h1 assume q: "q \<in> set (sort_pairs ps)" and h1: "rc_sound (VArr arr # R) h1 \<and> deref_map h1 a = Ok (bs, n)"
    obtain s k where sk: "q = (s, k)" by (cases q)
    have "q \<in> set ps" using q by (simp add: sort_pairs_def)
    with ps have "snd q \<in> fst ` set (concat bs)" by (simp add: list_all_iff del: set_concat)
    then have "k \<in> set (all_held h1 {})" using held_entry(1) [of h1 a bs n] h1 unfolding sk snd_conv by blast
    with h1 have "safe (rc_array_push arr k h1) (\<lambda>h'. rc_sound (VArr arr # R) h' \<and> hext {arr} h' h1)"
      by (intro safe_array_push) auto
    then show "safe ((\<lambda>(s, k). rc_array_push arr k) q h1) (\<lambda>h'. rc_sound (VArr arr # R) h' \<and> deref_map h' a = Ok (bs, n))"
      unfolding sk prod.case using h1 ne a0 by (elim safe_mono) (auto intro: hext_map)
  qed (use inv0 m in simp)
  show ?thesis
    unfolding rc_map_keys_sorted_def new Let_def prod.case m obind.simps
  proof (rule safe_obind [OF keys])
    fix ps :: "(string \<times> val) list" assume "list_all (\<lambda>q. snd q \<in> fst ` set (concat bs)) ps"
    from push [OF this]
    show "safe (obind (oguard (length ps \<le> n) BufferOverflow) (\<lambda>_.
        obind (ofold (\<lambda>(s, k). rc_array_push arr k) (sort_pairs ps) h0) (\<lambda>h1. Ok (arr, h1))))
        (\<lambda>(arr, h'). rc_sound (VArr arr # R) h')"
      by (intro safe_guarded(1)) (auto elim!: safe_obind)
  qed
qed

lemma safe_retained:
  assumes "rc_sound R h" "v = VNull \<or> v \<in> set (all_held h {})"
  shows "safe (obind (retain_value v h) (\<lambda>h'. Ok (v, h'))) (\<lambda>(v, h'). rc_sound (v # R) h')"
proof (cases "v = VNull")
  case True
  with assms(1) show ?thesis by (simp add: retain_value_def rc_sound_null)
next
  case False
  with assms have "safe (retain_value v h) (\<lambda>h'. rc_sound (v # R) h' \<and> hsub h' h)" by (intro safe_retain) auto
  then show ?thesis by (rule safe_obind) simp
qed

lemma safe_index_get:
  assumes inv: "rc_sound R h" and R: "cont \<in> set R" "key \<in> set R"
  shows "safe (index_get cont key h) (\<lambda>(v, h'). rc_sound (v # R) h')"
proof (cases cont)
  case (VArr a)
  have "VArr a \<in> set R" using R(1) VArr by simp
  then show ?thesis unfolding index_get_def VArr val.case
    by (intro reads_obind [OF reads_as_i(1)] safe_obind [OF safe_array_get [OF inv]] safe_retained [OF inv]) auto
next
  case (VMap a)
  have "VMap a \<in> set R" using R(1) VMap by simp
  then show ?thesis unfolding index_get_def VMap val.case
    by (intro safe_obind [OF safe_map_lookup(1) [OF inv _ R(2)]] safe_retained [OF inv])
next
  case (VStr a)
  with owned_cell(3) [OF inv R(1)] obtain s where "deref_str h a = Ok s" by auto
  then show ?thesis
    by (auto simp: index_get_def VStr intro!: reads_obind sound_new(1) [OF inv])
qed (simp_all add: index_get_def)

lemma safe_index_set:
  assumes inv: "rc_sound R h" and R: "cont \<in> set R" "key \<in> set R" "v \<in> set R"
  shows "safe (index_set cont key v h) (rc_sound R)"
proof (cases cont)
  case (VArr a)
  with R safe_array_set [OF inv R(3)] show ?thesis by (auto simp: index_set_def intro!: reads_obind)
next
  case (VMap a)
  with R show ?thesis by (auto simp: index_set_def intro: safe_mono [OF safe_map_set [OF inv _ R(2,3)]])
qed (simp_all add: index_set_def)

lemma safe_if: "(b \<Longrightarrow> safe m Q) \<Longrightarrow> (\<not> b \<Longrightarrow> safe m' Q) \<Longrightarrow> safe (if b then m else m') Q"
  by simp

lemma reads_c_ops: "reads (c_div i j)" "reads (c_mod i j)" "reads (c_shl i j)" "reads (c_shr i j)"
  unfolding c_div_def c_mod_def c_shl_def c_shr_def by (auto intro!: safe_guarded)

lemma safe_ovf_result: "safe (ovf_result r t) (\<lambda>v. val_addr v = None)"
  by (simp add: ovf_result_def split: option.split)

lemma safe_int_op: "safe (int_op x i j) (\<lambda>v. val_addr v = None)"
  unfolding int_op_def by (intro safe_if safe_ovf_result reads_obind reads_c_ops) simp_all

lemma op_results: "str_op x c = Some v \<Longrightarrow> val_addr v = None" "float_op x f g = Some v \<Longrightarrow> val_addr v = None"
  by (auto simp: str_op_def float_op_def split: if_splits)

lemma safe_bin_op:
  assumes inv: "rc_sound R h" and R: "a \<in> set R" "b \<in> set R"
  shows "safe (bin_op x a b h) (\<lambda>(v, h'). rc_sound (v # R) h')"
proof -
  note ok = rc_sound_heap_ok [OF inv]
  note texts = reads_values(1) [OF ok owned_ok [OF inv R(1)]] reads_values(1) [OF ok owned_ok [OF inv R(2)]]
  have concat: "safe (str_concat a b h) (\<lambda>(v, h'). rc_sound (v # R) h')"
    unfolding str_concat_def by (auto intro!: reads_obind texts sound_new(1) [OF inv])
  have eq: "reads (value_eq h a b)" by (rule reads_value_eq [OF ok owned_ok [OF inv R(1)] owned_ok [OF inv R(2)]])
  let ?none = "\<lambda>r. \<forall>v. r = Some v \<longrightarrow> val_addr v = None"
  have str: "safe (if is_str a \<or> is_str b then obind (value_to_string h a) (\<lambda>sa. obind (value_to_string h b) (\<lambda>sb.
        Ok (str_op x (strcmp sa sb)))) else Ok None) ?none"
    by (auto intro!: reads_obind texts dest: op_results(1))
  have num: "safe (if r = None \<and> (is_float a \<or> is_float b) then obind (value_as_float a) (\<lambda>f. obind (value_as_float b) (\<lambda>g.
        Ok (float_op x f g))) else Ok r) ?none" if "?none r" for r
    using that by (auto intro!: reads_obind dest: op_results(2))
  have int: "safe (case r of Some v \<Rightarrow> Ok (v, h)
      | None \<Rightarrow> obind (as_i a) (\<lambda>i. obind (as_i b) (\<lambda>j. obind (int_op x i j) (\<lambda>v. Ok (v, h)))))
      (\<lambda>(v, h'). rc_sound (v # R) h')" if "?none r" for r
    using that inv
    by (auto simp: rc_sound_null intro!: reads_obind safe_obind [OF safe_int_op] split: option.split)
  show ?thesis
    unfolding bin_op_def
  proof (intro safe_if concat safe_obind [OF str])
    show "safe (obind (value_eq h a b) (\<lambda>e. Ok (VBool (if x = opNE then \<not> e else e), h))) (\<lambda>(v, h'). rc_sound (v # R) h')"
      by (rule reads_obind [OF eq]) (simp add: rc_sound_null inv)
    fix r1 assume "?none r1"
    then show "safe (obind (if r1 = None \<and> (is_float a \<or> is_float b)
            then obind (value_as_float a) (\<lambda>x'. obind (value_as_float b) (\<lambda>y. Ok (float_op x x' y))) else Ok r1)
          (\<lambda>r2. case r2 of Some v \<Rightarrow> Ok (v, h)
             | None \<Rightarrow> obind (as_i a) (\<lambda>i. obind (as_i b) (\<lambda>j. obind (int_op x i j) (\<lambda>v. Ok (v, h))))))
        (\<lambda>(v, h'). rc_sound (v # R) h')"
      by (intro safe_obind [OF num] int)
  qed
qed

end
