(* ===== verification/MemorySafety.thy ===== *)
theory MemorySafety
  imports Ownership Execution
begin

text \<open>
  The engine never touches a freed object. \<open>roots\<close> are the references the engine itself holds: the value
  stack, the locals of the active frames, the globals and the constants. Every instruction keeps the
  ownership invariant of the heap for these roots, as long as the slots it names lie inside the frame
  (\<open>in_scope\<close>): the engine does not check them, and a slot behind the frame still shows the values of a
  finished call.
\<close>

section \<open>The references of the engine\<close>

definition frame_vals :: "vm \<Rightarrow> frame \<Rightarrow> val list" where
  "frame_vals s f = map (v_locals s) [fr_base f..<fr_base f + fr_nlocals f]"

definition roots :: "program \<Rightarrow> vm \<Rightarrow> val list" where
  "roots p s = v_stk s @ concat (map (frame_vals s) (v_frames s)) @ v_globals s @ p_consts p"

definition owns :: "program \<Rightarrow> val list \<Rightarrow> vm \<Rightarrow> bool" where
  \<comment> \<open>the roots, and the references in \<open>vs\<close> an instruction has in its hands\<close>
  "owns p vs s \<longleftrightarrow> rc_sound (vs @ roots p s) (the_heap s)"

definition alike :: "vm \<Rightarrow> vm \<Rightarrow> bool" where
  \<comment> \<open>everything but the program counter and the runtime\<close>
  "alike s s' \<longleftrightarrow> v_stk s' = v_stk s \<and> v_locals s' = v_locals s \<and> v_frames s' = v_frames s \<and>
     v_handlers s' = v_handlers s \<and> v_globals s' = v_globals s"

lemma alike_refl [simp]: "alike s s"
  by (simp add: alike_def)

lemma alike_trans: "alike s s' \<Longrightarrow> alike s' s'' \<Longrightarrow> alike s s''"
  by (simp add: alike_def)

lemma roots_alike: "alike s s' \<Longrightarrow> roots p s' = roots p s"
  by (simp add: alike_def roots_def frame_vals_def [abs_def])

lemma owns_alike: "alike s s' \<Longrightarrow> the_heap s' = the_heap s \<Longrightarrow> owns p vs s' = owns p vs s"
  by (simp add: owns_def roots_alike)

lemma owns_move:
  assumes "owns p vs s" "mset (vs' @ roots p s') \<subseteq># mset (vs @ roots p s)" "the_heap s' = the_heap s"
  shows "owns p vs' s'"
  using rc_sound_less [OF assms(1) [unfolded owns_def] assms(2)] assms(3) by (simp add: owns_def)

lemma owns_less: "owns p vs s \<Longrightarrow> mset vs' \<subseteq># mset vs \<Longrightarrow> owns p vs' s"
  by (erule owns_move) simp_all

lemma owns_null: "val_addr v = None \<Longrightarrow> owns p (v # vs) s = owns p vs s"
  by (simp add: owns_def rc_sound_null)

lemma owns_pop: "owns p vs s \<Longrightarrow> v_stk s = v # st \<Longrightarrow> owns p (v # vs) (s\<lparr>v_stk := st\<rparr>)"
  by (erule owns_move) (simp_all add: roots_def frame_vals_def [abs_def] the_heap_def)

lemma owns_push: "owns p (v # vs) s \<Longrightarrow> owns p vs (push v s)"
  by (erule owns_move) (simp_all add: roots_def frame_vals_def [abs_def] the_heap_def push_def)

lemma owns_push_plain: "owns p vs s \<Longrightarrow> val_addr v = None \<Longrightarrow> owns p vs (push v s)"
  by (rule owns_push) (simp add: owns_null)

lemma owns_push_back: "owns p vs (push v s) \<Longrightarrow> owns p (v # vs) s"
  by (erule owns_move) (simp_all add: roots_def frame_vals_def [abs_def] the_heap_def push_def)

lemma owns_drop: "owns p (v # vs) s \<Longrightarrow> owns p vs s"
  by (erule owns_less) simp

lemma owns_second: "owns p (v # w # vs) s \<Longrightarrow> owns p (v # vs) s"
  by (erule owns_less) simp

lemma owns_ok: "owns p vs s \<Longrightarrow> v \<in> set vs \<union> set (roots p s) \<Longrightarrow> val_ok (the_heap s) v"
  unfolding owns_def by (erule owned_ok) simp

lemma owns_heap_ok: "owns p vs s \<Longrightarrow> heap_ok (the_heap s)"
  unfolding owns_def by (rule rc_sound_heap_ok)

section \<open>What the engine does with references\<close>

lemma safe_pop: "(\<And>v st. v_stk s = v # st \<Longrightarrow> safe (f (v, s\<lparr>v_stk := st\<rparr>)) Q) \<Longrightarrow> safe (obind (pop s) f) Q"
  by (auto simp: pop_def split: list.split)

lemma safe_popn:
  "(\<And>vs st. v_stk s = rev vs @ st \<Longrightarrow> length vs = n \<Longrightarrow> safe (f (vs, s\<lparr>v_stk := st\<rparr>)) Q) \<Longrightarrow> safe (obind (popn n s) f) Q"
  by (auto simp: popn_def oguard_def)

lemma owns_popn: "owns p us s \<Longrightarrow> v_stk s = rev vs @ st \<Longrightarrow> owns p (vs @ us) (s\<lparr>v_stk := st\<rparr>)"
  by (erule owns_move) (simp_all add: roots_def frame_vals_def [abs_def] the_heap_def)

lemma safe_top:
  "(\<And>v st. v_stk s = v # st \<Longrightarrow> safe (f (v, \<lambda>w s. s\<lparr>v_stk := w # tl (v_stk s)\<rparr>)) Q) \<Longrightarrow> safe (obind (top_slot s) f) Q"
  by (auto simp: top_slot_def split: list.split)

lemma safe_top_frame: "(\<And>f fs. v_frames s = f # fs \<Longrightarrow> safe (g f) Q) \<Longrightarrow> safe (obind (top_frame s) g) Q"
  by (auto simp: top_frame_def split: list.split)

lemma safe_get_local: "(int i < 65536 \<Longrightarrow> safe (g (v_locals s i)) Q) \<Longrightarrow> safe (obind (get_local i s) g) Q"
  by (auto simp: get_local_def oguard_def)

lemma safe_set_local: "safe (set_local i v s) (\<lambda>s'. s' = s\<lparr>v_locals := (v_locals s)(i := v)\<rparr>)"
  by (auto simp: set_local_def oguard_def)

lemma safe_fetch: "reads (fetch CodeRange bs i)"
  by (simp add: fetch_def)

lemma safe_next:
  "safe (next8 p s) (\<lambda>(b, s'). alike s s' \<and> v_rt s' = v_rt s)"
  "safe (next16 p s) (\<lambda>(b, s'). alike s s' \<and> v_rt s' = v_rt s)"
  "safe (next_i32 p s) (\<lambda>(b, s'). alike s s' \<and> v_rt s' = v_rt s)"
proof -
  have "reads (read_u16 CodeRange bs i)" "reads (read_i32 CodeRange bs i)" "reads (c_int32 j)" for bs i j
    by (auto simp: read_u16_def read_i32_def read_u32_def c_int32_def intro!: reads_obind safe_fetch)
  then show "safe (next8 p s) (\<lambda>(b, s'). alike s s' \<and> v_rt s' = v_rt s)"
    "safe (next16 p s) (\<lambda>(b, s'). alike s s' \<and> v_rt s' = v_rt s)"
    "safe (next_i32 p s) (\<lambda>(b, s'). alike s s' \<and> v_rt s' = v_rt s)"
    by (auto simp: next8_def next16_def next_i32_def alike_def intro!: reads_obind safe_fetch)
qed

lemma safe_operand:
  assumes "safe m (\<lambda>(b, s'). alike s s' \<and> v_rt s' = v_rt s)" "owns p vs s"
    "\<And>b s'. m = Ok (b, s') \<Longrightarrow> alike s s' \<Longrightarrow> owns p vs s' \<Longrightarrow> safe (f (b, s')) Q"
  shows "safe (obind m f) Q"
  by (rule safe_obind [OF assms(1)]) (use assms(2,3) in \<open>auto simp: owns_alike the_heap_def\<close>)

lemma safe_on_heap:
  assumes "safe (f (the_heap s)) (\<lambda>h. rc_sound (vs @ roots p s) h)"
  shows "safe (on_heap f s) (\<lambda>s'. owns p vs s' \<and> alike s s')"
proof -
  have "owns p vs (s\<lparr>v_rt := (v_rt s)\<lparr>heap := h\<rparr>\<rparr>) \<and> alike s (s\<lparr>v_rt := (v_rt s)\<lparr>heap := h\<rparr>\<rparr>)"
    if "rc_sound (vs @ roots p s) h" for h
    using that by (simp add: owns_def roots_def frame_vals_def [abs_def] the_heap_def alike_def)
  with assms show ?thesis
    by (auto simp: on_heap_def with_heap_def the_heap_def intro!: safe_obind elim!: safe_obind)
qed

lemma safe_on_heap_val:
  assumes "safe (f (the_heap s)) (\<lambda>(v, h). rc_sound (g v @ roots p s) h)"
  shows "safe (on_heap_val f s) (\<lambda>(v, s'). owns p (g v) s' \<and> alike s s')"
proof -
  have "owns p (g v) (s\<lparr>v_rt := (v_rt s)\<lparr>heap := h\<rparr>\<rparr>) \<and> alike s (s\<lparr>v_rt := (v_rt s)\<lparr>heap := h\<rparr>\<rparr>)"
    if "rc_sound (g v @ roots p s) h" for h v
    using that by (simp add: owns_def roots_def frame_vals_def [abs_def] the_heap_def alike_def)
  with assms show ?thesis
    by (auto simp: on_heap_val_def with_heap_val_def the_heap_def intro!: safe_obind elim!: safe_obind)
qed

lemma release_raw:
  assumes "rc_sound (v # R) (the_heap s)"
  shows "safe (release v s) (\<lambda>s'. rc_sound R (the_heap s') \<and> alike s s')"
  using safe_release [OF assms]
  by (auto simp: release_def on_heap_def with_heap_def the_heap_def alike_def elim!: safe_obind)

lemma safe_release_vm: "owns p (v # vs) s \<Longrightarrow> safe (release v s) (\<lambda>s'. owns p vs s' \<and> alike s s')"
  unfolding owns_def append_Cons by (rule safe_mono [OF release_raw]) (auto simp: roots_alike)

lemma safe_retain_vm:
  assumes "owns p vs s" "v \<in> set vs \<union> set (roots p s) \<union> set (all_held (the_heap s) {})"
  shows "safe (retain v s) (\<lambda>s'. owns p (v # vs) s' \<and> alike s s')"
  unfolding retain_def
  by (rule safe_on_heap, rule safe_mono [OF safe_retain [OF assms(1) [unfolded owns_def]]]) (use assms(2) in auto)


lemma safe_next_vm: "safe m P \<Longrightarrow> safe (next_vm m) (\<lambda>r. \<exists>s. r = Next s \<and> P s)"
  unfolding next_vm_def by (rule safe_obind) auto

lemma owns_swap: "owns p (a # b # vs) s = owns p (b # a # vs) s"
  by (auto elim!: owns_less)

lemma owns_set_top:
  "owns p (w # vs) (s\<lparr>v_stk := st\<rparr>) \<Longrightarrow> owns p vs (s\<lparr>v_stk := w # st\<rparr>)"
  by (erule owns_move) (simp_all add: roots_def frame_vals_def [abs_def] the_heap_def)

lemma alike_stk: "alike s s' \<Longrightarrow> alike (s\<lparr>v_stk := st\<rparr>) (s'\<lparr>v_stk := st\<rparr>)"
  by (simp add: alike_def)


text \<open>One step of the engine's plumbing, with what is owned afterwards as the rest's hypothesis.\<close>

lemma own_pop:
  assumes "owns p vs s" "\<And>v st. v_stk s = v # st \<Longrightarrow> owns p (v # vs) (s\<lparr>v_stk := st\<rparr>) \<Longrightarrow> safe (f (v, s\<lparr>v_stk := st\<rparr>)) Q"
  shows "safe (obind (pop s) f) Q"
  by (rule safe_pop) (rule assms(2), assumption, rule owns_pop [OF assms(1)])

lemma own_popn:
  assumes "owns p us s"
    "\<And>vs st. v_stk s = rev vs @ st \<Longrightarrow> length vs = n \<Longrightarrow> owns p (vs @ us) (s\<lparr>v_stk := st\<rparr>) \<Longrightarrow> safe (f (vs, s\<lparr>v_stk := st\<rparr>)) Q"
  shows "safe (obind (popn n s) f) Q"
  by (rule safe_popn) (rule assms(2), assumption+, rule owns_popn [OF assms(1)])

lemma own_release:
  assumes "owns p (v # vs) s" "\<And>s'. alike s s' \<Longrightarrow> owns p vs s' \<Longrightarrow> safe (f s') Q"
  shows "safe (obind (release v s) f) Q"
  by (rule safe_obind [OF safe_release_vm [OF assms(1)]]) (use assms(2) in blast)

lemma own_release_last: "owns p (v # vs) s \<Longrightarrow> safe (release v s) (owns p vs)"
  by (erule safe_mono [OF safe_release_vm]) blast

lemma own_retain:
  assumes "owns p vs s" "v \<in> set vs \<union> set (roots p s) \<union> set (all_held (the_heap s) {})"
    "\<And>s'. alike s s' \<Longrightarrow> owns p (v # vs) s' \<Longrightarrow> safe (f s') Q"
  shows "safe (obind (retain v s) f) Q"
  by (rule safe_obind [OF safe_retain_vm [OF assms(1,2)]]) (use assms(3) in blast)

lemma own_heap_val:
  assumes "safe (h (the_heap s)) (\<lambda>(v, h'). rc_sound (g v @ roots p s) h')"
    "\<And>v s'. alike s s' \<Longrightarrow> owns p (g v) s' \<Longrightarrow> safe (f (v, s')) Q"
  shows "safe (obind (on_heap_val h s) f) Q"
  by (rule safe_obind [OF safe_on_heap_val [where f = h and g = g and s = s, OF assms(1)]]) (use assms(2) in auto)

lemma own_heap:
  assumes "safe (h (the_heap s)) (rc_sound (vs @ roots p s))"
    "\<And>s'. alike s s' \<Longrightarrow> owns p vs s' \<Longrightarrow> safe (f s') Q"
  shows "safe (obind (on_heap h s) f) Q"
  by (rule safe_obind [OF safe_on_heap [where f = h and vs = vs and s = s, OF assms(1)]]) (use assms(2) in blast)

lemma ownsD: "owns p vs s \<Longrightarrow> rc_sound (vs @ roots p s) (the_heap s)"
  by (simp add: owns_def)

section \<open>Stack instructions\<close>

lemma safe_op_POP: "owns p vs s \<Longrightarrow> safe (op_POP s) (owns p vs)"
  unfolding op_POP_def by (erule own_pop) (simp add: own_release_last)

lemma safe_op_COALESCE: "owns p vs s \<Longrightarrow> safe (op_COALESCE s) (owns p vs)"
  unfolding op_COALESCE_def
proof (erule own_pop, unfold prod.case, erule own_pop, unfold prod.case, intro safe_if own_release_last owns_push)
  fix b st a st2 assume o: "owns p (a # b # vs) (s\<lparr>v_stk := st, v_stk := st2\<rparr>)"
  then show "owns p (b # a # vs) (s\<lparr>v_stk := st, v_stk := st2\<rparr>)" by (simp only: owns_swap [of p b])
  show "owns p (a # b # vs) (s\<lparr>v_stk := st, v_stk := st2\<rparr>)" by fact
qed

lemma safe_op_BIN: "owns p vs s \<Longrightarrow> safe (op_BIN x s) (owns p vs)"
  unfolding op_BIN_def
proof (erule own_pop, unfold prod.case, erule own_pop, unfold prod.case)
  fix b st a st2 let ?s = "s\<lparr>v_stk := st, v_stk := st2\<rparr>"
  assume o: "owns p (a # b # vs) ?s"
  show "safe (obind (on_heap_val (bin_op x a b) ?s)
      (\<lambda>(res, s3). obind (release a (push res s3)) (release b))) (owns p vs)"
  proof (rule own_heap_val [where g = "\<lambda>v. v # a # b # vs"], unfold prod.case)
    show "safe (bin_op x a b (the_heap ?s)) (\<lambda>(v, h'). rc_sound ((v # a # b # vs) @ roots p ?s) h')"
      using safe_bin_op [OF ownsD [OF o]] by simp
  qed (intro own_release [where vs = "b # vs"] own_release_last owns_push)
qed


lemma own_top:
  assumes "owns p vs s"
    "\<And>v st. v_stk s = v # st \<Longrightarrow> owns p (v # vs) (s\<lparr>v_stk := st\<rparr>) \<Longrightarrow> val_ok (the_heap s) v \<Longrightarrow>
      safe (f (v, \<lambda>w s. s\<lparr>v_stk := w # tl (v_stk s)\<rparr>)) Q"
  shows "safe (obind (top_slot s) f) Q"
proof (rule safe_top)
  fix v st assume stk: "v_stk s = v # st"
  show "safe (f (v, \<lambda>w s. s\<lparr>v_stk := w # tl (v_stk s)\<rparr>)) Q"
    by (rule assms(2) [OF stk owns_pop [OF assms(1) stk]]) (rule owns_ok [OF assms(1)], simp add: roots_def stk)
qed

text \<open>Releasing the top slot in place and overwriting it: as if it were popped first.\<close>

lemma release_stk:
  "release v (s\<lparr>v_stk := st\<rparr>) = obind (release v s) (\<lambda>s'. Ok (s'\<lparr>v_stk := st\<rparr>))"
  by (cases "release_value v (heap (v_rt s))") (simp_all add: release_def on_heap_def with_heap_def)

lemma own_release_top:
  assumes "owns p (v # vs) (s\<lparr>v_stk := st\<rparr>)" "v_stk s = v # st"
    "\<And>s'. v_stk s' = v # st \<Longrightarrow> v_frames s' = v_frames s \<Longrightarrow> owns p vs (s'\<lparr>v_stk := st\<rparr>) \<Longrightarrow> safe (f s') Q"
  shows "safe (obind (release v s) f) Q"
proof -
  have "safe (release v (s\<lparr>v_stk := st\<rparr>)) (\<lambda>s'. owns p vs s' \<and> alike (s\<lparr>v_stk := st\<rparr>) s')"
    by (rule safe_release_vm [OF assms(1)])
  then have "safe (release v s) (\<lambda>s'. owns p vs (s'\<lparr>v_stk := st\<rparr>))"
    by (cases "release v s") (simp_all add: release_stk)
  then show ?thesis
    by (rule safe_obind) (use assms(2,3) in \<open>auto dest!: same_dests\<close>)
qed

lemma own_heap_val_top:
  assumes "safe (h (the_heap s)) (\<lambda>(v, h'). rc_sound (g v @ roots p (s\<lparr>v_stk := st\<rparr>)) h')"
    "\<And>v s'. v_stk s' = v_stk s \<Longrightarrow> owns p (g v) (s'\<lparr>v_stk := st\<rparr>) \<Longrightarrow> safe (f (v, s')) Q"
  shows "safe (obind (on_heap_val h s) f) Q"
proof -
  have "the_heap (s\<lparr>v_stk := st\<rparr>) = the_heap s" by (simp add: the_heap_def)
  with assms(1) have *: "safe (on_heap_val h (s\<lparr>v_stk := st\<rparr>)) (\<lambda>(v, s'). owns p (g v) s' \<and> alike (s\<lparr>v_stk := st\<rparr>) s')"
    by (intro safe_on_heap_val) simp
  have swap: "s\<lparr>v_rt := r, v_stk := st\<rparr> = s\<lparr>v_stk := st, v_rt := r\<rparr>" for r by simp
  from * have "safe (on_heap_val h s) (\<lambda>(v, s'). owns p (g v) (s'\<lparr>v_stk := st\<rparr>))"
    by (cases "h (heap (v_rt s))") (auto simp: on_heap_val_def with_heap_val_def the_heap_def swap)
  then show ?thesis
    by (rule safe_obind) (use assms(2) in \<open>auto dest!: same_dests\<close>)
qed

lemma owns_plain [simp]:
  assumes "val_addr w = None"
  shows "owns p vs (s\<lparr>v_stk := w # st\<rparr>) = owns p vs (s\<lparr>v_stk := st\<rparr>)" "owns p vs (push w s) = owns p vs s"
proof -
  show *: "owns p vs (push w s) = owns p vs s" for s
    using owns_push_back [of p vs w s] owns_push_plain [of p vs s w] assms by (auto simp: owns_null)
  show "owns p vs (s\<lparr>v_stk := w # st\<rparr>) = owns p vs (s\<lparr>v_stk := st\<rparr>)"
    using * [of "s\<lparr>v_stk := st\<rparr>"] by (simp add: push_def)
qed

lemma safe_op_BNOT: "owns p vs s \<Longrightarrow> safe (op_BNOT s) (owns p vs)"
  unfolding op_BNOT_def
  by (erule own_top) (auto intro!: reads_obind elim: owns_drop)

lemma safe_op_NOT:
  assumes "owns p vs s" shows "safe (op_NOT s) (owns p vs)"
  unfolding op_NOT_def
proof (rule own_top [OF assms], unfold prod.case)
  fix a st assume a: "v_stk s = a # st" "owns p (a # vs) (s\<lparr>v_stk := st\<rparr>)" "val_ok (the_heap s) a"
  show "safe (obind (value_truthy (the_heap s) a) (\<lambda>t. obind (release a s)
      (\<lambda>s1. Ok (s1\<lparr>v_stk := VBool (\<not> t) # tl (v_stk s1)\<rparr>)))) (owns p vs)"
    by (rule reads_obind [OF reads_values(2) [OF owns_heap_ok [OF assms] a(3)]], rule own_release_top [OF a(2,1)])
      simp
qed

lemma safe_op_LEN:
  assumes "owns p vs s" shows "safe (op_LEN s) (owns p vs)"
  unfolding op_LEN_def
proof (rule own_top [OF assms], unfold prod.case)
  fix a st assume a: "v_stk s = a # st" "owns p (a # vs) (s\<lparr>v_stk := st\<rparr>)" "val_ok (the_heap s) a"
  show "safe (obind (value_length (the_heap s) a) (\<lambda>n. obind (release a s)
      (\<lambda>s1. Ok (s1\<lparr>v_stk := VInt n # tl (v_stk s1)\<rparr>)))) (owns p vs)"
    by (rule reads_obind [OF reads_values(3) [OF owns_heap_ok [OF assms] a(3)]], rule own_release_top [OF a(2,1)])
      simp
qed

lemma safe_op_NEG:
  assumes "owns p vs s" shows "safe (op_NEG s) (owns p vs)"
  unfolding op_NEG_def
proof (rule own_top [OF assms], unfold prod.case)
  fix a st assume a: "v_stk s = a # st" "owns p (a # vs) (s\<lparr>v_stk := st\<rparr>)"
  have o: "owns p vs (s\<lparr>v_stk := st\<rparr>)" using a(2) by (rule owns_less) simp
  have neg: "safe (obind (as_i a) (\<lambda>i. obind (c_i64 (- sint i)) (\<lambda>r. Ok (s\<lparr>v_stk := VInt r # tl (v_stk s)\<rparr>)))) (owns p vs)"
    by (intro reads_obind reads_as_i) (simp add: o a(1))
  show "safe (case a of VFloat f \<Rightarrow> Ok (s\<lparr>v_stk := VFloat (f_neg f) # tl (v_stk s)\<rparr>)
      | _ \<Rightarrow> obind (as_i a) (\<lambda>i. obind (c_i64 (- sint i)) (\<lambda>r. Ok (s\<lparr>v_stk := VInt r # tl (v_stk s)\<rparr>)))) (owns p vs)"
    using neg by (cases a) (simp_all only: val.case, simp add: o a(1))
qed

section \<open>Output and containers\<close>

lemma the_heap_print [simp]: "the_heap (print t s) = the_heap s"
  by (simp add: the_heap_def print_def)

lemma owns_print [simp]: "owns p vs (print t s) = owns p vs s"
  by (rule owns_alike) (simp_all add: alike_def print_def the_heap_def)

lemma safe_op_PRINT: "owns p vs s \<Longrightarrow> safe (op_PRINT s) (owns p vs)"
  unfolding op_PRINT_def
  by (erule own_pop) (auto intro!: reads_obind reads_values own_release_last owns_heap_ok owns_ok)

lemma safe_op_INDEX:
  assumes "owns p vs s" shows "safe (op_INDEX s) (owns p vs)"
  unfolding op_INDEX_def
proof (rule own_pop [OF assms], unfold prod.case, erule own_pop, unfold prod.case)
  fix key st cont st2 let ?s = "s\<lparr>v_stk := st, v_stk := st2\<rparr>"
  assume o: "owns p (cont # key # vs) ?s"
  show "safe (obind (on_heap_val (index_get cont key) ?s)
      (\<lambda>(v, s3). obind (release key (push v s3)) (release cont))) (owns p vs)"
  proof (rule own_heap_val [where g = "\<lambda>v. v # key # cont # vs"], unfold prod.case)
    from owns_swap [THEN iffD1, OF o]
    show "safe (index_get cont key (the_heap ?s)) (\<lambda>(v, h'). rc_sound ((v # key # cont # vs) @ roots p ?s) h')"
      using safe_index_get [OF ownsD, of p "key # cont # vs" ?s cont key] by simp
  qed (intro own_release [where vs = "cont # vs"] own_release_last owns_push)
qed

lemma safe_op_SETIDX:
  assumes "owns p vs s" shows "safe (op_SETIDX s) (owns p vs)"
  unfolding op_SETIDX_def
proof (rule own_pop [OF assms], unfold prod.case, erule own_pop, unfold prod.case, erule own_pop, unfold prod.case)
  fix v st key st2 cont st3 let ?s = "s\<lparr>v_stk := st, v_stk := st2, v_stk := st3\<rparr>"
  assume "owns p (cont # key # v # vs) ?s"
  then have o: "owns p (v # key # cont # vs) ?s" by (rule owns_less) simp
  show "safe (obind (on_heap (index_set cont key v) ?s)
      (\<lambda>s4. obind (release v s4) (\<lambda>s5. obind (release key s5) (release cont)))) (owns p vs)"
    by (rule own_heap [where vs = "v # key # cont # vs"], rule safe_index_set [OF ownsD [OF o]])
      (auto intro: own_release own_release_last)
qed


lemma safe_op_APPEND:
  assumes "owns p vs s" shows "safe (op_APPEND s) (owns p vs)"
  unfolding op_APPEND_def
proof (rule own_pop [OF assms], unfold prod.case, erule own_pop, unfold prod.case)
  fix v st arr st2 let ?s = "s\<lparr>v_stk := st, v_stk := st2\<rparr>"
  assume "owns p (arr # v # vs) ?s"
  then have o: "owns p (v # arr # vs) ?s" by (simp only: owns_swap [of p v])
  show "safe (case arr of VArr a \<Rightarrow> obind (on_heap (rc_array_push a v) ?s) (\<lambda>s3. obind (release v s3) (\<lambda>s4.
      obind (deref_arr (the_heap s4) a) (\<lambda>(xs, cap). obind (release arr s4) (\<lambda>s5. Ok (push (VInt (of_nat (length xs))) s5)))))
    | _ \<Rightarrow> Fatal ''push on a non-array value'') (owns p vs)"
  proof (cases arr)
    case (VArr a)
    have "safe (rc_array_push a v (the_heap ?s)) (rc_sound ((v # arr # vs) @ roots p ?s))"
      by (rule safe_mono [OF safe_array_push [OF ownsD [OF o]]]) (simp_all add: VArr)
    then show ?thesis unfolding VArr val.case
    proof (rule own_heap, elim own_release)
      fix s3 s4 assume o4: "owns p (VArr a # vs) s4"
      then obtain xs cap where "deref_arr (the_heap s4) a = Ok (xs, cap)"
        using held_ok(2) [OF owns_ok [OF o4, of "VArr a"]] by auto
      with o4 show "safe (obind (deref_arr (the_heap s4) a) (\<lambda>(xs, cap).
          obind (release (VArr a) s4) (\<lambda>s5. Ok (push (VInt (of_nat (length xs))) s5)))) (owns p vs)"
        by (auto elim!: own_release)
    qed
  qed simp_all
qed

lemma safe_op_HAS:
  assumes "owns p vs s" shows "safe (op_HAS s) (owns p vs)"
  unfolding op_HAS_def
proof (rule own_pop [OF assms], unfold prod.case)
  fix key st assume o1: "owns p (key # vs) (s\<lparr>v_stk := st\<rparr>)"
  let ?s = "s\<lparr>v_stk := st\<rparr>"
  show "safe (obind (top_slot ?s) (\<lambda>(mp, set_top).
      obind (case mp of VMap a \<Rightarrow> rc_map_has a key (the_heap ?s) | _ \<Rightarrow> Ok False) (\<lambda>b.
      obind (release key ?s) (\<lambda>s2. obind (release mp s2) (\<lambda>s3. Ok (set_top (VBool b) s3)))))) (owns p vs)"
  proof (rule own_top [OF o1], unfold prod.case)
    fix mp st2 assume st2: "v_stk ?s = mp # st2" and o: "owns p (mp # key # vs) (?s\<lparr>v_stk := st2\<rparr>)"
    have has: "reads (case mp of VMap a \<Rightarrow> rc_map_has a key (the_heap ?s) | _ \<Rightarrow> Ok False)"
      using safe_map_lookup(2) [OF ownsD [OF o1], of _ key] st2 by (auto simp: roots_def split: val.split)
    show "safe (obind (case mp of VMap a \<Rightarrow> rc_map_has a key (the_heap ?s) | _ \<Rightarrow> Ok False) (\<lambda>b.
      obind (release key ?s) (\<lambda>s2. obind (release mp s2) (\<lambda>s3. Ok (s3\<lparr>v_stk := VBool b # tl (v_stk s3)\<rparr>))))) (owns p vs)"
    proof (rule reads_obind [OF has], rule own_release [OF o1])
      fix b s2 assume a: "alike ?s s2" and o2: "owns p vs s2"
      have s2: "v_stk s2 = mp # st2" using a st2 by (simp add: alike_def)
      show "safe (obind (release mp s2) (\<lambda>s3. Ok (s3\<lparr>v_stk := VBool b # tl (v_stk s3)\<rparr>))) (owns p vs)"
        by (rule own_release_top [OF owns_pop [OF o2 s2] s2]) simp
    qed
  qed
qed

lemma safe_op_KEYS:
  assumes "owns p vs s" shows "safe (op_KEYS s) (owns p vs)"
  unfolding op_KEYS_def
proof (rule own_top [OF assms], unfold prod.case)
  fix mp st assume st: "v_stk s = mp # st"
  show "safe (case mp of VMap a \<Rightarrow> obind (on_heap_val (rc_map_keys_sorted a) s) (\<lambda>(arr, s1).
      obind (release mp s1) (\<lambda>s2. obind (on_heap_val (val_array arr) s2) (\<lambda>(v, s3). Ok (s3\<lparr>v_stk := v # tl (v_stk s3)\<rparr>))))
    | _ \<Rightarrow> Fatal ''keys() applied to a non-map value'') (owns p vs)"
  proof (cases mp)
    case (VMap a)
    have keys: "safe (rc_map_keys_sorted a (the_heap s)) (\<lambda>(arr, h). rc_sound ((VArr arr # vs) @ roots p s) h)"
      using safe_keys_sorted [OF ownsD [OF assms], of a] by (simp add: roots_def st VMap)
    show ?thesis unfolding VMap val.case
    proof (rule own_heap_val [where g = "\<lambda>arr. VArr arr # vs"], rule keys, unfold prod.case)
      fix arr s1 assume a1: "alike s s1" and o1: "owns p (VArr arr # vs) s1"
      have s1: "v_stk s1 = VMap a # st" using a1 st VMap by (simp add: alike_def)
      show "safe (obind (release (VMap a) s1) (\<lambda>s2. obind (on_heap_val (val_array arr) s2)
          (\<lambda>(v, s3). Ok (s3\<lparr>v_stk := v # tl (v_stk s3)\<rparr>)))) (owns p vs)"
      proof (rule own_release_top [OF owns_pop [OF o1 s1] s1])
        fix s2 assume s2: "v_stk s2 = VMap a # st" "owns p (VArr arr # vs) (s2\<lparr>v_stk := st\<rparr>)"
        have "safe (val_array arr (the_heap s2)) (\<lambda>(v, h). rc_sound ((v # VArr arr # vs) @ roots p (s2\<lparr>v_stk := st\<rparr>)) h)"
          using safe_val_array [OF ownsD [OF s2(2)], of arr] by (simp add: the_heap_def)
        then show "safe (obind (on_heap_val (val_array arr) s2) (\<lambda>(v, s3). Ok (s3\<lparr>v_stk := v # tl (v_stk s3)\<rparr>))) (owns p vs)"
        proof (rule own_heap_val_top [where g = "\<lambda>v. v # VArr arr # vs"])
          fix v s3 assume "v_stk s3 = v_stk s2" "owns p (v # VArr arr # vs) (s3\<lparr>v_stk := st\<rparr>)"
          moreover from this have "owns p (v # vs) (s3\<lparr>v_stk := st\<rparr>)" by (elim owns_less) simp
          ultimately show "safe (case (v, s3) of (v, s3) \<Rightarrow> Ok (s3\<lparr>v_stk := v # tl (v_stk s3)\<rparr>)) (owns p vs)"
            by (simp add: s2(1) owns_set_top)
        qed
      qed
    qed
  qed simp_all
qed


text \<open>Loops over values in hand.\<close>

lemma safe_release_all:
  "owns p (xs @ vs) s \<Longrightarrow> safe (ofold release xs s) (\<lambda>s'. owns p vs s' \<and> alike s s')"
proof (induction xs arbitrary: s)
  case (Cons x xs)
  then have "safe (release x s) (\<lambda>s'. owns p (xs @ vs) s' \<and> alike s s')" by (intro safe_release_vm) simp
  then show ?case unfolding ofold.simps
    by (rule safe_obind) (blast intro: safe_mono [OF Cons.IH] alike_trans)
qed simp

lemma owns_rotate: "owns p (xs @ v # vs) s \<Longrightarrow> owns p (v # xs @ vs) s"
  by (erule owns_less) simp

lemma safe_push_release:
  assumes "owns p (xs @ VArr a # vs) s"
  shows "safe (ofold (\<lambda>v s. obind (on_heap (rc_array_push a v) s) (release v)) xs s) (owns p (VArr a # vs))"
  using assms
proof (induction xs arbitrary: s)
  case (Cons x xs)
  have "safe (rc_array_push a x (the_heap s)) (rc_sound ((x # xs @ VArr a # vs) @ roots p s))"
    using safe_array_push [OF ownsD [OF Cons.prems], of x a] by (auto elim: safe_mono)
  then have "safe (obind (on_heap (rc_array_push a x) s) (release x)) (owns p (xs @ VArr a # vs))"
    by (rule own_heap) (rule own_release_last)
  then show ?case unfolding ofold.simps by (rule safe_obind) (rule Cons.IH)
qed simp

lemma safe_op_NEWARR:
  assumes "owns p vs s" shows "safe (op_NEWARR p s) (owns p vs)"
  unfolding op_NEWARR_def
proof (rule safe_operand [OF safe_next(2) assms], unfold prod.case, rule safe_guarded(2))
  fix n s1 assume o: "owns p vs s1"
  have new: "safe (Ok (rc_array_new (the_heap s1))) (\<lambda>(arr, h). rc_sound ((VArr arr # vs) @ roots p s1) h)"
    using sound_new(2) [OF ownsD [OF o]] by (cases "rc_array_new (the_heap s1)") simp
  show "safe (obind (on_heap_val (\<lambda>h. Ok (rc_array_new h)) s1) (\<lambda>(arr, s2).
      obind (popn n s2) (\<lambda>(vs, s3).
      obind (ofold (\<lambda>v s. obind (on_heap (rc_array_push arr v) s) (release v)) vs s3) (\<lambda>s4.
      obind (on_heap_val (val_array arr) s4) (\<lambda>(v, s5). Ok (push v s5)))))) (owns p vs)"
  proof (rule own_heap_val [where g = "\<lambda>arr. VArr arr # vs"], rule new, unfold prod.case,
      rule own_popn, assumption, unfold prod.case, rule safe_obind [OF safe_push_release], assumption)
    fix arr s4 assume "owns p (VArr arr # vs) s4"
    then have "safe (val_array arr (the_heap s4)) (\<lambda>(v, h). rc_sound ((v # VArr arr # vs) @ roots p s4) h)"
      using safe_val_array [OF ownsD, of p "VArr arr # vs" s4 arr] by simp
    then show "safe (obind (on_heap_val (val_array arr) s4) (\<lambda>(v, s5). Ok (push v s5))) (owns p vs)"
      by (rule own_heap_val [where g = "\<lambda>v. v # VArr arr # vs"]) (auto intro: owns_push dest: owns_second)
  qed
qed

lemma safe_set_release:
  assumes "owns p (concat (map (\<lambda>(k, v). [k, v]) kvs) @ VMap a # vs) s"
  shows "safe (ofold (\<lambda>(k, v) s. obind (on_heap (rc_map_set a k v) s) (\<lambda>s'. obind (release k s') (release v))) kvs s)
    (owns p (VMap a # vs))"
  using assms
proof (induction kvs arbitrary: s)
  case (Cons kv kvs)
  obtain k v where kv: "kv = (k, v)" by (cases kv)
  let ?R = "concat (map (\<lambda>(k, v). [k, v]) kvs) @ VMap a # vs"
  from Cons.prems have o: "owns p (k # v # ?R) s" by (simp add: kv)
  have "safe (rc_map_set a k v (the_heap s)) (rc_sound ((k # v # ?R) @ roots p s))"
    by (rule safe_mono [OF safe_map_set [OF ownsD [OF o]]]) simp_all
  then have "safe (obind (on_heap (rc_map_set a k v) s) (\<lambda>s'. obind (release k s') (release v))) (owns p ?R)"
    by (rule own_heap) (auto elim!: own_release intro: own_release_last)
  then show ?case unfolding ofold.simps kv prod.case by (rule safe_obind) (rule Cons.IH)
qed simp

lemma mset_pairs: "mset (concat (map (\<lambda>(k, v). [k, v]) (pairs xs))) \<subseteq># mset xs"
  by (induction xs rule: pairs.induct) simp_all

lemma safe_op_NEWMAP:
  assumes "owns p vs s" shows "safe (op_NEWMAP p s) (owns p vs)"
  unfolding op_NEWMAP_def
proof (rule safe_operand [OF safe_next(2) assms], unfold prod.case, rule safe_guarded(2))
  fix n s1 assume o: "owns p vs s1"
  have new: "safe (Ok (rc_map_new (the_heap s1))) (\<lambda>(m, h). rc_sound ((VMap m # vs) @ roots p s1) h)"
    using sound_new(3) [OF ownsD [OF o]] by (cases "rc_map_new (the_heap s1)") simp
  show "safe (obind (on_heap_val (\<lambda>h. Ok (rc_map_new h)) s1) (\<lambda>(m, s2).
      obind (popn (2 * n) s2) (\<lambda>(vs, s3).
      obind (ofold (\<lambda>(k, v) s. obind (on_heap (rc_map_set m k v) s) (\<lambda>s'. obind (release k s') (release v))) (pairs vs) s3) (\<lambda>s4.
      obind (on_heap_val (val_map m) s4) (\<lambda>(v, s5). Ok (push v s5)))))) (owns p vs)"
  proof (rule own_heap_val [where g = "\<lambda>m. VMap m # vs"], rule new, unfold prod.case,
      rule own_popn, assumption, unfold prod.case, rule safe_obind [OF safe_set_release])
    fix m s2 xs st assume "owns p (xs @ VMap m # vs) (s2\<lparr>v_stk := st\<rparr>)"
    then show "owns p (concat (map (\<lambda>(k, v). [k, v]) (pairs xs)) @ VMap m # vs) (s2\<lparr>v_stk := st\<rparr>)"
      by (rule owns_less) (simp add: mset_pairs del: mset_concat)
  next
    fix m s4 assume "owns p (VMap m # vs) s4"
    then have "safe (val_map m (the_heap s4)) (\<lambda>(v, h). rc_sound ((v # VMap m # vs) @ roots p s4) h)"
      using safe_val_map [OF ownsD, of p "VMap m # vs" s4 m] by simp
    then show "safe (obind (on_heap_val (val_map m) s4) (\<lambda>(v, s5). Ok (push v s5))) (owns p vs)"
      by (rule own_heap_val [where g = "\<lambda>v. v # VMap m # vs"]) (auto intro: owns_push dest: owns_second)
  qed
qed


lemma safe_push_all:
  assumes "owns p (VArr a # xs @ vs) s"
  shows "safe (ofold (\<lambda>v. on_heap (rc_array_push a v)) xs s) (\<lambda>s'. owns p (VArr a # xs @ vs) s')"
proof (rule safe_ofold)
  fix x s assume x: "x \<in> set xs" and o: "owns p (VArr a # xs @ vs) s"
  have "safe (rc_array_push a x (the_heap s)) (rc_sound ((VArr a # xs @ vs) @ roots p s))"
    by (rule safe_mono [OF safe_array_push [OF ownsD [OF o]]]) (use x in auto)
  then show "safe (on_heap (rc_array_push a x) s) (owns p (VArr a # xs @ vs))"
    by (rule safe_mono [OF safe_on_heap]) blast
qed (rule assms)

lemma owns_func: "owns p (VFunc f (Some a) # vs) s = owns p (VArr a # vs) s"
proof -
  have "kind_ok (VFunc f (Some a)) b = kind_ok (VArr a) b" for b by (cases b) (simp_all add: kind_ok_def)
  moreover have "occ x ((VFunc f (Some a) # vs @ R) @ H) = occ x ((VArr a # vs @ R) @ H)" for x R H by simp
  ultimately show ?thesis by (simp only: owns_def rc_sound_def rc_inv_def cell_sound_def val_ok_def
    append_Cons list.pred_inject val_addr.simps option.case)
qed

lemma safe_op_PUSHFN: "owns p vs s \<Longrightarrow> safe (op_PUSHFN p s) (owns p vs)"
  unfolding op_PUSHFN_def by (rule safe_operand [OF safe_next(2)]) (simp_all add: val_func_def)

lemma safe_op_CLOSURE:
  assumes "owns p vs s" shows "safe (op_CLOSURE p s) (owns p vs)"
  unfolding op_CLOSURE_def
proof (rule safe_operand [OF safe_next(2) assms], unfold prod.case, rule safe_operand [OF safe_next(1)], assumption, unfold prod.case)
  fix fi n s2 assume o: "owns p vs s2"
  have new: "safe (Ok (rc_array_new (the_heap s2))) (\<lambda>(arr, h). rc_sound ((VArr arr # vs) @ roots p s2) h)"
    using sound_new(2) [OF ownsD [OF o]] by (cases "rc_array_new (the_heap s2)") simp
  show "safe (obind (on_heap_val (\<lambda>h. Ok (rc_array_new h)) s2) (\<lambda>(cap, s3).
     obind (popn (unat n) s3) (\<lambda>(vs, s4).
     obind (ofold (\<lambda>v. on_heap (rc_array_push cap v)) vs s4) (\<lambda>s5.
     obind (ofold release vs s5) (\<lambda>s6.
     Ok (push (val_func (of_nat fi) (Some cap)) s6)))))) (owns p vs)"
  proof (rule own_heap_val [where g = "\<lambda>arr. VArr arr # vs"], rule new, unfold prod.case, rule own_popn, assumption, unfold prod.case,
      drule owns_rotate, rule safe_obind [OF safe_push_all], assumption, rule safe_obind [OF safe_release_all])
    fix cap xs s5 assume "owns p (VArr cap # xs @ vs) s5"
    then show "owns p (xs @ VArr cap # vs) s5" by (rule owns_less) simp
  next
    fix cap s5 s6 assume "owns p (VArr cap # vs) s6 \<and> alike s5 s6"
    then show "safe (Ok (push (val_func (of_nat fi) (Some cap)) s6)) (owns p vs)"
      by (simp add: val_func_def owns_push owns_func)
  qed
qed

section \<open>Constants, globals, jumps\<close>

lemma safe_op_CONST: "owns p vs s \<Longrightarrow> safe (op_CONST p s) (owns p vs)"
  unfolding op_CONST_def Let_def
  by (rule safe_operand [OF safe_next(2)], assumption, unfold prod.case, rule safe_guarded(2))
    (auto intro!: own_retain owns_push simp: roots_def)

lemma safe_op_GETGLOBAL: "owns p vs s \<Longrightarrow> safe (op_GETGLOBAL p s) (owns p vs)"
  unfolding op_GETGLOBAL_def Let_def
proof (rule safe_operand [OF safe_next(2)], assumption, unfold prod.case)
  fix i s1 assume o: "owns p vs s1"
  show "safe (obind (retain (if i < length (v_globals s1) then v_globals s1 ! i else VNull) s1)
      (\<lambda>s2. Ok (push (if i < length (v_globals s1) then v_globals s1 ! i else VNull) s2))) (owns p vs)"
  proof (cases "i < length (v_globals s1)")
    case True
    with o show ?thesis by (auto intro!: own_retain owns_push simp: roots_def)
  next
    case False
    have "retain VNull s1 = Ok s1" by (simp add: retain_def on_heap_def with_heap_def retain_value_def)
    with False o show ?thesis by simp
  qed
qed

lemma safe_jump: "owns p vs s \<Longrightarrow> safe (jump p rel s) (owns p vs)"
proof -
  assume o: "owns p vs s"
  have "owns p vs (s\<lparr>v_pc := pc\<rparr>)" for pc
    using owns_alike [of s "s\<lparr>v_pc := pc\<rparr>" p vs] o by (simp add: alike_def the_heap_def)
  then show ?thesis
    unfolding jump_def pyro_jump_to_def Let_def by (auto intro!: reads_obind safe_guarded)
qed

lemma safe_op_JMP: "owns p vs s \<Longrightarrow> safe (op_JMP p s) (owns p vs)"
  unfolding op_JMP_def by (rule safe_operand [OF safe_next(3)]) (auto intro: safe_jump)

lemma safe_op_JMPC: "owns p vs s \<Longrightarrow> safe (op_JMPC b p s) (owns p vs)"
  unfolding op_JMPC_def
  by (rule safe_operand [OF safe_next(3)], assumption, unfold prod.case, erule own_pop, unfold prod.case)
    (auto intro!: reads_obind [OF reads_values(2)] owns_heap_ok owns_ok elim!: own_release intro: safe_jump)


section \<open>Locals of the running frame\<close>

definition in_top :: "vm \<Rightarrow> nat \<Rightarrow> bool" where
  "in_top s i \<longleftrightarrow> (\<exists>f fs. v_frames s = f # fs \<and> fr_base f \<le> i \<and> i < fr_base f + fr_nlocals f \<and>
     (\<forall>g \<in> set fs. fr_base g + fr_nlocals g \<le> fr_base f))"

definition above :: "vm \<Rightarrow> nat \<Rightarrow> bool" where
  \<comment> \<open>beyond the locals of every active frame\<close>
  "above s i \<longleftrightarrow> (\<forall>f \<in> set (v_frames s). fr_base f + fr_nlocals f \<le> i)"

lemma frames_below: "frames_ok p (f # fs) \<Longrightarrow> g \<in> set fs \<Longrightarrow> fr_base g + fr_nlocals g \<le> fr_base f"
proof (induction fs arbitrary: f)
  case (Cons h fs)
  then have h: "fr_base f = fr_base h + fr_nlocals h" "frames_ok p (h # fs)" by simp_all
  show ?case
  proof (cases "g = h")
    case False
    with Cons.IH [OF h(2)] Cons.prems(2) h(1) show ?thesis by fastforce
  qed (use h in simp)
qed simp

lemma in_topI: "frames_ok p (v_frames s) \<Longrightarrow> v_frames s = f # fs \<Longrightarrow> k < fr_nlocals f \<Longrightarrow> in_top s (fr_base f + k)"
  using frames_below [of p f fs] by (auto simp: in_top_def)

lemma aboveI: "frames_ok p (v_frames s) \<Longrightarrow> v_frames s = f # fs \<Longrightarrow> above s (fr_base f + fr_nlocals f)"
  using frames_below [of p f fs] by (force simp: above_def)

lemma above_mono: "above s i \<Longrightarrow> i \<le> j \<Longrightarrow> above s j"
  by (force simp: above_def)

lemma in_top_root: "in_top s i \<Longrightarrow> v_locals s i \<in> set (roots p s)"
  by (auto simp: in_top_def roots_def frame_vals_def)

lemma roots_locals:
  assumes "\<And>f i. f \<in> set (v_frames s) \<Longrightarrow> i < fr_base f + fr_nlocals f \<Longrightarrow> L i = v_locals s i"
  shows "roots p (s\<lparr>v_locals := L\<rparr>) = roots p s"
proof -
  have "frame_vals (s\<lparr>v_locals := L\<rparr>) f = frame_vals s f" if "f \<in> set (v_frames s)" for f
    using assms [OF that] by (simp add: frame_vals_def)
  then have eq: "map (frame_vals (s\<lparr>v_locals := L\<rparr>)) (v_frames s) = map (frame_vals s) (v_frames s)" by simp
  show ?thesis by (simp add: roots_def eq)
qed

lemma roots_upd:
  assumes "in_top s i"
  shows "add_mset (v_locals s i) (mset (roots p (s\<lparr>v_locals := (v_locals s)(i := v)\<rparr>))) = add_mset v (mset (roots p s))"
proof -
  let ?s = "s\<lparr>v_locals := (v_locals s)(i := v)\<rparr>"
  obtain f fs where f: "v_frames s = f # fs" "fr_base f \<le> i" "i < fr_base f + fr_nlocals f"
      "\<forall>g \<in> set fs. fr_base g + fr_nlocals g \<le> fr_base f"
    using assms by (auto simp: in_top_def)
  have below: "frame_vals ?s g = frame_vals s g" if "g \<in> set fs" for g
    using f(2) f(4) that by (fastforce simp: frame_vals_def)
  have "[fr_base f..<fr_base f + fr_nlocals f] = [fr_base f..<i] @ i # [Suc i..<fr_base f + fr_nlocals f]"
    using f(2,3) by (metis Suc_leI le_add_diff_inverse less_imp_le upt_add_eq_append upt_conv_Cons)
  then have top: "frame_vals s f = map (v_locals s) [fr_base f..<i] @ v_locals s i # map (v_locals s) [Suc i..<fr_base f + fr_nlocals f]"
      "frame_vals ?s f = map (v_locals s) [fr_base f..<i] @ v # map (v_locals s) [Suc i..<fr_base f + fr_nlocals f]"
    by (simp_all add: frame_vals_def)
  have eq: "map (frame_vals ?s) fs = map (frame_vals s) fs" using below by simp
  show ?thesis by (simp add: roots_def f(1) top eq)
qed

definition clear :: "nat \<Rightarrow> vm \<Rightarrow> vm" where
  \<comment> \<open>the slot emptied: its reference is in hand\<close>
  "clear i s = s\<lparr>v_locals := (v_locals s)(i := VNull)\<rparr>"

lemma owns_clear: "owns p vs s \<Longrightarrow> in_top s i \<Longrightarrow> owns p (v_locals s i # vs) (clear i s)"
proof -
  assume "owns p vs s" "in_top s i"
  then have "owns p (VNull # vs) s" by (simp add: owns_null)
  then show ?thesis
    using roots_upd [OF \<open>in_top s i\<close>, of p VNull]
    by (elim owns_move) (simp_all add: clear_def the_heap_def)
qed

lemma owns_fill: "owns p (v # vs) (clear i s) \<Longrightarrow> in_top s i \<Longrightarrow> owns p vs (s\<lparr>v_locals := (v_locals s)(i := v)\<rparr>)"
proof -
  assume o: "owns p (v # vs) (clear i s)" and i: "in_top s i"
  have "in_top (clear i s) i" using i by (simp add: in_top_def clear_def)
  from roots_upd [OF this, of p v] have "add_mset VNull (mset (roots p (s\<lparr>v_locals := (v_locals s)(i := v)\<rparr>))) =
      add_mset v (mset (roots p (clear i s)))" by (simp add: clear_def)
  then have "mset (roots p (s\<lparr>v_locals := (v_locals s)(i := v)\<rparr>)) \<subseteq># add_mset v (mset (roots p (clear i s)))"
    by (metis add_mset_add_single mset_subset_eq_add_left)
  with o show ?thesis by (elim owns_move) (simp_all add: clear_def the_heap_def)
qed

text \<open>Releasing a reference while some part \<open>u\<close> of the state is out of date.\<close>

lemma own_release_under:
  assumes "\<And>r. u (s\<lparr>v_rt := r\<rparr>) = (u s)\<lparr>v_rt := r\<rparr>" "v_rt (u s) = v_rt s" "owns p (v # vs) (u s)"
    "\<And>s'. alike s s' \<Longrightarrow> owns p vs (u s') \<Longrightarrow> safe (f s') Q"
  shows "safe (obind (release v s) f) Q"
proof -
  have "alike s (s\<lparr>v_rt := r\<rparr>)" for r by (simp add: alike_def)
  with safe_release_vm [OF assms(3)] have "safe (release v s) (\<lambda>s'. owns p vs (u s') \<and> alike s s')"
    by (cases "release_value v (heap (v_rt s))") (simp_all add: release_def on_heap_def with_heap_def assms(1,2))
  then show ?thesis by (rule safe_obind) (use assms(4) in blast)
qed

lemma swap_locals: "s\<lparr>v_locals := L, v_stk := st\<rparr> = s\<lparr>v_stk := st, v_locals := L\<rparr>"
  by simp

lemma safe_op_LOAD:
  assumes "owns p vs s" "\<And>n s1. next16 p s = Ok (n, s1) \<Longrightarrow> in_top s (fr_base (hd (v_frames s)) + n)"
  shows "safe (op_LOAD p s) (owns p vs)"
  unfolding op_LOAD_def
proof (rule safe_operand [OF safe_next(2) assms(1)], unfold prod.case, rule safe_top_frame, rule safe_get_local)
  fix n s1 f fs assume *: "next16 p s = Ok (n, s1)" "alike s s1" "owns p vs s1" "v_frames s1 = f # fs"
  let ?v = "v_locals s1 (fr_base f + n)"
  have fr: "v_frames s = f # fs" using *(2,4) by (simp add: alike_def)
  have "?v \<in> set (roots p s1)"
    using in_top_root [OF assms(2) [OF *(1)], of p] roots_alike [OF *(2)] *(2) fr by (simp add: alike_def)
  with *(3) show "safe (obind (retain ?v s1) (\<lambda>s2. Ok (push ?v s2))) (owns p vs)"
    by (auto intro!: own_retain owns_push)
qed

lemma safe_op_STORE:
  assumes "owns p vs s" "\<And>n s1. next16 p s = Ok (n, s1) \<Longrightarrow> in_top s (fr_base (hd (v_frames s)) + n)"
  shows "safe (op_STORE p s) (owns p vs)"
  unfolding op_STORE_def
proof (rule safe_operand [OF safe_next(2) assms(1)], unfold prod.case, rule safe_top_frame, rule safe_get_local)
  fix n s1 f fs assume *: "next16 p s = Ok (n, s1)" "alike s s1" "owns p vs s1" "v_frames s1 = f # fs"
  let ?i = "fr_base f + n"
  have fr: "v_frames s = f # fs" using *(2,4) by (simp add: alike_def)
  have i: "in_top s1 ?i" using assms(2) [OF *(1)] *(4) fr by (simp add: in_top_def)
  show "safe (obind (release (v_locals s1 ?i) s1) (\<lambda>s2. obind (pop s2) (\<lambda>(v, s3). set_local ?i v s3))) (owns p vs)"
  proof (rule own_release_under [where u = "clear ?i", OF _ _ owns_clear [OF *(3) i]])
    fix s2 assume s2: "alike s1 s2" "owns p vs (clear ?i s2)"
    show "safe (obind (pop s2) (\<lambda>(v, s3). set_local ?i v s3)) (owns p vs)"
    proof (rule safe_pop, unfold prod.case, rule safe_mono [OF safe_set_local])
      fix v st s' assume stk: "v_stk s2 = v # st" and s': "s' = s2\<lparr>v_stk := st, v_locals := (v_locals (s2\<lparr>v_stk := st\<rparr>))(?i := v)\<rparr>"
      have "owns p (v # vs) (clear ?i (s2\<lparr>v_stk := st\<rparr>))"
        using owns_pop [OF s2(2), of v st] stk by (simp add: clear_def swap_locals)
      moreover have "in_top (s2\<lparr>v_stk := st\<rparr>) ?i" using i s2(1) by (simp add: in_top_def alike_def)
      ultimately show "owns p vs s'" unfolding s' by (rule owns_fill)
    qed
  qed (simp_all add: clear_def)
qed


section \<open>Globals\<close>

lemma rc_sound_nulls: "rc_sound (replicate n VNull @ R) h = rc_sound R h"
  by (induction n) (simp_all add: rc_sound_null)

definition clear_global :: "nat \<Rightarrow> vm \<Rightarrow> vm" where
  "clear_global i s = s\<lparr>v_globals := (v_globals s)[i := VNull]\<rparr>"

lemma globals_mset:
  assumes "i < length (v_globals s)"
  shows "add_mset (v_globals s ! i) (mset (roots p (s\<lparr>v_globals := (v_globals s)[i := v]\<rparr>))) = add_mset v (mset (roots p s))"
  using assms by (simp add: roots_def frame_vals_def [abs_def] mset_update del: mset_concat)

lemma owns_clear_global:
  assumes "owns p vs s" "i < length (v_globals s)"
  shows "owns p (v_globals s ! i # vs) (clear_global i s)"
proof -
  from assms(1) have "owns p (VNull # vs) s" by (simp add: owns_null)
  then show ?thesis
    using globals_mset [OF assms(2), of p VNull]
    by (elim owns_move) (simp_all add: clear_global_def the_heap_def)
qed

lemma owns_fill_global:
  assumes "owns p (v # vs) (clear_global i s)" "i < length (v_globals s)"
  shows "owns p vs (s\<lparr>v_globals := (v_globals s)[i := v]\<rparr>)"
proof -
  have "add_mset VNull (mset (roots p (s\<lparr>v_globals := (v_globals s)[i := v]\<rparr>))) = add_mset v (mset (roots p (clear_global i s)))"
    using globals_mset [of i "clear_global i s" p v] assms(2) by (simp add: clear_global_def)
  then have "mset (roots p (s\<lparr>v_globals := (v_globals s)[i := v]\<rparr>)) \<subseteq># add_mset v (mset (roots p (clear_global i s)))"
    by (metis add_mset_add_single mset_subset_eq_add_left)
  with assms(1) show ?thesis by (elim owns_move) (simp_all add: clear_global_def the_heap_def)
qed

lemma owns_pad: "owns p vs s \<Longrightarrow> owns p vs (s\<lparr>v_globals := v_globals s @ replicate n VNull\<rparr>)"
proof -
  assume "owns p vs s"
  then have "rc_sound (replicate n VNull @ vs @ roots p s) (the_heap s)" by (simp add: owns_def rc_sound_nulls)
  then have "rc_sound (vs @ roots p (s\<lparr>v_globals := v_globals s @ replicate n VNull\<rparr>)) (the_heap s)"
    by (rule rc_sound_less) (simp add: roots_def frame_vals_def [abs_def] del: mset_concat)
  then show ?thesis by (simp add: owns_def the_heap_def)
qed

lemma safe_op_SETGLOBAL:
  assumes "owns p vs s" shows "safe (op_SETGLOBAL p s) (owns p vs)"
  unfolding op_SETGLOBAL_def Let_def
proof (rule safe_operand [OF safe_next(2) assms(1)], unfold prod.case)
  fix i s1 assume o1: "owns p vs s1"
  let ?s = "s1\<lparr>v_globals := v_globals s1 @ replicate (Suc i - length (v_globals s1)) VNull\<rparr>"
  have i: "i < length (v_globals ?s)" by simp
  show "safe (obind (release (v_globals ?s ! i) ?s) (\<lambda>s3.
      obind (pop s3) (\<lambda>(v, s4). Ok (s4\<lparr>v_globals := (v_globals s4)[i := v]\<rparr>)))) (owns p vs)"
  proof (rule own_release_under [where u = "clear_global i", OF _ _ owns_clear_global [OF owns_pad [OF o1] i]])
    fix s3 assume s3: "alike ?s s3" "owns p vs (clear_global i s3)"
    show "safe (obind (pop s3) (\<lambda>(v, s4). Ok (s4\<lparr>v_globals := (v_globals s4)[i := v]\<rparr>))) (owns p vs)"
    proof (rule safe_pop, unfold prod.case)
      fix v st assume stk: "v_stk s3 = v # st"
      let ?s3 = "s3\<lparr>v_stk := st\<rparr>"
      have swap: "clear_global i s3\<lparr>v_stk := st\<rparr> = clear_global i ?s3" by (simp add: clear_global_def)
      have "owns p (v # vs) (clear_global i ?s3)"
        using owns_pop [OF s3(2), of v st] stk by (simp add: swap) (simp add: clear_global_def)
      moreover have "i < length (v_globals ?s3)" using s3(1) i by (simp add: alike_def)
      ultimately show "safe (Ok (?s3\<lparr>v_globals := (v_globals ?s3)[i := v]\<rparr>)) (owns p vs)"
        unfolding safe_simps by (rule owns_fill_global)
    qed
  qed (simp_all add: clear_global_def)
qed

section \<open>Calls\<close>

lemma owns_locals:
  assumes "owns p vs s" "above s b" "\<And>i. i < b \<Longrightarrow> L i = v_locals s i"
  shows "owns p vs (s\<lparr>v_locals := L\<rparr>)"
proof -
  have "roots p (s\<lparr>v_locals := L\<rparr>) = roots p s"
    by (rule roots_locals) (use assms(2,3) in \<open>force simp: above_def\<close>)
  with assms(1) show ?thesis by (simp add: owns_def the_heap_def)
qed

lemma set_locals_frame: "safe (set_locals b us s) (\<lambda>s'. s' = s\<lparr>v_locals := \<lambda>i.
    if b \<le> i \<and> i < b + length us then us ! (i - b) else v_locals s i\<rparr>)"
proof -
  have "safe (set_locals b us s) (\<lambda>s'. \<exists>L. s' = s\<lparr>v_locals := L\<rparr>)"
    unfolding set_locals_def
  proof (rule safe_ofold)
    have "s = s\<lparr>v_locals := v_locals s\<rparr>" by simp
    then show "\<exists>L. s = s\<lparr>v_locals := L\<rparr>" by blast
  qed (auto simp: set_local_def oguard_def split: prod.split)
  then show ?thesis
  proof (rule safe_mono)
    fix s' assume run: "set_locals b us s = Ok s'" and "\<exists>L. s' = s\<lparr>v_locals := L\<rparr>"
    then obtain L where L: "s' = s\<lparr>v_locals := L\<rparr>" by blast
    have "L = (\<lambda>i. if b \<le> i \<and> i < b + length us then us ! (i - b) else v_locals s i)"
      using set_locals_spec [OF run] L by (intro ext) simp
    with L show "s' = s\<lparr>v_locals := \<lambda>i. if b \<le> i \<and> i < b + length us then us ! (i - b) else v_locals s i\<rparr>" by simp
  qed
qed

lemma null_locals_frame: "safe (null_locals b n s) (\<lambda>s'. s' = s\<lparr>v_locals := \<lambda>i. if b \<le> i \<and> i < b + n then VNull else v_locals s i\<rparr>)"
  by (auto simp: null_locals_def intro: safe_guarded)

lemma safe_enter_frame:
  assumes "owns p (us @ vs) s"
    "\<And>i. i < unat (fi_nlocals f) \<Longrightarrow> v_locals s (b + i) = (if i < length us then us ! i else VNull)"
  shows "safe (enter_frame fi f b s) (owns p vs)"
proof -
  let ?n = "unat (fi_nlocals f)"
  let ?fr = "\<lparr>fr_retpc = v_pc s, fr_base = b, fr_nlocals = ?n, fr_fn = fi\<rparr>"
  let ?s = "s\<lparr>v_frames := ?fr # v_frames s, v_pc := sint (fi_entry f)\<rparr>"
  have fv: "frame_vals s ?fr = take ?n us @ replicate (?n - length us) VNull"
    by (rule nth_equalityI) (use assms(2) in \<open>auto simp: frame_vals_def nth_append\<close>)
  have eq: "frame_vals ?s = frame_vals s" by (simp add: frame_vals_def [abs_def])
  have "rc_sound (replicate (?n - length us) VNull @ (us @ vs) @ roots p s) (the_heap s)"
    using assms(1) by (simp only: rc_sound_nulls owns_def)
  moreover have "mset (vs @ roots p ?s) \<subseteq># mset (replicate (?n - length us) VNull @ (us @ vs) @ roots p s)"
  proof -
    have "mset (take ?n us) \<subseteq># mset us" by (metis append_take_drop_id mset_append mset_subset_eq_add_left)
    moreover have "mset (vs @ roots p ?s) = mset (take ?n us) + (replicate_mset (?n - length us) VNull + mset vs + mset (roots p s))"
      by (simp add: roots_def eq fv del: mset_concat)
    ultimately show ?thesis by (simp add: subset_mset.add_right_mono add.assoc add.left_commute)
  qed
  ultimately have "rc_sound (vs @ roots p ?s) (the_heap s)" by (rule rc_sound_less)
  then have "owns p vs ?s" by (simp add: owns_def the_heap_def)
  then show ?thesis unfolding enter_frame_def by (rule_tac safe_guarded(2)) simp
qed


lemma safe_op_CALL:
  assumes o: "owns p vs s" and fr: "frames_ok p (v_frames s)"
  shows "safe (op_CALL p s) (owns p vs)"
  unfolding op_CALL_def Let_def
proof (rule safe_operand [OF safe_next(2) o], unfold prod.case, rule safe_operand [OF safe_next(1)], assumption, unfold prod.case,
    rule safe_guarded(2), rule safe_top_frame, unfold locals_limit_def, rule safe_guarded(2), rule safe_obind [OF null_locals_frame])
  fix fi s1 argc s2 f fs s3
  assume a: "alike s s1" "alike s1 s2" "owns p vs s2" "v_frames s2 = f # fs"
  let ?b = "fr_base f + fr_nlocals f" and ?n = "unat (fi_nlocals (p_funcs p ! fi))"
  assume s3: "s3 = s2\<lparr>v_locals := \<lambda>i. if ?b \<le> i \<and> i < ?b + ?n then VNull else v_locals s2 i\<rparr>"
  have above: "above s2 ?b" using aboveI [of p s2 f fs] fr a by (simp add: alike_def)
  have o3: "owns p vs s3" unfolding s3 by (rule owns_locals [OF a(3) above]) simp
  show "safe (obind (popn (unat argc) s3) (\<lambda>(args, s4). obind (set_locals ?b args s4) (\<lambda>s5.
      enter_frame fi (p_funcs p ! fi) ?b s5))) (owns p vs)"
  proof (rule own_popn [OF o3], unfold prod.case, rule safe_obind [OF set_locals_frame], rule safe_enter_frame)
    fix args st s5 assume o4: "owns p (args @ vs) (s3\<lparr>v_stk := st\<rparr>)"
      and s5: "s5 = s3\<lparr>v_stk := st, v_locals := \<lambda>i. if ?b \<le> i \<and> i < ?b + length args then args ! (i - ?b)
        else v_locals (s3\<lparr>v_stk := st\<rparr>) i\<rparr>"
    show "owns p (args @ vs) s5" unfolding s5
      by (rule owns_locals [OF o4, of ?b]) (use above in \<open>simp_all add: above_def s3\<close>)
    show "v_locals s5 (?b + i) = (if i < length args then args ! i else VNull)" if "i < ?n" for i
      using that by (simp add: s5 s3)
  qed
qed


text \<open>The captured values of a closure are copied into the new frame.\<close>

lemma retain_keeps_array:
  assumes o: "owns p vs s" and a: "VArr a \<in> set vs" "deref_arr (the_heap s) a = Ok (xs, cap)" and x: "x \<in> set xs"
  shows "safe (retain x s) (\<lambda>s'. owns p (x # vs) s' \<and> alike s s' \<and> deref_arr (the_heap s') a = Ok (xs, cap))"
proof -
  have "safe (retain x s) (\<lambda>s'. owns p (x # vs) s' \<and> alike s s')"
    by (rule safe_retain_vm [OF o]) (use held_elem [OF a(2) x] in simp)
  moreover have "safe (retain x s) (\<lambda>s'. hext {} (the_heap s') (the_heap s))"
  proof -
    have "safe (retain_value x (the_heap s)) (\<lambda>h. hsub h (the_heap s))"
      by (rule safe_mono [OF safe_retain [OF ownsD [OF o]]]) (use held_elem [OF a(2) x] in auto)
    then show ?thesis
      by (cases "retain_value x (the_heap s)") (auto simp: retain_def on_heap_def with_heap_def the_heap_def intro: hext_hsub)
  qed
  ultimately have "safe (retain x s) (\<lambda>s'. (owns p (x # vs) s' \<and> alike s s') \<and> hext {} (the_heap s') (the_heap s))"
    by (cases "retain x s") simp_all
  then show ?thesis
    by (rule safe_mono) (use hext_arr [OF _ a(2) _ ownsD, of "{}"] a(1) in auto)
qed

lemma safe_captures_loop:
  assumes "owns p (us @ vs) s" "VArr a \<in> set vs" "deref_arr (the_heap s) a = Ok (xs, cap)" "set cs \<subseteq> set xs" "above s b" "length us = k"
  shows "safe (ofold (\<lambda>(i, c) s. obind (retain c s) (set_local (b + i) c)) (enumerate k cs) s)
    (\<lambda>s'. owns p (us @ cs @ vs) s' \<and> v_stk s' = v_stk s \<and> v_frames s' = v_frames s \<and>
      v_locals s' = (\<lambda>i. if b + k \<le> i \<and> i < b + k + length cs then cs ! (i - (b + k)) else v_locals s i))"
  using assms
proof (induction cs arbitrary: us k s)
  case (Cons c cs)
  from Cons.prems have ret: "safe (retain c s) (\<lambda>s'. owns p (c # us @ vs) s' \<and> alike s s' \<and> deref_arr (the_heap s') a = Ok (xs, cap))"
    by (intro retain_keeps_array) auto
  have step: "safe (obind (retain c s) (set_local (b + k) c)) (\<lambda>s'. owns p ((us @ [c]) @ vs) s' \<and> v_stk s' = v_stk s \<and>
      v_frames s' = v_frames s \<and> v_locals s' = (v_locals s)(b + k := c) \<and> deref_arr (the_heap s') a = Ok (xs, cap))"
  proof (rule safe_obind [OF ret], rule safe_mono [OF safe_set_local])
    fix s1 s2 assume s1: "owns p (c # us @ vs) s1 \<and> alike s s1 \<and> deref_arr (the_heap s1) a = Ok (xs, cap)"
      and s2: "s2 = s1\<lparr>v_locals := (v_locals s1)(b + k := c)\<rparr>"
    have "owns p ((us @ [c]) @ vs) s1" using s1 by (auto elim: owns_less)
    moreover have "above s1 (b + k)" using Cons.prems(5) s1 by (force simp: above_def alike_def)
    ultimately have "owns p ((us @ [c]) @ vs) s2" unfolding s2 by (rule owns_locals) simp
    with s1 s2 show "owns p ((us @ [c]) @ vs) s2 \<and> v_stk s2 = v_stk s \<and> v_frames s2 = v_frames s \<and>
        v_locals s2 = (v_locals s)(b + k := c) \<and> deref_arr (the_heap s2) a = Ok (xs, cap)"
      by (simp add: alike_def the_heap_def)
  qed
  show ?case unfolding enumerate_simps ofold.simps prod.case
  proof (rule safe_obind [OF step])
    fix s1 assume s1: "owns p ((us @ [c]) @ vs) s1 \<and> v_stk s1 = v_stk s \<and>
      v_frames s1 = v_frames s \<and> v_locals s1 = (v_locals s)(b + k := c) \<and> deref_arr (the_heap s1) a = Ok (xs, cap)"
    have "above s1 b" using s1 Cons.prems(5) by (simp add: above_def)
    with s1 Cons.prems have "safe (ofold (\<lambda>(i, c) s. obind (retain c s) (set_local (b + i) c)) (enumerate (Suc k) cs) s1)
      (\<lambda>s'. owns p ((us @ [c]) @ cs @ vs) s' \<and> v_stk s' = v_stk s1 \<and> v_frames s' = v_frames s1 \<and>
        v_locals s' = (\<lambda>i. if b + Suc k \<le> i \<and> i < b + Suc k + length cs then cs ! (i - (b + Suc k)) else v_locals s1 i))"
      by (intro Cons.IH) auto
    then show "safe (ofold (\<lambda>(i, c) s. obind (retain c s) (set_local (b + i) c)) (enumerate (Suc k) cs) s1)
      (\<lambda>s'. owns p (us @ (c # cs) @ vs) s' \<and> v_stk s' = v_stk s \<and> v_frames s' = v_frames s \<and>
        v_locals s' = (\<lambda>i. if b + k \<le> i \<and> i < b + k + length (c # cs) then (c # cs) ! (i - (b + k)) else v_locals s i))"
    proof (rule safe_mono)
      fix s' assume s': "owns p ((us @ [c]) @ cs @ vs) s' \<and> v_stk s' = v_stk s1 \<and> v_frames s' = v_frames s1 \<and>
        v_locals s' = (\<lambda>i. if b + Suc k \<le> i \<and> i < b + Suc k + length cs then cs ! (i - (b + Suc k)) else v_locals s1 i)"
      have "v_locals s' i = (if b + k \<le> i \<and> i < b + k + length (c # cs) then (c # cs) ! (i - (b + k)) else v_locals s i)" for i
        using s' s1 by (cases "i = b + k") (auto simp: nth_Cons' Suc_diff_le)
      with s' s1 show "owns p (us @ (c # cs) @ vs) s' \<and> v_stk s' = v_stk s \<and> v_frames s' = v_frames s \<and>
        v_locals s' = (\<lambda>i. if b + k \<le> i \<and> i < b + k + length (c # cs) then (c # cs) ! (i - (b + k)) else v_locals s i)"
        by (intro conjI ext) simp_all
    qed
  qed
qed (auto simp: fun_eq_iff)


text \<open>What a called function's frame starts with: the captured values, then the arguments.\<close>

lemma safe_captures:
  assumes o: "owns p (VFunc fi cap # vs) s"
  shows "safe (captures cap s) (\<lambda>cs. cap = None \<and> cs = [] \<or> (\<exists>a n. cap = Some a \<and> deref_arr (the_heap s) a = Ok (cs, n)))"
proof (cases cap)
  case (Some a)
  with held_ok(4) [OF owns_ok [OF o], where a = a and f = fi] obtain xs n where "deref_arr (the_heap s) a = Ok (xs, n)" by auto
  with Some show ?thesis by (simp add: captures_def)
qed (simp add: captures_def)

lemma safe_copy_captures:
  assumes o: "owns p (VFunc fi cap # vs) s" and b: "above s b"
    and cs: "cap = None \<and> cs = [] \<or> (\<exists>a n. cap = Some a \<and> deref_arr (the_heap s) a = Ok (cs, n))"
  shows "safe (ofold (\<lambda>(i, c) s. obind (retain c s) (set_local (b + i) c)) (enumerate 0 cs) s)
    (\<lambda>s'. owns p (cs @ VFunc fi cap # vs) s' \<and> v_stk s' = v_stk s \<and> v_frames s' = v_frames s \<and>
      v_locals s' = (\<lambda>i. if b \<le> i \<and> i < b + length cs then cs ! (i - b) else v_locals s i))"
proof (cases cap)
  case None
  with cs o show ?thesis by (auto simp: fun_eq_iff)
next
  case (Some a)
  with cs obtain n where a: "deref_arr (the_heap s) a = Ok (cs, n)" by auto
  have "owns p (VArr a # vs) s" using o by (simp add: Some owns_func)
  from safe_captures_loop [where us = "[]" and k = 0 and cs = cs, OF _ _ a _ b, of p "VArr a # vs", unfolded add_0_right] this
  have "safe (ofold (\<lambda>(i, c) s. obind (retain c s) (set_local (b + i) c)) (enumerate 0 cs) s)
    (\<lambda>s'. owns p (cs @ VArr a # vs) s' \<and> v_stk s' = v_stk s \<and> v_frames s' = v_frames s \<and>
      v_locals s' = (\<lambda>i. if b \<le> i \<and> i < b + length cs then cs ! (i - b) else v_locals s i))" by simp
  then show ?thesis
  proof (rule safe_mono)
    fix s' assume s': "owns p (cs @ VArr a # vs) s' \<and> v_stk s' = v_stk s \<and> v_frames s' = v_frames s \<and>
      v_locals s' = (\<lambda>i. if b \<le> i \<and> i < b + length cs then cs ! (i - b) else v_locals s i)"
    then have "owns p (VArr a # cs @ vs) s'" by (elim conjE owns_less) simp
    then have "owns p (VFunc fi cap # cs @ vs) s'" by (simp add: Some owns_func)
    then have "owns p (cs @ VFunc fi cap # vs) s'" by (rule owns_less) simp
    with s' show "owns p (cs @ VFunc fi cap # vs) s' \<and> v_stk s' = v_stk s \<and> v_frames s' = v_frames s \<and>
      v_locals s' = (\<lambda>i. if b \<le> i \<and> i < b + length cs then cs ! (i - b) else v_locals s i)" by blast
  qed
qed

lemma safe_call_value:
  assumes o: "owns p (VFunc fi cap # args @ vs) s" and above: "above s b"
    and null: "\<And>i. b \<le> i \<Longrightarrow> i < b + unat (fi_nlocals f) \<Longrightarrow> v_locals s i = VNull"
  shows "safe (obind (captures cap s) (\<lambda>cs.
    obind (ofold (\<lambda>(i, c) s. obind (retain c s) (set_local (b + i) c)) (enumerate 0 cs) s) (\<lambda>s4.
    obind (set_locals (b + length cs) args s4) (\<lambda>s5.
    obind (release (VFunc fi cap) s5) (\<lambda>s6. enter_frame k f b s6))))) (owns p vs)"
proof (rule safe_obind [OF safe_captures [OF o]], rule safe_obind [OF safe_copy_captures [OF o above]], assumption,
    rule safe_obind [OF set_locals_frame])
  fix cs s4 s5
  assume s4: "owns p (cs @ VFunc fi cap # args @ vs) s4 \<and> v_stk s4 = v_stk s \<and> v_frames s4 = v_frames s \<and>
      v_locals s4 = (\<lambda>i. if b \<le> i \<and> i < b + length cs then cs ! (i - b) else v_locals s i)"
    and s5: "s5 = s4\<lparr>v_locals := \<lambda>i. if b + length cs \<le> i \<and> i < b + length cs + length args
      then args ! (i - (b + length cs)) else v_locals s4 i\<rparr>"
  have above4: "above s4 b" using s4 above by (simp add: above_def)
  have o4: "owns p (cs @ VFunc fi cap # args @ vs) s4" using s4 by simp
  have o5: "owns p (VFunc fi cap # (cs @ args) @ vs) s5"
    unfolding s5 by (rule owns_less, rule owns_locals [OF o4 above4]) simp_all
  show "safe (obind (release (VFunc fi cap) s5) (\<lambda>s6. enter_frame k f b s6)) (owns p vs)"
  proof (rule own_release [OF o5], rule safe_enter_frame)
    fix s6 i assume "alike s5 s6" "i < unat (fi_nlocals f)"
    then show "v_locals s6 (b + i) = (if i < length (cs @ args) then (cs @ args) ! i else VNull)"
      using s4 null [of "b + i"] by (auto simp: s5 alike_def nth_append)
  qed
qed

lemma safe_op_CALLVALUE:
  assumes o: "owns p vs s" and fr: "frames_ok p (v_frames s)"
  shows "safe (op_CALLVALUE p s) (owns p vs)"
  unfolding op_CALLVALUE_def Let_def
proof (rule safe_operand [OF safe_next(1) o], unfold prod.case, rule own_popn, assumption, unfold prod.case)
  fix argc s1 us st
  assume a: "alike s s1" and us: "length us = Suc (unat argc)" and o2: "owns p (us @ vs) (s1\<lparr>v_stk := st\<rparr>)"
  let ?s = "s1\<lparr>v_stk := st\<rparr>"
  from us obtain fnval args where ua: "us = fnval # args" by (cases us) auto
  show "safe (case hd us of
      VFunc fi cap \<Rightarrow>
        obind (ofail (int (length (p_funcs p)) \<le> sint fi) ''malformed .pyro: function index out of range'') (\<lambda>_.
        obind (oguard (0 \<le> sint fi) FuncRange) (\<lambda>_.
        obind (top_frame ?s) (\<lambda>fr.
        obind (locals_limit (fr_base fr + fr_nlocals fr) (p_funcs p ! nat (sint fi))) (\<lambda>_.
        obind (null_locals (fr_base fr + fr_nlocals fr) (unat (fi_nlocals (p_funcs p ! nat (sint fi)))) ?s) (\<lambda>s3.
        obind (captures cap s3) (\<lambda>cs.
        obind (ofold (\<lambda>(i, c) s. obind (retain c s) (set_local (fr_base fr + fr_nlocals fr + i) c)) (enumerate 0 cs) s3) (\<lambda>s4.
        obind (set_locals (fr_base fr + fr_nlocals fr + length cs) (tl us) s4) (\<lambda>s5.
        obind (release (hd us) s5) (\<lambda>s6.
        enter_frame (nat (sint fi)) (p_funcs p ! nat (sint fi)) (fr_base fr + fr_nlocals fr) s6)))))))))
      | _ \<Rightarrow> Fatal ''call of a non-function value'') (owns p vs)"
  proof (cases fnval)
    case (VFunc fi cap)
    show ?thesis
      unfolding ua list.sel VFunc val.case
    proof (rule safe_guarded(2), rule safe_guarded(1), simp, rule safe_top_frame, unfold locals_limit_def,
        rule safe_guarded(2), rule safe_obind [OF null_locals_frame])
      fix f :: frame and fs s3 let ?b = "fr_base f + fr_nlocals f" and ?n = "unat (fi_nlocals (p_funcs p ! nat (sint fi)))"
      assume f: "v_frames ?s = f # fs"
        and s3: "s3 = ?s\<lparr>v_locals := \<lambda>i. if ?b \<le> i \<and> i < ?b + ?n then VNull else v_locals ?s i\<rparr>"
      have above: "above ?s ?b" using aboveI [of p ?s f fs] fr f a by (simp add: alike_def)
      have "owns p (VFunc fi cap # args @ vs) s3"
        unfolding s3 by (rule owns_locals [OF _ above]) (use o2 in \<open>simp_all add: ua VFunc\<close>)
      moreover have "above s3 ?b" using above by (simp add: s3 above_def)
      moreover have "v_locals s3 i = VNull" if "?b \<le> i" "i < ?b + ?n" for i using that by (simp add: s3)
      ultimately show "safe (obind (captures cap s3) (\<lambda>cs.
          obind (ofold (\<lambda>(i, c) s. obind (retain c s) (set_local (?b + i) c)) (enumerate 0 cs) s3) (\<lambda>s4.
          obind (set_locals (?b + length cs) args s4) (\<lambda>s5.
          obind (release (VFunc fi cap) s5) (\<lambda>s6.
          enter_frame (nat (sint fi)) (p_funcs p ! nat (sint fi)) ?b s6))))) (owns p vs)"
        by (rule safe_call_value)
    qed
  qed (simp_all add: ua)
qed

section \<open>Returns and exceptions\<close>

lemma safe_release_slots:
  assumes "owns p (map (\<lambda>i. v_locals s (b + i)) js @ vs) s"
  shows "safe (ofold (\<lambda>i s. obind (get_local (b + i) s) (\<lambda>v. release v s)) js s) (\<lambda>s'. owns p vs s' \<and> alike s s')"
  using assms
proof (induction js arbitrary: s)
  case (Cons j js)
  have "safe (obind (get_local (b + j) s) (\<lambda>v. release v s))
      (\<lambda>s'. owns p (map (\<lambda>i. v_locals s (b + i)) js @ vs) s' \<and> alike s s')"
    by (rule safe_get_local) (use Cons.prems in \<open>auto intro: safe_release_vm\<close>)
  then show ?case unfolding ofold.simps
  proof (rule safe_obind)
    fix s1 assume s1: "owns p (map (\<lambda>i. v_locals s (b + i)) js @ vs) s1 \<and> alike s s1"
    then have "owns p (map (\<lambda>i. v_locals s1 (b + i)) js @ vs) s1" by (simp add: alike_def)
    from Cons.IH [OF this] s1
    show "safe (ofold (\<lambda>i s. obind (get_local (b + i) s) (\<lambda>v. release v s)) js s1) (\<lambda>s'. owns p vs s' \<and> alike s s')"
      by (auto elim!: safe_mono intro: alike_trans)
  qed
qed simp

lemma owns_pop_frame:
  assumes "owns p vs (s\<lparr>v_frames := f # fs\<rparr>)"
  shows "owns p (map (\<lambda>i. v_locals s (fr_base f + i)) [0..<fr_nlocals f] @ vs) (s\<lparr>v_frames := fs\<rparr>)"
proof -
  have "frame_vals s f = map (\<lambda>i. v_locals s (fr_base f + i)) [0..<fr_nlocals f]"
    by (rule nth_equalityI) (simp_all add: frame_vals_def)
  moreover have "frame_vals (s\<lparr>v_frames := g\<rparr>) = frame_vals s" for g by (simp add: frame_vals_def [abs_def])
  ultimately show ?thesis
    by (intro owns_move [OF assms]) (simp_all add: roots_def the_heap_def del: mset_concat mset_map)
qed

lemma safe_release_frame:
  assumes "owns p vs (s\<lparr>v_frames := f # fs\<rparr>)"
  shows "safe (release_locals f (s\<lparr>v_frames := fs\<rparr>)) (\<lambda>s'. owns p vs s' \<and> alike (s\<lparr>v_frames := fs\<rparr>) s')"
  unfolding release_locals_def
  by (rule safe_release_slots) (use owns_pop_frame [OF assms] in simp)

lemma safe_op_RET:
  assumes o: "owns p vs s"
  shows "safe (op_RET s) (\<lambda>r. case r of Next s' \<Rightarrow> owns p vs s' | Stop s' \<Rightarrow> owns p vs s')"
  unfolding op_RET_def
proof (rule own_pop [OF o], unfold prod.case)
  fix v st assume o1: "owns p (v # vs) (s\<lparr>v_stk := st\<rparr>)"
  let ?s = "s\<lparr>v_stk := st\<rparr>"
  show "safe (case v_frames ?s of [] \<Rightarrow> Fatal ''malformed .pyro: return with no frame to return to''
    | f # fs \<Rightarrow> obind (release_locals f (?s\<lparr>v_frames := fs\<rparr>)) (\<lambda>s2.
        if fr_retpc f < 0 then obind (release v s2) (\<lambda>s3. Ok (Stop s3)) else Ok (Next (push v (s2\<lparr>v_pc := fr_retpc f\<rparr>)))))
    (\<lambda>r. case r of Next s' \<Rightarrow> owns p vs s' | Stop s' \<Rightarrow> owns p vs s')"
  proof (cases "v_frames ?s")
    case (Cons f fs)
    then have "?s\<lparr>v_frames := f # fs\<rparr> = ?s" by (cases s) simp
    then have "owns p (v # vs) (?s\<lparr>v_frames := f # fs\<rparr>)" using o1 by simp
    from safe_release_frame [OF this] show ?thesis unfolding Cons list.case
    proof (rule safe_obind)
      fix s2 assume s2: "owns p (v # vs) s2 \<and> alike (?s\<lparr>v_frames := fs\<rparr>) s2"
      have "owns p (v # vs) (s2\<lparr>v_pc := pc\<rparr>)" for pc
        using owns_alike [of s2 "s2\<lparr>v_pc := pc\<rparr>" p "v # vs"] s2 by (simp add: alike_def the_heap_def)
      with s2 show "safe (if fr_retpc f < 0 then obind (release v s2) (\<lambda>s3. Ok (Stop s3))
          else Ok (Next (push v (s2\<lparr>v_pc := fr_retpc f\<rparr>))))
          (\<lambda>r. case r of Next s' \<Rightarrow> owns p vs s' | Stop s' \<Rightarrow> owns p vs s')"
        by (auto intro: owns_push elim!: own_release)
    qed
  qed simp
qed


lemma safe_unwind_stack: "owns p vs (s\<lparr>v_stk := st\<rparr>) \<Longrightarrow> safe (unwind_stack n st s) (\<lambda>s'. owns p vs s')"
proof (induction n st s rule: unwind_stack.induct)
  case (2 n v st s)
  show ?case
  proof (cases "n < length (v # st)")
    case True
    have "owns p (v # vs) (s\<lparr>v_stk := st\<rparr>)"
      using owns_pop [OF "2.prems", of v st] by simp
    from safe_release_vm [OF this] have "safe (obind (release v (s\<lparr>v_stk := st\<rparr>)) (unwind_stack n st)) (owns p vs)"
    proof (rule safe_obind)
      fix s1 assume run: "release v (s\<lparr>v_stk := st\<rparr>) = Ok s1" and s1: "owns p vs s1 \<and> alike (s\<lparr>v_stk := st\<rparr>) s1"
      then have "s1\<lparr>v_stk := st\<rparr> = s1" by (cases s1) (simp add: alike_def)
      with s1 have "owns p vs (s1\<lparr>v_stk := st\<rparr>)" by simp
      with True run show "safe (unwind_stack n st s1) (owns p vs)" by (rule "2.IH")
    qed
    with True show ?thesis by simp
  qed (use "2.prems" in simp)
qed simp

lemma safe_unwind_frames: "owns p vs (s\<lparr>v_frames := fs\<rparr>) \<Longrightarrow> safe (unwind_frames n fs s) (\<lambda>s'. owns p vs s')"
proof (induction n fs s rule: unwind_frames.induct)
  case (2 n f fs s)
  show ?case
  proof (cases "n < length (f # fs)")
    case True
    have "safe (obind (release_locals f (s\<lparr>v_frames := fs\<rparr>)) (unwind_frames n fs)) (owns p vs)"
    proof (rule safe_obind [OF safe_release_frame [OF "2.prems"]])
      fix s1 assume run: "release_locals f (s\<lparr>v_frames := fs\<rparr>) = Ok s1" and s1: "owns p vs s1 \<and> alike (s\<lparr>v_frames := fs\<rparr>) s1"
      then have "s1\<lparr>v_frames := fs\<rparr> = s1" by (cases s1) (simp add: alike_def)
      with s1 have "owns p vs (s1\<lparr>v_frames := fs\<rparr>)" by simp
      with True run show "safe (unwind_frames n fs s1) (owns p vs)" by (rule "2.IH")
    qed
    with True show ?thesis by simp
  qed (use "2.prems" in simp)
qed simp

definition handler_in_scope :: "vm \<Rightarrow> bool" where
  \<comment> \<open>the slot the newest handler stores the exception in lies in the frame that is left after unwinding\<close>
  "handler_in_scope s = (case v_handlers s of [] \<Rightarrow> True
     | h # _ \<Rightarrow> h_slot h = 0xFFFF \<or>
        (case drop (length (v_frames s) - h_fp h) (v_frames s) of [] \<Rightarrow> False
         | f # _ \<Rightarrow> unat (h_slot h) < fr_nlocals f))"

lemma owns_pc: "owns p vs (s\<lparr>v_pc := pc\<rparr>) = owns p vs s"
  by (rule owns_alike) (simp_all add: alike_def the_heap_def)

lemma owns_handlers: "owns p vs (s\<lparr>v_handlers := hs\<rparr>) = owns p vs s"
  by (simp add: owns_def roots_def frame_vals_def [abs_def] the_heap_def)

lemma safe_catch:
  assumes o: "owns p (v # vs) s" and slot: "h_slot h = 0xFFFF \<or>
      (\<exists>f fs. v_frames s = f # fs \<and> in_top s (fr_base f + unat (h_slot h)))"
  shows "safe (if h_slot h \<noteq> 0xFFFF
      then obind (top_frame s) (\<lambda>f. obind (get_local (fr_base f + unat (h_slot h)) s) (\<lambda>old.
        obind (release old s) (\<lambda>s3. set_local (fr_base f + unat (h_slot h)) v s3)))
      else release v s) (owns p vs)"
proof (cases "h_slot h = 0xFFFF")
  case True
  with own_release_last [OF o] show ?thesis by simp
next
  case False
  with slot obtain f fs where f: "v_frames s = f # fs" "in_top s (fr_base f + unat (h_slot h))" by blast
  let ?i = "fr_base f + unat (h_slot h)"
  have "safe (obind (get_local ?i s) (\<lambda>old. obind (release old s) (\<lambda>s3. set_local ?i v s3))) (owns p vs)"
  proof (rule safe_get_local, rule own_release_under [where u = "clear ?i", OF _ _ owns_clear [OF o f(2)]])
    fix s3 assume s3: "alike s s3" "owns p (v # vs) (clear ?i s3)"
    have "in_top s3 ?i" using f(2) s3(1) by (simp add: in_top_def alike_def)
    then show "safe (set_local ?i v s3) (owns p vs)"
      using owns_fill [OF s3(2)] by (intro safe_mono [OF safe_set_local]) simp
  qed (simp_all add: clear_def)
  with False f(1) show ?thesis by (simp add: top_frame_def)
qed

lemma safe_raise:
  assumes o: "owns p (v # vs) s" and ctl: "ctl_ok p s" and scope: "handler_in_scope s"
  shows "safe (raise_exception v s) (\<lambda>(caught, s'). if caught then owns p vs s' else s' = s)"
proof (cases "v_handlers s")
  case Nil
  then show ?thesis by (simp add: raise_exception_def)
next
  case (Cons h hs)
  have o1: "owns p (v # vs) (s\<lparr>v_handlers := hs, v_stk := v_stk s\<rparr>)" using o by (simp add: owns_handlers)
  show ?thesis
    unfolding raise_exception_def Cons list.case Let_def
  proof (rule safe_obind [OF safe_unwind_stack [OF o1]], rule safe_obind [OF safe_unwind_frames])
    fix s1 assume s1: "unwind_stack (h_sp h) (v_stk s) (s\<lparr>v_handlers := hs\<rparr>) = Ok s1" "owns p (v # vs) s1"
    then show "owns p (v # vs) (s1\<lparr>v_frames := v_frames s1\<rparr>)" by simp
    fix s2 assume s2: "unwind_frames (h_fp h) (v_frames s1) s1 = Ok s2" "owns p (v # vs) s2"
    have fr: "v_frames s2 = drop (length (v_frames s) - h_fp h) (v_frames s)"
      using unwind_frames_Ok [OF s2(1)] unwind_stack_Ok [OF s1(1)] by simp
    have "h_slot h = 0xFFFF \<or> (\<exists>f fs. v_frames s2 = f # fs \<and> in_top s2 (fr_base f + unat (h_slot h)))"
    proof (cases "h_slot h = 0xFFFF")
      case False
      with scope Cons fr obtain f fs where f: "v_frames s2 = f # fs" "unat (h_slot h) < fr_nlocals f"
        by (auto simp: handler_in_scope_def split: list.splits)
      have "length (v_frames s) - h_fp h < length (v_frames s)"
        using f(1) fr by (metis drop_all leI list.distinct(1))
      then have "frames_ok p (v_frames s2)" using ctl frames_ok_drop fr by (simp add: ctl_ok_def)
      from in_topI [OF this f] f(1) show ?thesis by blast
    qed simp
    from safe_catch [OF s2(2) this]
    show "safe (obind (if h_slot h \<noteq> 0xFFFF
        then obind (top_frame s2) (\<lambda>f. obind (get_local (fr_base f + unat (h_slot h)) s2) (\<lambda>old.
          obind (release old s2) (\<lambda>s3. set_local (fr_base f + unat (h_slot h)) v s3)))
        else release v s2) (\<lambda>s4. Ok (True, s4\<lparr>v_pc := h_catch h\<rparr>)))
        (\<lambda>(caught, s'). if caught then owns p vs s' else s' = s)"
      by (rule safe_obind) (simp add: owns_pc)
  qed
qed

lemma reads_err_buf: "reads (err_buf t)"
  by (simp add: err_buf_def) (auto intro!: safe_guarded)

lemma handler_in_scope_same: "same s s' \<Longrightarrow> handler_in_scope s' = handler_in_scope s"
  by (simp add: same_def handler_in_scope_def split: list.split)

lemma handler_in_scope_stk [simp]: "handler_in_scope (s\<lparr>v_stk := st\<rparr>) = handler_in_scope s"
  by (simp add: handler_in_scope_def split: list.split)

lemma safe_op_THROW:
  assumes o: "owns p vs s" and ctl: "ctl_ok p s" and scope: "handler_in_scope s"
  shows "safe (op_THROW s) (owns p vs)"
  unfolding op_THROW_def
proof (rule own_pop [OF o], unfold prod.case)
  fix v st assume o1: "owns p (v # vs) (s\<lparr>v_stk := st\<rparr>)"
  have "safe (raise_exception v (s\<lparr>v_stk := st\<rparr>)) (\<lambda>(caught, s'). if caught then owns p vs s' else s' = s\<lparr>v_stk := st\<rparr>)"
    by (rule safe_raise [OF o1 ctl_ok_stk [OF ctl]]) (simp add: scope)
  then show "safe (obind (raise_exception v (s\<lparr>v_stk := st\<rparr>)) (\<lambda>(caught, s2). if caught then Ok s2
      else obind (value_to_string (the_heap s2) v) (\<lambda>t. obind (err_buf (''uncaught exception: '' @ t)) Fatal))) (owns p vs)"
  proof (rule safe_obind)
    fix x assume "case x of (caught, s') \<Rightarrow> if caught then owns p vs s' else s' = s\<lparr>v_stk := st\<rparr>"
    then show "safe (case x of (caught, s2) \<Rightarrow> if caught then Ok s2
      else obind (value_to_string (the_heap s2) v) (\<lambda>t. obind (err_buf (''uncaught exception: '' @ t)) Fatal)) (owns p vs)"
      using owns_heap_ok [OF o1] owns_ok [OF o1, of v]
      by (cases x) (auto intro!: reads_obind reads_values reads_err_buf)
  qed
qed


lemma own_new_string:
  assumes "owns p vs s" "\<And>v s'. alike s s' \<Longrightarrow> same s s' \<Longrightarrow> owns p (v # vs) s' \<Longrightarrow> safe (f (v, s')) Q"
  shows "safe (obind (on_heap_val (\<lambda>h. Ok (val_str t h)) s) f) Q"
proof -
  have new: "safe ((\<lambda>h. Ok (val_str t h)) (the_heap s)) (\<lambda>(v, h'). rc_sound ((v # vs) @ roots p s) h')"
    using sound_new(1) [OF ownsD [OF assms(1)]] by (cases "val_str t (the_heap s)") simp
  show ?thesis
    by (rule safe_obind [OF safe_on_heap_val [where f = "\<lambda>h. Ok (val_str t h)" and g = "\<lambda>v. v # vs" and s = s, OF new]]) (use assms(2) in \<open>auto dest: same_on_heap_val\<close>)
qed

lemma safe_op_ASSERT:
  assumes o: "owns p vs s" and ctl: "ctl_ok p s" and scope: "handler_in_scope s"
  shows "safe (op_ASSERT s) (owns p vs)"
  unfolding op_ASSERT_def
proof (rule own_pop [OF o], unfold prod.case, erule own_pop, unfold prod.case)
  fix cond st msg st2 let ?s = "s\<lparr>v_stk := st, v_stk := st2\<rparr>"
  assume o2: "owns p (msg # cond # vs) ?s"
  note ok = owns_heap_ok [OF o2] owns_ok [OF o2, of cond] owns_ok [OF o2, of msg]
  have ctl2: "ctl_ok p ?s" by (intro ctl_ok_stk ctl)
  have raise: "safe (obind (value_to_string (the_heap ?s) msg) (\<lambda>m. obind (err_buf (''[Cryo Assert] '' @ m)) (\<lambda>e.
      obind (on_heap_val (\<lambda>h. Ok (val_str e h)) ?s) (\<lambda>(v, s3). obind (raise_exception v s3) (\<lambda>(caught, s4).
      if caught then Ok s4 else Fatal e))))) (owns p (cond # msg # vs))"
  proof (rule reads_obind [OF reads_values(1)], use ok in simp, use ok in simp, rule reads_obind [OF reads_err_buf],
      rule own_new_string [OF o2], unfold prod.case)
    fix e v s3 assume a: "alike ?s s3" "same ?s s3" "owns p (v # msg # cond # vs) s3"
    have "handler_in_scope s3" using handler_in_scope_same [OF a(2)] scope by simp
    from safe_raise [OF a(3) ctl_ok_same2 [OF a(2) ctl2] this]
    show "safe (obind (raise_exception v s3) (\<lambda>(caught, s4). if caught then Ok s4 else Fatal e)) (owns p (cond # msg # vs))"
      by (rule safe_obind) (auto split: prod.splits if_splits simp: owns_swap)
  qed
  have pass: "owns p (cond # msg # vs) ?s" using o2 by (simp only: owns_swap [of p msg])
  show "safe (obind (value_truthy (the_heap ?s) cond) (\<lambda>t.
      obind (if t then Ok ?s else obind (value_to_string (the_heap ?s) msg) (\<lambda>m. obind (err_buf (''[Cryo Assert] '' @ m)) (\<lambda>e.
        obind (on_heap_val (\<lambda>h. Ok (val_str e h)) ?s) (\<lambda>(v, s3). obind (raise_exception v s3) (\<lambda>(caught, s4).
        if caught then Ok s4 else Fatal e))))) (\<lambda>s5. obind (release cond s5) (release msg)))) (owns p vs)"
  proof (rule reads_obind [OF reads_values(2)], use ok in simp, use ok in simp, rule safe_obind)
    fix t show "safe (if t then Ok ?s else obind (value_to_string (the_heap ?s) msg) (\<lambda>m. obind (err_buf (''[Cryo Assert] '' @ m)) (\<lambda>e.
        obind (on_heap_val (\<lambda>h. Ok (val_str e h)) ?s) (\<lambda>(v, s3). obind (raise_exception v s3) (\<lambda>(caught, s4).
        if caught then Ok s4 else Fatal e))))) (owns p (cond # msg # vs))"
      using raise pass by simp
  qed (auto elim!: own_release intro: own_release_last)
qed

lemma safe_op_UNWRAP:
  assumes o: "owns p vs s" and ctl: "ctl_ok p s" and scope: "handler_in_scope s"
  shows "safe (op_UNWRAP s) (owns p vs)"
  unfolding op_UNWRAP_def
proof (rule own_top [OF o], unfold prod.case, rule safe_if)
  show "safe (obind (pop s) (\<lambda>(_, s1). obind (on_heap_val (\<lambda>h. Ok (val_str ''[Cryo Security] unwrap of null value'' h)) s1) (\<lambda>(v, s2).
      obind (raise_exception v s2) (\<lambda>(caught, s3). if caught then Ok s3 else Fatal ''[Cryo Security] unwrap of null value'')))) (owns p vs)"
  proof (rule own_pop [OF o], unfold prod.case, drule owns_drop, erule own_new_string, unfold prod.case)
    fix w st v s2 assume a: "same (s\<lparr>v_stk := st\<rparr>) s2" "owns p (v # vs) s2"
    have "handler_in_scope s2" using handler_in_scope_same [OF a(1)] scope by simp
    from safe_raise [OF a(2) ctl_ok_same2 [OF a(1) ctl_ok_stk [OF ctl]] this]
    show "safe (obind (raise_exception v s2) (\<lambda>(caught, s3). if caught then Ok s3 else Fatal ''[Cryo Security] unwrap of null value'')) (owns p vs)"
      by (rule safe_obind) (auto split: prod.splits if_splits)
  qed
qed (use o in simp)

lemma safe_op_TRYPUSH: "owns p vs s \<Longrightarrow> safe (op_TRYPUSH p s) (owns p vs)"
  unfolding op_TRYPUSH_def
  by (rule safe_operand [OF safe_next(3)], assumption, unfold prod.case, rule safe_operand [OF safe_next(2)], assumption, unfold prod.case)
    (auto intro!: reads_obind safe_guarded simp: pyro_jump_to_def Let_def owns_handlers)

lemma safe_op_TRYPOP: "owns p vs s \<Longrightarrow> safe (op_TRYPOP s) (owns p vs)"
  by (simp add: op_TRYPOP_def owns_handlers)

section \<open>Builtins\<close>

definition owning :: "native_fn \<Rightarrow> bool" where
  \<comment> \<open>a builtin given live arguments touches live objects only and returns a reference of its own\<close>
  "owning nf \<longleftrightarrow> (\<forall>i vs r R. rc_sound R (heap r) \<longrightarrow> set vs \<subseteq> set R \<longrightarrow>
     safe (nf i vs r) (\<lambda>(v, r'). rc_sound (v # R) (heap r')))"

lemma safe_op_NATIVE:
  assumes nf: "owning nf" and o: "owns p vs s"
  shows "safe (op_NATIVE nf p s) (owns p vs)"
  unfolding op_NATIVE_def
proof (rule safe_operand [OF safe_next(1) o], unfold prod.case, rule safe_operand [OF safe_next(1)], assumption, unfold prod.case,
    rule own_popn, assumption, unfold prod.case)
  fix nid s2 args st assume o3: "owns p (args @ vs) (s2\<lparr>v_stk := st\<rparr>)"
  let ?s = "s2\<lparr>v_stk := st\<rparr>"
  have "rc_sound ((args @ vs) @ roots p ?s) (heap (v_rt s2))" using ownsD [OF o3] by (simp add: the_heap_def)
  moreover have "set args \<subseteq> set ((args @ vs) @ roots p ?s)" by auto
  ultimately have "safe (nf (unat nid) args (v_rt s2)) (\<lambda>(v, r). rc_sound (v # (args @ vs) @ roots p ?s) (heap r))"
    using nf unfolding owning_def by blast
  then show "safe (obind (nf (unat nid) args (v_rt s2)) (\<lambda>(res, r). obind (ofold release args (?s\<lparr>v_rt := r\<rparr>)) (\<lambda>s4. Ok (push res s4)))) (owns p vs)"
  proof (rule safe_obind)
    fix x :: "val \<times> rt" assume x: "case x of (v, r) \<Rightarrow> rc_sound (v # (args @ vs) @ roots p ?s) (heap r)"
    obtain v and r :: rt where vr: "x = (v, r)" by (cases x)
    have "roots p (?s\<lparr>v_rt := r\<rparr>) = roots p ?s" by (rule roots_alike) (simp add: alike_def)
    with x have "owns p (v # args @ vs) (?s\<lparr>v_rt := r\<rparr>)" by (simp add: vr owns_def the_heap_def)
    then have "owns p (args @ v # vs) (?s\<lparr>v_rt := r\<rparr>)" by (rule owns_less) simp
    from safe_release_all [OF this]
    show "safe (case x of (res, r) \<Rightarrow> obind (ofold release args (?s\<lparr>v_rt := r\<rparr>)) (\<lambda>s4. Ok (push res s4))) (owns p vs)"
      unfolding vr prod.case by (rule safe_obind) (auto intro: owns_push)
  qed
qed


section \<open>The dispatch loop\<close>

definition in_scope :: "program \<Rightarrow> vm \<Rightarrow> bool" where
  \<comment> \<open>the next instruction names a slot of the running frame; a raised exception is stored in a slot of its handler's frame\<close>
  "in_scope p s = (case next8 p s of
     Ok (b, s1) \<Rightarrow> (case decode_op b of
        None \<Rightarrow> True
      | Some x \<Rightarrow>
          if x = opLOAD \<or> x = opSTORE
          then (case next16 p s1 of Ok (n, _) \<Rightarrow> v_frames s \<noteq> [] \<and> n < fr_nlocals (hd (v_frames s)) | _ \<Rightarrow> True)
          else x \<in> {opTHROW, opASSERT, opUNWRAP} \<longrightarrow> handler_in_scope s)
   | _ \<Rightarrow> True)"

abbreviation owns_result :: "program \<Rightarrow> result \<Rightarrow> bool" where
  "owns_result p r \<equiv> (case r of Next s \<Rightarrow> owns p [] s | Stop s \<Rightarrow> owns p [] s)"

lemma safe_next_op: "safe m (owns p []) \<Longrightarrow> safe (next_vm m) (owns_result p)"
  unfolding next_vm_def by (rule safe_obind) auto

lemma safe_exec_op:
  assumes nf: "owning nf" and o: "owns p [] s" and ctl: "ctl_ok p s"
    and slot: "\<And>n s1. x = opLOAD \<or> x = opSTORE \<Longrightarrow> next16 p s = Ok (n, s1) \<Longrightarrow> n < fr_nlocals (hd (v_frames s))"
    and handler: "x \<in> {opTHROW, opASSERT, opUNWRAP} \<Longrightarrow> handler_in_scope s"
  shows "safe (exec_op x nf p s) (owns_result p)"
proof -
  obtain f fs where f: "v_frames s = f # fs" "frames_ok p (v_frames s)"
    using ctl by (cases "v_frames s") (simp_all add: ctl_ok_def)
  have top: "in_top s (fr_base (hd (v_frames s)) + n)"
    if "x = opLOAD \<or> x = opSTORE" "next16 p s = Ok (n, s1)" for n s1
    using in_topI [OF f(2,1)] slot [OF that] f(1) by simp
  have slots: "x = opLOAD \<Longrightarrow> safe (op_LOAD p s) (owns p [])" "x = opSTORE \<Longrightarrow> safe (op_STORE p s) (owns p [])"
    by (rule safe_op_LOAD [OF o], rule top, simp_all) (rule safe_op_STORE [OF o], rule top, simp_all)
  note plain = safe_op_POP [OF o] safe_op_COALESCE [OF o] safe_op_BIN [OF o] safe_op_NEG [OF o] safe_op_BNOT [OF o]
    safe_op_NOT [OF o] safe_op_PRINT [OF o] safe_op_INDEX [OF o] safe_op_SETIDX [OF o] safe_op_LEN [OF o]
    safe_op_APPEND [OF o] safe_op_HAS [OF o] safe_op_KEYS [OF o] safe_op_NEWARR [OF o] safe_op_NEWMAP [OF o]
    safe_op_PUSHFN [OF o] safe_op_CLOSURE [OF o] safe_op_CONST [OF o] safe_op_GETGLOBAL [OF o] safe_op_SETGLOBAL [OF o]
    safe_op_JMP [OF o] safe_op_JMPC [OF o] safe_op_TRYPUSH [OF o] safe_op_TRYPOP [OF o] safe_op_NATIVE [OF nf o]
    safe_op_CALL [OF o f(2)] safe_op_CALLVALUE [OF o f(2)]
  show ?thesis
  proof (cases "x \<in> {opLOAD, opSTORE, opTHROW, opASSERT, opUNWRAP, opRET, opHALT, opTRUE, opFALSE, opNULL, opPRINTLN, opSPAWN, opAWAIT}")
    case True
    with slots safe_op_THROW [OF o ctl handler] safe_op_ASSERT [OF o ctl handler]
      safe_op_UNWRAP [OF o ctl handler] safe_op_RET [OF o] o
    show ?thesis by (auto intro: safe_next_op)
  next
    case False
    then show ?thesis
      by (cases x; simp only: insert_iff simp_thms empty_iff opcode.distinct exec_op.simps) (rule safe_next_op, rule plain)+
  qed
qed

lemma safe_step:
  assumes nf: "owning nf" and p: "prog_ok p" and s: "state_ok p s" and o: "owns p [] s" and scope: "in_scope p s"
  shows "safe (step nf p s) (owns_result p)"
  unfolding step_def
proof (rule safe_guarded(2), rule safe_guarded(2), rule safe_obind [OF safe_next(1)])
  fix x assume x: "next8 p s = Ok x" and q: "case x of (b, s1) \<Rightarrow> alike s s1 \<and> v_rt s1 = v_rt s"
  obtain b s1 where b: "x = (b, s1)" by (cases x)
  from q have a: "alike s s1" "owns p [] s1" using o owns_alike [of s s1 p "[]"] by (simp_all add: b the_heap_def)
  note adv = operand_dests(1) [OF x [unfolded b]]
  have ctl: "ctl_ok p s1" using s p adv
    by (auto simp: state_ok_def intro!: ctl_ok_same [of p s] pc_ok_advanced [of p s])
  have check: "reads (check_operand p b s1)" unfolding check_operand_def Let_def by (rule safe_mono [OF safe_ofail]) simp
  have "safe (case decode_op b of None \<Rightarrow> Fatal ''invalid opcode in bytecode'' | Some x \<Rightarrow> exec_op x nf p s1) (owns_result p)"
  proof (cases "decode_op b")
    case (Some y)
    have "safe (exec_op y nf p s1) (owns_result p)"
    proof (rule safe_exec_op [OF nf a(2) ctl])
      show "n < fr_nlocals (hd (v_frames s1))" if "y = opLOAD \<or> y = opSTORE" "next16 p s1 = Ok (n, s2)" for n s2
        using scope that x Some a(1) by (auto simp: in_scope_def b alike_def)
      show "handler_in_scope s1" if "y \<in> {opTHROW, opASSERT, opUNWRAP}"
      proof -
        have "handler_in_scope s" using scope that x Some by (auto simp: in_scope_def b)
        then show ?thesis using a(1) by (cases "v_handlers s") (simp_all add: alike_def handler_in_scope_def)
      qed
    qed
    with Some show ?thesis by simp
  qed simp
  with check show "safe (case x of (b, s1) \<Rightarrow> obind (check_operand p b s1) (\<lambda>_. case decode_op b of
      None \<Rightarrow> Fatal ''invalid opcode in bytecode'' | Some x \<Rightarrow> exec_op x nf p s1)) (owns_result p)"
    unfolding b prod.case by (rule reads_obind)
qed

lemma start_owns:
  assumes "start p r = Ok s" "rc_sound (p_consts p) (heap r)"
  shows "owns p [] s"
proof -
  let ?n = "unat (fi_nlocals (p_funcs p ! unat (p_entryFn p)))"
  have "map (\<lambda>i. if i < ?n then VNull else VInt 0) [0..<?n] = replicate ?n VNull"
    by (rule nth_equalityI) simp_all
  with assms show ?thesis
    by (auto simp: start_def Let_def outcome_simps owns_def roots_def frame_vals_def the_heap_def rc_sound_nulls)
qed

text \<open>Executions whose instructions stay in scope.\<close>

inductive within :: "native_fn \<Rightarrow> program \<Rightarrow> rt \<Rightarrow> vm \<Rightarrow> bool" for nf p r where
  init: "start p r = Ok s \<Longrightarrow> within nf p r s"
| step: "within nf p r s \<Longrightarrow> in_scope p s \<Longrightarrow> step nf p s = Ok (Next s') \<Longrightarrow> within nf p r s'"

lemma within_reachable: "within nf p r s \<Longrightarrow> reachable nf p r s"
  by (induction rule: within.induct) (auto intro: reachable.intros)

lemma within_owns:
  assumes "within nf p r s" "owning nf" "prog_ok p" "rc_sound (p_consts p) (heap r)"
  shows "owns p [] s"
  using assms
proof (induction rule: within.induct)
  case (step s s')
  have "state_ok p s" using reachable_state_ok [OF within_reachable [OF step.hyps(1)]] step.prems(2) by simp
  from safe_step [OF step.prems(1,2) this step.IH [OF step.prems] step.hyps(2)] step.hyps(3) show ?case by simp
qed (rule start_owns)


section \<open>Why the slots matter\<close>

text \<open>
  The loader accepts this program. Its function makes a string, stores it in its local and returns, which frees the
  string; the caller then loads the slot behind its own frame.
\<close>

definition stale_slot :: program where
  "stale_slot = \<lparr>p_consts = [VStr 0],
     p_funcs = [\<lparr>fi_name = ''main'', fi_entry = 0, fi_nparams = 0, fi_nlocals = 1\<rparr>,
       \<lparr>fi_name = ''f'', fi_entry = 8, fi_nparams = 0, fi_nlocals = 1\<rparr>],
     p_entryFn = 0,
     p_code = [op_byte opCALL, 1, 0, 0, op_byte opLOAD, 1, 0, op_byte opHALT,
       op_byte opCONST, 0, 0, op_byte opCONST, 0, 0, op_byte opADD, op_byte opSTORE, 0, 0, op_byte opNULL, op_byte opRET],
     p_codelen = 20, p_dbg = [], p_sandboxed = False\<rparr>"

definition stale_rt :: rt where
  "stale_rt = initial_rt\<lparr>heap := [Some \<lparr>rc = 1, cbody = BStr ''a''\<rparr>]\<rparr>"

lemma stale_slot_run: "case run_program 9 no_native stale_slot stale_rt of Some (UB u) \<Rightarrow> u = DanglingPtr | _ \<Rightarrow> False"
  by code_simp

lemma run_UB_reachable:
  assumes "reachable nf p r s" "run n nf p s = Some (UB u)"
  shows "\<exists>t. reachable nf p r t \<and> step nf p t = UB u"
  using assms
proof (induction n arbitrary: s)
  case (Suc n)
  then show ?case by (auto split: outcome.splits result.splits intro: reachable.step)
qed simp

lemma stale_slot_dangles:
  "prog_ok stale_slot \<and> rc_sound (p_consts stale_slot) (heap stale_rt) \<and>
   (\<exists>s. reachable no_native stale_slot stale_rt s \<and> step no_native stale_slot s = UB DanglingPtr)"
proof -
  have p: "prog_ok stale_slot" by (simp add: prog_ok_def stale_slot_def)
  have own: "rc_sound (p_consts stale_slot) (heap stale_rt)"
    by (simp add: stale_slot_def stale_rt_def heap_eval)
  obtain s0 where s0: "start stale_slot stale_rt = Ok s0" by (auto simp: start_def stale_slot_def Let_def)
  then have "run 9 no_native stale_slot s0 = Some (UB DanglingPtr)"
    using stale_slot_run by (auto simp: run_program_def split: option.splits outcome.splits)
  from run_UB_reachable [OF reachable.init [OF s0] this] p own show ?thesis by blast
qed

end
