(* ===== verification/Sorting.thy ===== *)
theory Sorting
  imports Builtins Growth
begin

text \<open>
  The builtin \<open>sort()\<close>: on numbers without NaN and on NUL-free strings it returns a new array with the
  stable sort of the elements, numbers by the order of their doubles, strings by their bytes, and it leaves
  the argument and the ownership invariant as they were. The insertion sort is stated once, for any
  comparison that decides a linear key.
\<close>

section \<open>Insertion sort\<close>

definition decides :: "('a \<Rightarrow> 'a \<Rightarrow> bool outcome) \<Rightarrow> ('a \<Rightarrow> 'k::linorder) \<Rightarrow> 'a set \<Rightarrow> bool" where
  "decides lt k A \<longleftrightarrow> (\<forall>x \<in> A. \<forall>y \<in> A. lt x y = Ok (k x < k y))"

lemma sink_Ok:
  assumes "decides lt k A" "x \<in> A" "set ys \<subseteq> A"
  shows "sink lt x ys = Ok (takeWhile (\<lambda>y. k x < k y) ys @ x # dropWhile (\<lambda>y. k x < k y) ys)"
  using assms(3) by (induction ys) (use assms(1,2) in \<open>auto simp: decides_def\<close>)

definition sorts :: "('a \<Rightarrow> 'k::linorder) \<Rightarrow> 'a list \<Rightarrow> 'a list \<Rightarrow> bool" where
  \<comment> \<open>\<open>ys\<close>, read backwards, is the stable sort of \<open>xs\<close>\<close>
  "sorts k xs ys \<longleftrightarrow> mset ys = mset xs \<and> sorted_wrt (\<lambda>y z. k z \<le> k y) ys \<and>
     (\<forall>c. filter (\<lambda>y. k y = c) (rev ys) = filter (\<lambda>y. k y = c) xs)"

lemma sorts_sort_key:
  assumes "sorts k xs ys" shows "rev ys = sort_key k xs"
proof (rule properties_for_sort_key [symmetric])
  show "mset (rev ys) = mset xs" using assms by (simp add: sorts_def)
  show "filter (\<lambda>x. k c = k x) (rev ys) = filter (\<lambda>x. k c = k x) xs" for c
  proof -
    have "(\<lambda>x. k c = k x) = (\<lambda>x. k x = k c)" by auto
    with assms show ?thesis by (simp add: sorts_def)
  qed
  have "sorted_wrt (\<lambda>y z. k y \<le> k z) (rev ys)" using assms by (simp add: sorts_def sorted_wrt_rev)
  then show "sorted (map k (rev ys))" by (simp add: sorted_map)
qed

lemma sorts_sink:
  assumes "sorts k xs ys"
  shows "sorts k (xs @ [x]) (takeWhile (\<lambda>y. k x < k y) ys @ x # dropWhile (\<lambda>y. k x < k y) ys)"
proof -
  let ?T = "takeWhile (\<lambda>y. k x < k y) ys" and ?D = "dropWhile (\<lambda>y. k x < k y) ys"
  have ys: "ys = ?T @ ?D" by simp
  have desc: "sorted_wrt (\<lambda>y z. k z \<le> k y) (?T @ ?D)" using assms by (simp add: sorts_def)
  have T: "k x < k y" if "y \<in> set ?T" for y using set_takeWhileD [OF that] by blast
  have D: "k y \<le> k x" if "y \<in> set ?D" for y
  proof (cases ?D)
    case (Cons d ds)
    then have "\<not> k x < k d" using hd_dropWhile [of "\<lambda>y. k x < k y" ys] by auto
    moreover have "k y \<le> k d" using desc that Cons by (auto simp: sorted_wrt_append)
    ultimately show ?thesis by simp
  next
    case Nil
    with that show ?thesis by (simp only: Nil list.set empty_iff)
  qed
  have "mset ?T + mset ?D = mset ys" by (metis mset_append takeWhile_dropWhile_id)
  have "mset (?T @ x # ?D) = mset (xs @ [x])"
    using assms \<open>mset ?T + mset ?D = mset ys\<close> by (simp add: sorts_def)
  moreover have "sorted_wrt (\<lambda>y z. k z \<le> k y) (?T @ x # ?D)"
  proof -
    have "sorted_wrt (\<lambda>y z. k z \<le> k y) ?T" "sorted_wrt (\<lambda>y z. k z \<le> k y) ?D"
      using desc unfolding sorted_wrt_append by blast+
    then show ?thesis
      using T D by (auto simp: sorted_wrt_append less_imp_le intro: order_trans [OF D less_imp_le [OF T]])
  qed
  moreover have "filter (\<lambda>y. k y = c) (rev (?T @ x # ?D)) = filter (\<lambda>y. k y = c) (xs @ [x])" for c
  proof -
    have "filter (\<lambda>y. k y = c) (rev ys) = filter (\<lambda>y. k y = c) xs" using assms by (simp add: sorts_def)
    then have "filter (\<lambda>y. k y = c) (rev ?D) @ filter (\<lambda>y. k y = c) (rev ?T) = filter (\<lambda>y. k y = c) xs"
      by (metis filter_append rev_append takeWhile_dropWhile_id)
    moreover have "filter (\<lambda>y. k y = c) (rev ?T) = []" if "k x = c"
      using that by (auto simp: filter_empty_conv dest: T)
    ultimately show ?thesis by (cases "k x = c") auto
  qed
  ultimately show ?thesis by (simp only: sorts_def simp_thms)
qed

lemma insertion_sort_Ok:
  assumes "decides lt k (set xs)"
  shows "insertion_sort lt xs = Ok (sort_key k xs)"
proof -
  have "\<exists>ys. ofold (sink lt) zs ys0 = Ok ys \<and> sorts k (pre @ zs) ys"
    if "set pre \<subseteq> set xs" "set zs \<subseteq> set xs" "sorts k pre ys0" for pre zs ys0
    using that
  proof (induction zs arbitrary: pre ys0)
    case (Cons z zs)
    let ?ys = "takeWhile (\<lambda>y. k z < k y) ys0 @ z # dropWhile (\<lambda>y. k z < k y) ys0"
    have "set ys0 \<subseteq> set xs" using Cons.prems(1,3) by (auto simp: sorts_def dest: mset_eq_setD)
    then have "sink lt z ys0 = Ok ?ys" using Cons.prems(2) by (intro sink_Ok [OF assms]) auto
    with Cons.IH [of "pre @ [z]" ?ys] Cons.prems sorts_sink [OF Cons.prems(3), of z] show ?case by simp
  qed auto
  from this [of "[]" xs "[]"] obtain ys where "ofold (sink lt) xs [] = Ok ys" "sorts k xs ys"
    by (auto simp: sorts_def)
  then show ?thesis by (simp add: insertion_sort_def sorts_sort_key)
qed

section \<open>The comparison\<close>

definition num_key :: "val \<Rightarrow> int" where
  "num_key v = (case value_as_float v of Ok d \<Rightarrow> f_key d | _ \<Rightarrow> 0)"

definition ordered_num :: "val \<Rightarrow> bool" where
  \<comment> \<open>a number that is not NaN\<close>
  "ordered_num v \<longleftrightarrow> is_num v \<and> (case value_as_float v of Ok d \<Rightarrow> \<not> f_isnan d | _ \<Rightarrow> False)"

lemma native_less_nums: "decides (native_less h) num_key {v. ordered_num v}"
  by (auto simp: decides_def native_less_def ordered_num_def num_key_def f_lt_def split: outcome.splits)

lemma native_less_strings: "decides (native_less h) (str_of h) (str_vals h)"
proof -
  have "is_num x = False" "value_to_string h x = Ok (str_of h x)" if x: "x \<in> str_vals h" for x
    using str_vals_live [OF x] value_to_string_VStr by (auto simp: is_num_def c_str_id)
  then show ?thesis by (simp add: decides_def native_less_def strcmp_less)
qed

lemma decides_mono: "decides lt k B \<Longrightarrow> A \<subseteq> B \<Longrightarrow> decides lt k A"
  by (auto simp: decides_def)

section \<open>The new array\<close>

lemma push_all_sound:
  assumes R: "VArr b \<in> set R" "VArr a \<in> set R" "a \<noteq> b"
  shows "rc_sound R h \<Longrightarrow> deref_arr h a = Ok (xs, c) \<Longrightarrow> set zs \<subseteq> set xs \<Longrightarrow>
    deref_arr h b = Ok (ys, cap) \<Longrightarrow> 0 < cap \<Longrightarrow> length ys \<le> cap \<Longrightarrow>
    \<exists>h' cap'. ofold (rc_array_push b) zs h = Ok h' \<and> rc_sound R h' \<and> deref_arr h' b = Ok (ys @ zs, cap') \<and>
      deref_arr h' a = Ok (xs, c) \<and> hext {b} h' h"
proof (induction zs arbitrary: h ys cap)
  case (Cons z zs)
  have held: "z \<in> set R \<union> set (all_held h {})" using array_elem_held [OF Cons.prems(2)] Cons.prems(3) by auto
  let ?b = "BArr (ys @ [z]) (push_cap (length ys) cap)"
  obtain h1 where h1: "rc_array_push b z h = Ok h1" "rc_sound R h1"
      "deref_arr h1 b = Ok (ys @ [z], push_cap (length ys) cap)" "hsub h1 (setb h b ?b)"
    by (rule rc_array_push_sound [OF Cons.prems(1) held R(1) Cons.prems(4-6)])
  have ext: "hext {b} h1 h" by (rule hext_setb [OF h1(4)])
  have a1: "deref_arr h1 a = Ok (xs, c)"
    by (rule hext_arr [OF ext Cons.prems(2) _ h1(2) R(2)]) (use R(3) in simp)
  have "0 < push_cap (length ys) cap" "length (ys @ [z]) \<le> push_cap (length ys) cap"
    using Cons.prems(5,6) by (auto simp: push_cap_def)
  from Cons.IH [OF h1(2) a1 _ h1(3) this] Cons.prems(3) obtain h' cap' where
      "ofold (rc_array_push b) zs h1 = Ok h'" "rc_sound R h'" "deref_arr h' b = Ok ((ys @ [z]) @ zs, cap')"
      "deref_arr h' a = Ok (xs, c)" "hext {b} h' h1"
    by auto
  with h1(1) ext show ?case by (auto intro: hext_trans)
qed auto

lemma copy_array_sound:
  assumes "rc_sound R h" "VArr a \<in> set R" "deref_arr h a = Ok (xs, cap)"
  shows "\<exists>b h' cap'. copy_array xs h = Ok (b, h') \<and> rc_sound (VArr b # R) h' \<and> deref_arr h' b = Ok (xs, cap') \<and>
    deref_arr h' a = Ok (xs, cap) \<and> a \<noteq> b \<and> hext {} h' h"
proof -
  obtain b h1 where new: "rc_array_new h = (b, h1)" by fastforce
  note n = new_array [OF assms(1) new]
  obtain c where h1: "h1 = h @ [c]" using n(4) by blast
  have ext: "hext {} h1 h" by (simp add: h1 hext_append)
  have "a < length h" using assms(3) by (auto simp: deref_arr_Ok_iff dest: hget_Some_less)
  then have ne: "a \<noteq> b" using n(2) by simp
  have a1: "deref_arr h1 a = Ok (xs, cap)"
    by (rule hext_arr [OF ext assms(3) _ n(1)]) (use assms(2) in auto)
  from push_all_sound [of b "VArr b # R" a h1 xs cap xs "[]" 8] n(1,3) a1 ne assms(2) obtain h' cap' where
      h': "ofold (rc_array_push b) xs h1 = Ok h'" "rc_sound (VArr b # R) h'" "deref_arr h' b = Ok (xs, cap')"
      "deref_arr h' a = Ok (xs, cap)" "hext {b} h' h1"
    by auto
  have "hext {} h' h" using h'(5) n(2) unfolding h1 by (auto intro: hext_new)
  with h' new ne show ?thesis by (simp add: copy_array_def)
qed

lemma permute_sound:
  assumes "rc_sound R h" "VArr b \<in> set R" "deref_arr h b = Ok (xs, cap)" "mset ys = mset xs"
  shows "hset_body h b (BArr ys cap) = Ok (setb h b (BArr ys cap))" "rc_sound R (setb h b (BArr ys cap))"
    "deref_arr (setb h b (BArr ys cap)) b = Ok (ys, cap)"
proof -
  obtain c where c: "hget h b = Some c" "cbody c = BArr xs cap" using assms(3) by (auto simp: deref_arr_Ok_iff)
  show "hset_body h b (BArr ys cap) = Ok (setb h b (BArr ys cap))" by (rule hset_body_setb [OF c(1)])
  show "rc_sound R (setb h b (BArr ys cap))"
    by (rule rc_sound_setb [OF assms(1) c(1)]) (simp_all add: c(2) assms(4) kind_ok_def)
  show "deref_arr (setb h b (BArr ys cap)) b = Ok (ys, cap)"
    using c(1) by (simp add: deref_arr_Ok_iff)
qed

definition sorted_vals :: "heap \<Rightarrow> val list \<Rightarrow> val list" where
  "sorted_vals h xs = (if set xs \<subseteq> str_vals h then sort_key (str_of h) xs else sort_key num_key xs)"

lemma sort_in_new_heap:
  assumes ext: "hext {} h' h" and inv: "rc_sound R h'" and a: "deref_arr h' a = Ok (xs, cap)"
    and xs: "set xs \<subseteq> str_vals h \<or> list_all ordered_num xs"
  shows "insertion_sort (native_less h') xs = Ok (sorted_vals h xs)"
proof (cases "set xs \<subseteq> str_vals h")
  case True
  have same: "x \<in> str_vals h' \<and> str_of h' x = str_of h x" if x: "x \<in> set xs" for x
  proof -
    from True x str_vals_live obtain b where b: "val_addr x = Some b" by fastforce
    have "val_ok h' x"
      using rc_inv_val_ok [OF inv [unfolded rc_sound_def]] array_elem_held [OF a x] by blast
    from hext_str [OF ext _ b _ this] True x show ?thesis by auto
  qed
  have "decides (native_less h') (str_of h) (set xs)"
    using decides_mono [OF native_less_strings, of "set xs" h'] same by (auto simp: decides_def)
  from insertion_sort_Ok [OF this] True show ?thesis by (simp add: sorted_vals_def)
next
  case False
  with xs have "set xs \<subseteq> {v. ordered_num v}" by (auto simp: list_all_iff)
  from insertion_sort_Ok [OF decides_mono [OF native_less_nums this]] False show ?thesis
    by (simp add: sorted_vals_def)
qed


definition numbers_rt :: rt where
  "numbers_rt = initial_rt\<lparr>heap := [Some \<lparr>rc = 1, cbody = BArr [VInt 3, VInt 1, VInt 2] 4\<rparr>]\<rparr>"


end
