(* ===== verification/BuiltinSafety.thy ===== *)
theory BuiltinSafety
  imports MemorySafety Quiet Sorting
begin

text \<open>
  None of the builtins touches a freed object, whatever live arguments it is given and whatever the
  operating system answers, and each returns a reference of its own (\<open>owning (native os)\<close>).
\<close>

section \<open>Computations that never look at the heap\<close>

lemma safe_cases:
  "(\<And>x. x = a \<Longrightarrow> safe (f x) Q) \<Longrightarrow> safe (let x = a in f x) Q"
  "(\<And>x y. p = (x, y) \<Longrightarrow> safe (g x y) Q) \<Longrightarrow> safe (case p of (x, y) \<Rightarrow> g x y) Q"
  "(m = None \<Longrightarrow> safe e Q) \<Longrightarrow> (\<And>x. m = Some x \<Longrightarrow> safe (k x) Q) \<Longrightarrow> safe (case m of None \<Rightarrow> e | Some x \<Rightarrow> k x) Q"
  by (auto split: prod.split option.split)

lemma safe_case_val:
  "(\<And>i. v = VInt i \<Longrightarrow> safe (fi i) Q) \<Longrightarrow> (\<And>x. v = VFloat x \<Longrightarrow> safe (ff x) Q) \<Longrightarrow> (\<And>b. v = VBool b \<Longrightarrow> safe (fb b) Q) \<Longrightarrow>
   (\<And>a. v = VStr a \<Longrightarrow> safe (fs a) Q) \<Longrightarrow> (v = VNull \<Longrightarrow> safe fn Q) \<Longrightarrow> (\<And>a. v = VArr a \<Longrightarrow> safe (fa a) Q) \<Longrightarrow>
   (\<And>a. v = VMap a \<Longrightarrow> safe (fm a) Q) \<Longrightarrow> (\<And>i c. v = VFunc i c \<Longrightarrow> safe (fc i c) Q) \<Longrightarrow>
   safe (case v of VInt i \<Rightarrow> fi i | VFloat x \<Rightarrow> ff x | VBool b \<Rightarrow> fb b | VStr a \<Rightarrow> fs a | VNull \<Rightarrow> fn
     | VArr a \<Rightarrow> fa a | VMap a \<Rightarrow> fm a | VFunc i c \<Rightarrow> fc i c) Q"
  by (simp split: val.split)

lemma safe_done: "Q x \<Longrightarrow> safe (Ok x) Q" "safe (Fatal e) Q" "safe Diverge Q" "u \<noteq> DanglingPtr \<Longrightarrow> safe (UB u) Q"
  by simp_all

lemma reads_guards: "u \<noteq> DanglingPtr \<Longrightarrow> reads (oguard b u)" "reads (ofail b' e)"
  by (auto simp: oguard_def ofail_def)

lemma reads_ofold: "(\<And>x s. x \<in> set xs \<Longrightarrow> reads (f x s)) \<Longrightarrow> reads (ofold f xs s)"
  by (rule safe_ofold) simp_all

lemmas safe_flow = safe_if safe_cases safe_case_val safe_done

lemma reads_f_to_int: "reads (f_to_int f)"
  by (simp add: f_to_int_def Let_def)

lemma reads_args: "reads (arg vs k)" "reads (float_arg vs k)" "reads (int_arg vs k)" "reads (int_of v)" "reads (raw_int v)"
    "reads (int32_of v)" "reads (int_val i)" "reads (obind (arg vs k) as_i)" "reads (obind (arg vs k) raw_int)"
    "reads (obind (arg vs k) int32_of)"
proof -
  show arg: "reads (arg vs k)" by (simp add: arg_def)
  show int_of: "reads (int_of v)" for v
    unfolding int_of_def by (intro safe_flow TrueI reads_obind reads_as_i reads_f_to_int)
  show raw: "reads (raw_int v)" for v
    unfolding raw_int_def by (intro safe_flow TrueI reads_obind reads_as_i reads_f_to_int)
  show i32: "reads (int32_of v)" for v
    unfolding int32_of_def by (intro safe_flow TrueI reads_obind reads_as_i reads_f_to_int reads_guards) simp_all
  show "reads (float_arg vs k)" "reads (int_arg vs k)" "reads (int_val i)" "reads (obind (arg vs k) as_i)"
    "reads (obind (arg vs k) raw_int)" "reads (obind (arg vs k) int32_of)"
    unfolding float_arg_def int_arg_def int_val_def
    by (intro safe_done TrueI reads_obind arg int_of raw i32 reads_as_i)+
qed

lemma reads_conversions:
  "reads (to_int_str s)" "reads (to_number_str s)" "reads (str_substr s i n)" "reads (str_slice s i n)" "reads (str_repeat s n)"
  by (auto simp: to_int_str_def to_number_str_def str_substr_def str_slice_def str_repeat_def Let_def
      intro!: reads_obind reads_guards reads_err_buf split: prod.splits)

lemma reads_gates:
  "reads (cap_fs cwd rd p w r)" "reads (cap_net p w r)" "reads (cap_exec p w r)" "reads (cap_env p w r)"
  by (auto simp: cap_fs_def cap_net_def cap_exec_def cap_env_def cap_denied_def Let_def)

lemma reads_request: "reads (http_read_request mem ps)"
  unfolding http_read_request_def request_line_def buf_read_def
  by (intro safe_flow TrueI reads_obind reads_guards) simp

lemma reads_serve: "safe (http_serve_dir os d p r) Q"
  unfolding http_serve_dir_def http_serve_setup_def by (intro safe_flow TrueI reads_obind reads_guards)

lemmas reads_plain = reads_args reads_conversions reads_gates reads_request reads_serve reads_as_i reads_f_to_int reads_guards

section \<open>Results\<close>

definition gives :: "val list \<Rightarrow> val \<times> rt \<Rightarrow> bool" where
  \<comment> \<open>the value returned is owned, beside the references \<open>R\<close>\<close>
  "gives R x \<longleftrightarrow> rc_sound (fst x # R) (heap (snd x))"

definition plain :: "val \<Rightarrow> bool" where
  "plain v \<longleftrightarrow> val_addr v = None"

lemma plain_simps [simp]:
  "plain (VInt i)" "plain (VFloat f)" "plain (VBool b)" "plain VNull" "\<not> plain (VStr a)" "\<not> plain (VArr a)" "\<not> plain (VMap a)"
  by (simp_all add: plain_def)

lemma gives_plain: "rc_sound R (heap r) \<Longrightarrow> heap r' = heap r \<Longrightarrow> plain v \<Longrightarrow> gives R (v, r')"
  by (simp add: gives_def plain_def rc_sound_null)

lemma heap_ask [simp]: "heap (ask c r) = heap r"
  by (simp add: ask_def)

lemma heap_asks [simp]:
  "try_call os c r = (b, r') \<Longrightarrow> heap r' = heap r" "splitmix64_next r = (z, r') \<Longrightarrow> heap r' = heap r"
  "sock_send_all os f s r = (b, r') \<Longrightarrow> heap r' = heap r" "pyro_get_now_ms os r = (t, r') \<Longrightarrow> heap r' = heap r"
  by (auto simp: try_call_def splitmix64_next_def sock_send_all_def pyro_get_now_ms_def Let_def split: if_splits)

lemma heap_exchange: "http_exchange os hop url u body r = (x, r') \<Longrightarrow> heap r' = heap r"
  by (auto simp: http_exchange_def Let_def split: option.splits prod.splits if_splits)

lemma heap_hops: "http_hops n os hop url body r = (x, r') \<Longrightarrow> heap r' = heap r"
proof (induction n arbitrary: hop url body r)
  case (Suc n)
  then show ?case
    by (auto simp: Let_def split: option.splits if_splits prod.splits dest!: heap_exchange)
qed simp

lemma heap_effects [simp]:
  "http_client_request os url body r = (x, r') \<Longrightarrow> heap r' = heap r" "http_listen os port r = (b, r') \<Longrightarrow> heap r' = heap r"
  "http_respond os st ct pl r = (b, r') \<Longrightarrow> heap r' = heap r"
  by (auto simp: http_client_request_def http_listen_def http_respond_def Let_def dest: heap_hops split: prod.splits if_splits)

lemma heap_make_parents [simp]: "heap (make_parents os p ds r) = heap r"
proof (induction os p ds r rule: make_parents.induct)
  case (2 os p d ds r)
  obtain b r1 where r1: "try_call os (IsDir d) r = (b, r1)" by fastforce
  obtain b2 r2 where r2: "try_call os (MakeDir p d) r1 = (b2, r2)" by fastforce
  from 2 heap_asks(1) [OF r1] heap_asks(1) [OF r2] show ?case by (simp add: r1 r2)
qed simp

lemma heap_mkdir_all [simp]: "pyro_mkdir_all os p r = (b, r') \<Longrightarrow> heap r' = heap r"
  by (auto simp: pyro_mkdir_all_def Let_def split: prod.splits if_splits)


section \<open>Strings, arrays and maps made by builtins\<close>

lemma safe_val_str:
  "rc_sound R h \<Longrightarrow> (\<And>v h1. val_str t h = (v, h1) \<Longrightarrow> rc_sound (v # R) h1 \<Longrightarrow> safe (f v h1) Q) \<Longrightarrow>
   safe (let (v, h1) = val_str t h in f v h1) Q"
  using sound_new(1) [of R h t] by (cases "val_str t h") simp

lemma safe_new_array:
  "rc_sound R h \<Longrightarrow> (\<And>a h1. rc_array_new h = (a, h1) \<Longrightarrow> rc_sound (VArr a # R) h1 \<Longrightarrow> safe (f a h1) Q) \<Longrightarrow>
   safe (let (a, h1) = rc_array_new h in f a h1) Q"
  using sound_new(2) [of R h] by (cases "rc_array_new h") simp

lemma safe_new_map:
  "rc_sound R h \<Longrightarrow> (\<And>a h1. rc_map_new h = (a, h1) \<Longrightarrow> rc_sound (VMap a # R) h1 \<Longrightarrow> safe (f a h1) Q) \<Longrightarrow>
   safe (let (a, h1) = rc_map_new h in f a h1) Q"
  using sound_new(3) [of R h] by (cases "rc_map_new h") simp

lemma rc_sound_swap: "rc_sound (v # w # R) h \<Longrightarrow> rc_sound (w # v # R) h"
  by (erule rc_sound_less) simp

lemma rc_sound_second: "rc_sound (v # w # R) h \<Longrightarrow> rc_sound (v # R) h"
  by (erule rc_sound_less) simp

lemma push_owned: "rc_sound R h \<Longrightarrow> v \<in> set R \<Longrightarrow> VArr a \<in> set R \<Longrightarrow> safe (rc_array_push a v h) (rc_sound R)"
  by (rule safe_mono [OF safe_array_push]) auto

lemma set_owned:
  "rc_sound R h \<Longrightarrow> VMap a \<in> set R \<Longrightarrow> k \<in> set R \<Longrightarrow> v \<in> set R \<Longrightarrow> safe (rc_map_set a k v h) (rc_sound R)"
  by (rule safe_mono [OF safe_map_set]) auto

lemma hand_out_array: "rc_sound (VArr a # R) h \<Longrightarrow> safe (val_array a h) (\<lambda>(v, h'). rc_sound (v # R) h')"
  by (rule safe_mono [OF safe_val_array [of "VArr a # R"]]) (auto dest: rc_sound_second)

lemma hand_out_map: "rc_sound (VMap a # R) h \<Longrightarrow> safe (val_map a h) (\<lambda>(v, h'). rc_sound (v # R) h')"
  by (rule safe_mono [OF safe_val_map [of "VMap a # R"]]) (auto dest: rc_sound_second)

lemma safe_push_str:
  assumes "rc_sound R h" "VArr a \<in> set R"
  shows "safe (push_str a s h) (rc_sound R)" "safe (push_leaked a s h) (rc_sound R)"
proof -
  have push: "safe (rc_array_push a v h1) (\<lambda>h2. rc_sound (v # R) h2)" if "rc_sound (v # R) h1" for v h1
    by (rule push_owned [OF that]) (use assms(2) in simp_all)
  show "safe (push_str a s h) (rc_sound R)" unfolding push_str_def
    by (rule safe_val_str [OF assms(1)], rule safe_obind [OF push]) (auto elim: safe_mono [OF safe_release])
  show "safe (push_leaked a s h) (rc_sound R)" unfolding push_leaked_def
    by (rule safe_val_str [OF assms(1)], rule safe_mono [OF push]) (auto dest: rc_sound_drop)
qed

text \<open>A new array, filled, and handed out.\<close>

lemma safe_build_array:
  assumes inv: "rc_sound R h"
    and push: "\<And>a x h. x \<in> set xs \<Longrightarrow> rc_sound (VArr a # R) h \<Longrightarrow> safe (p a x h) (rc_sound (VArr a # R))"
  shows "safe (let (a, h1) = rc_array_new h in obind (ofold (p a) xs h1) (val_array a)) (\<lambda>(v, h'). rc_sound (v # R) h')"
proof (rule safe_new_array [OF inv])
  fix a h1 assume h1: "rc_sound (VArr a # R) h1"
  have "safe (ofold (p a) xs h1) (rc_sound (VArr a # R))" by (rule safe_ofold [OF h1 push])
  then show "safe (obind (ofold (p a) xs h1) (val_array a)) (\<lambda>(v, h'). rc_sound (v # R) h')"
    by (rule safe_obind) (rule hand_out_array)
qed

lemma safe_strings_array: "rc_sound R h \<Longrightarrow> safe (strings_array ss h) (\<lambda>(v, h'). rc_sound (v # R) h')"
  unfolding strings_array_def by (rule safe_build_array) (simp_all add: safe_push_str)

lemma safe_put_str:
  assumes "rc_sound R h" "VMap a \<in> set R"
  shows "safe (put_str a k v h) (rc_sound R)"
  unfolding put_str_def
proof (rule safe_val_str [OF assms(1)], erule safe_val_str)
  fix kv h1 vv h2 assume "rc_sound (vv # kv # R) h2"
  then have "safe (rc_map_set a kv vv h2) (rc_sound (vv # kv # R))" by (rule set_owned) (use assms(2) in simp_all)
  then show "safe (rc_map_set a kv vv h2) (rc_sound R)" by (rule safe_mono) (auto dest!: rc_sound_drop)
qed

lemma safe_request_map: "rc_sound R h \<Longrightarrow> safe (request_map rq h) (\<lambda>(v, h'). rc_sound (v # R) h')"
  unfolding request_map_def
proof (erule safe_new_map)
  fix a h1 assume h1: "rc_sound (VMap a # R) h1"
  have "safe (ofold (\<lambda>(k, v). put_str a k v) (request_fields rq) h1) (rc_sound (VMap a # R))"
    by (rule safe_ofold [where P = "rc_sound (VMap a # R)", OF h1]) (auto intro: safe_put_str)
  then show "safe (obind (ofold (\<lambda>(k, v). put_str a k v) (request_fields rq) h1) (val_map a)) (\<lambda>(v, h'). rc_sound (v # R) h')"
    by (rule safe_obind) (rule hand_out_map)
qed

section \<open>JSON\<close>

lemma reads_to_json_fuel: "heap_ok h \<Longrightarrow> val_ok h v \<Longrightarrow> reads (to_json_fuel n h v)"
proof (induction n arbitrary: v)
  case (Suc n)
  show ?case
  proof (cases v)
    case (VStr a)
    with held_ok(1) [OF Suc.prems(2)] show ?thesis by auto
  next
    case (VArr a)
    with held_ok(2) [OF Suc.prems(2)] obtain xs cap where a: "deref_arr h a = Ok (xs, cap)" by auto
    with VArr Suc show ?thesis by (auto intro!: reads_obind reads_omap intro: child_arr)
  next
    case (VMap a)
    with held_ok(3) [OF Suc.prems(2)] obtain bs m where a: "deref_map h a = Ok (bs, m)" by auto
    let ?f = "\<lambda>(s, x). obind (to_json_fuel n h x) (\<lambda>t. Ok (escape_json_string s @ '':'' @ t))"
    have "reads (?f (s, x))" if "val_ok h x" for s x
      using Suc.IH [OF Suc.prems(1) that] by (auto intro!: reads_obind)
    then have "safe (omap (\<lambda>(k, x). obind (value_to_string h k) (\<lambda>s. Ok (s, x))) (concat bs)) (\<lambda>ps. reads (omap ?f (sort_pairs ps)))"
      by (intro safe_entries [OF Suc.prems(1) a reads_values(1) [OF Suc.prems(1)]])
    then have "reads (obind (omap (\<lambda>(k, x). obind (value_to_string h k) (\<lambda>s. Ok (s, x))) (concat bs)) (\<lambda>ps.
        obind (omap ?f (sort_pairs ps)) (\<lambda>ss. Ok (''{'' @ join_with '','' ss @ ''}''))))"
      by (rule safe_obind) (rule reads_obind, simp_all)
    then show ?thesis
      unfolding VMap to_json_fuel.simps val.case a obind.simps prod.case by (intro safe_if) simp_all
  qed simp_all
qed simp

lemma reads_json_string: "reads (json_string acc s)"
  by (induction acc s rule: json_string.induct) (auto split: list.splits)

lemma safe_parse_json_string: "rc_sound R h \<Longrightarrow> safe (parse_json_string s h) (\<lambda>(v, t, h'). rc_sound (v # R) h')"
  unfolding parse_json_string_def
  by (rule reads_obind [OF reads_json_string]) (auto intro: sound_new(1) split: prod.split)

lemma parse_number_plain: "parse_json_number s = (v, t) \<Longrightarrow> val_addr v = None"
  by (auto simp: parse_json_number_def Let_def split: if_splits)

lemma safe_json_value:
  "(rc_sound R h \<longrightarrow> safe (json_value n s h) (\<lambda>(v, t, h'). rc_sound (v # R) h')) \<and>
   (rc_sound R h \<longrightarrow> VArr a \<in> set R \<longrightarrow> safe (json_elems n a s h) (\<lambda>(t, h'). rc_sound R h')) \<and>
   (rc_sound R h \<longrightarrow> VMap b \<in> set R \<longrightarrow> safe (json_members n b s h) (\<lambda>(t, h'). rc_sound R h'))"
proof (induction n arbitrary: R h s a b)
  case (Suc n)
  have IH: "rc_sound R h \<Longrightarrow> safe (json_value n s h) (\<lambda>(v, t, h'). rc_sound (v # R) h')"
    "rc_sound R h \<Longrightarrow> VArr a \<in> set R \<Longrightarrow> safe (json_elems n a s h) (\<lambda>(t, h'). rc_sound R h')"
    "rc_sound R h \<Longrightarrow> VMap b \<in> set R \<Longrightarrow> safe (json_members n b s h) (\<lambda>(t, h'). rc_sound R h')" for R h s a b
    using Suc.IH by blast+
  have elems: "safe (json_elems (Suc n) a s h) (\<lambda>(t, h'). rc_sound R h')" if R: "rc_sound R h" "VArr a \<in> set R" for a
    unfolding json_elems.simps
  proof (rule safe_obind [OF IH(1) [OF R(1)]])
    fix x :: "val \<times> string \<times> heap" assume x: "case x of (v, t, h') \<Rightarrow> rc_sound (v # R) h'"
    obtain v s1 h1 where eq: "x = (v, s1, h1)" by (cases x)
    have push: "safe (rc_array_push a v h1) (rc_sound (v # R))"
      by (rule push_owned) (use x eq R(2) in auto)
    show "safe (case x of (v, s1, h1) \<Rightarrow> obind (rc_array_push a v h1) (\<lambda>h2. obind (release_value v h2) (\<lambda>h3.
        let t = skip_ws s1 in if starts '','' t then json_elems n a (skip_ws (tl t)) h3
          else if starts '']'' t then Ok (tl t, h3) else Ok (t, h3)))) (\<lambda>(t, h'). rc_sound R h')"
      unfolding eq prod.case
      by (rule safe_obind [OF push], rule safe_obind [OF safe_release], assumption) (auto simp: Let_def intro: IH(2) R(2))
  qed
  have members: "safe (json_members (Suc n) b s0 h) (\<lambda>(t, h'). rc_sound R h')" if R: "rc_sound R h" "VMap b \<in> set R" for b s0
    unfolding json_members.simps
  proof (intro safe_cases(1) safe_if safe_obind [OF safe_parse_json_string [OF R(1)]])
    fix x :: "val \<times> string \<times> heap" and s assume x: "case x of (v, t, h') \<Rightarrow> rc_sound (v # R) h'"
    obtain k s1 h1 where eq: "x = (k, s1, h1)" by (cases x)
    show "safe (case x of (k, s1, h1) \<Rightarrow> let t = skip_ws s1; u = if starts '':'' t then tl t else t in
        obind (json_value n u h1) (\<lambda>(v, s2, h2). obind (rc_map_set b k v h2) (\<lambda>h3.
        obind (release_value k h3) (\<lambda>h4. obind (release_value v h4) (\<lambda>h5. let w = skip_ws s2 in
          if starts '','' w then json_members n b (skip_ws (tl w)) h5
          else if starts ''}'' w then Ok (tl w, h5) else Ok (w, h5)))))) (\<lambda>(t, h'). rc_sound R h')"
      unfolding eq prod.case
    proof (intro safe_cases(1), rule safe_obind [OF IH(1)])
      show "rc_sound (k # R) h1" using x eq by simp
      fix t u and y :: "val \<times> string \<times> heap" assume y: "case y of (v, t, h') \<Rightarrow> rc_sound (v # k # R) h'"
      obtain v s2 h2 where yq: "y = (v, s2, h2)" by (cases y)
      have own: "rc_sound (k # v # R) h2" using y yq rc_sound_swap by auto
      have put: "safe (rc_map_set b k v h2) (rc_sound (k # v # R))"
        by (rule set_owned [OF own]) (use R(2) in auto)
      show "safe (case y of (v, s2, h2) \<Rightarrow> obind (rc_map_set b k v h2) (\<lambda>h3.
        obind (release_value k h3) (\<lambda>h4. obind (release_value v h4) (\<lambda>h5. let w = skip_ws s2 in
          if starts '','' w then json_members n b (skip_ws (tl w)) h5
          else if starts ''}'' w then Ok (tl w, h5) else Ok (w, h5))))) (\<lambda>(t, h'). rc_sound R h')"
        unfolding yq prod.case
        by (rule safe_obind [OF put], rule safe_obind [OF safe_release], assumption, rule safe_obind [OF safe_release], blast)
          (auto simp: Let_def intro: IH(3) R(2))
    qed
  qed (use R in simp_all)
  have val: "safe (json_value (Suc n) s0 h) (\<lambda>(v, t, h'). rc_sound (v # R) h')" if R: "rc_sound R h" for s0
  proof -
    have arr: "safe (let (a, h1) = rc_array_new h; t = skip_ws (tl s) in
        obind (if starts '']'' t then Ok (tl t, h1) else json_elems n a t h1) (\<lambda>(rest, h2).
        obind (val_array a h2) (\<lambda>(v, h3). Ok (v, rest, h3)))) (\<lambda>(v, t, h'). rc_sound (v # R) h')" for s
    proof (rule safe_new_array [OF R], rule safe_cases(1))
      fix a h1 t assume h1: "rc_sound (VArr a # R) h1"
      have "safe (if starts '']'' t then Ok (tl t, h1) else json_elems n a t h1) (\<lambda>(t, h'). rc_sound (VArr a # R) h')"
        using h1 IH(2) [OF h1] by simp
      then show "safe (obind (if starts '']'' t then Ok (tl t, h1) else json_elems n a t h1) (\<lambda>(rest, h2).
          obind (val_array a h2) (\<lambda>(v, h3). Ok (v, rest, h3)))) (\<lambda>(v, t, h'). rc_sound (v # R) h')"
        by (rule safe_obind) (auto intro!: safe_obind [OF hand_out_array])
    qed
    have obj: "safe (let (a, h1) = rc_map_new h; t = skip_ws (tl s) in
        obind (if starts ''}'' t then Ok (tl t, h1) else json_members n a t h1) (\<lambda>(rest, h2).
        obind (val_map a h2) (\<lambda>(v, h3). Ok (v, rest, h3)))) (\<lambda>(v, t, h'). rc_sound (v # R) h')" for s
    proof (rule safe_new_map [OF R], rule safe_cases(1))
      fix a h1 t assume h1: "rc_sound (VMap a # R) h1"
      have "safe (if starts ''}'' t then Ok (tl t, h1) else json_members n a t h1) (\<lambda>(t, h'). rc_sound (VMap a # R) h')"
        using h1 IH(3) [OF h1] by simp
      then show "safe (obind (if starts ''}'' t then Ok (tl t, h1) else json_members n a t h1) (\<lambda>(rest, h2).
          obind (val_map a h2) (\<lambda>(v, h3). Ok (v, rest, h3)))) (\<lambda>(v, t, h'). rc_sound (v # R) h')"
        by (rule safe_obind) (auto intro!: safe_obind [OF hand_out_map])
    qed
    have num: "safe (let (v, rest) = parse_json_number s in Ok (v, rest, h)) (\<lambda>(v, t, h'). rc_sound (v # R) h')" for s
      using R parse_number_plain [of s] by (cases "parse_json_number s") (simp add: rc_sound_null)
    show ?thesis
      unfolding json_value.simps
      by (rule safe_cases(1), intro safe_if safe_parse_json_string R arr obj num) (simp_all add: rc_sound_null R)
  qed
  show ?case using elems members val by blast
qed (simp add: json_value.simps json_elems.simps json_members.simps)


section \<open>Array arguments\<close>

definition elems :: "val list \<Rightarrow> heap \<Rightarrow> val set" where
  \<comment> \<open>what the arrays among \<open>R\<close> hold\<close>
  "elems R h = {x. \<exists>a xs cap. VArr a \<in> set R \<and> deref_arr h a = Ok (xs, cap) \<and> x \<in> set xs}"

lemma safe_deref:
  assumes "rc_sound R h" "v \<in> set R"
  shows "v = VStr a \<Longrightarrow> reads (deref_str h a)" "v = VArr a \<Longrightarrow> reads (deref_arr h a)"
  using owned_cell(3,1) [OF assms, of a] by auto

lemma safe_arg: "set vs \<subseteq> set R \<Longrightarrow> safe (arg vs k) (\<lambda>v. v \<in> set R)"
  by (auto simp: arg_def)

lemma safe_array_arg:
  assumes "rc_sound R (heap r)" "set vs \<subseteq> set R"
  shows "safe (array_arg vs k e r) (\<lambda>xs. \<exists>a cap. VArr a \<in> set R \<and> deref_arr (heap r) a = Ok (xs, cap))"
  unfolding array_arg_def
proof (rule safe_obind [OF safe_arg [OF assms(2)]])
  fix v assume v: "v \<in> set R"
  show "safe (case v of VArr a \<Rightarrow> obind (deref_arr (heap r) a) (\<lambda>(xs, cap). Ok xs) | _ \<Rightarrow> Fatal e)
      (\<lambda>xs. \<exists>a cap. VArr a \<in> set R \<and> deref_arr (heap r) a = Ok (xs, cap))"
    using owned_cell(1) [OF assms(1) v] v by (cases v) (auto, blast)
qed

lemma safe_elems_arg:
  assumes "rc_sound R (heap r)" "set vs \<subseteq> set R"
  shows "safe (array_arg vs k e r) (\<lambda>xs. set xs \<subseteq> elems R (heap r))"
  by (rule safe_mono [OF safe_array_arg [OF assms]]) (auto simp: elems_def)

lemma elems_ok: "rc_sound R h \<Longrightarrow> x \<in> elems R h \<Longrightarrow> val_ok h x"
  unfolding elems_def using child_arr [OF rc_sound_heap_ok] by blast

lemma safe_copy_array:
  assumes inv: "rc_sound R h" and xs: "set xs \<subseteq> elems R h"
  shows "safe (copy_array xs h) (\<lambda>(b, h'). rc_sound (VArr b # R) h')"
  unfolding copy_array_def
proof (rule safe_new_array [OF inv])
  fix b h1 assume new: "rc_array_new h = (b, h1)" and h1: "rc_sound (VArr b # R) h1"
  note n = new_array [OF inv new]
  obtain c where c: "h1 = h @ [c]" using n(4) by blast
  let ?P = "\<lambda>h2. rc_sound (VArr b # R) h2 \<and> hext {b} h2 h1"
  have "safe (ofold (rc_array_push b) xs h1) ?P"
  proof (rule safe_ofold)
    fix x h2 assume x: "x \<in> set xs" and h2: "?P h2"
    from x xs obtain a ys cap where a: "VArr a \<in> set R" "deref_arr h a = Ok (ys, cap)" "x \<in> set ys"
      by (auto simp: elems_def)
    have "a < length h" using a(2) by (auto simp: deref_arr_Ok_iff dest: hget_Some_less)
    then have ne: "a \<noteq> b" using n(2) by simp
    have "hext {} h1 h" by (simp add: c hext_append)
    from hext_arr [OF this a(2) _ h1, simplified] a(1) have "deref_arr h1 a = Ok (ys, cap)" by simp
    from hext_arr [OF _ this _ h2 [THEN conjunct1]] h2 ne a(1) have "deref_arr h2 a = Ok (ys, cap)" by auto
    from held_elem [OF this a(3)] h2 have "safe (rc_array_push b x h2) (\<lambda>h'. rc_sound (VArr b # R) h' \<and> hext {b} h' h2)"
      by (intro safe_array_push) auto
    then show "safe (rc_array_push b x h2) ?P"
      by (rule safe_mono) (use h2 in \<open>auto intro: hext_trans\<close>)
  qed (use h1 in simp)
  then show "safe (obind (ofold (rc_array_push b) xs h1) (\<lambda>h2. Ok (b, h2))) (\<lambda>(b, h'). rc_sound (VArr b # R) h')"
    by (rule safe_obind) simp
qed

section \<open>Builtins that keep ownership\<close>

definition own_builtin :: "builtin \<Rightarrow> bool" where
  "own_builtin b \<longleftrightarrow> (\<forall>vs r R. rc_sound R (heap r) \<longrightarrow> set vs \<subseteq> set R \<longrightarrow> safe (b vs r) (gives R))"

lemma own_builtinI: "(\<And>vs r R. rc_sound R (heap r) \<Longrightarrow> set vs \<subseteq> set R \<Longrightarrow> safe (b vs r) (gives R)) \<Longrightarrow> own_builtin b"
  by (simp add: own_builtin_def)

lemma safe_with_heap_val:
  "safe (f (heap r)) (\<lambda>(v, h'). rc_sound (v # R) h') \<Longrightarrow> safe (with_heap_val f r) (gives R)"
  unfolding with_heap_val_def by (erule safe_obind) (auto simp: gives_def)

lemma safe_ret: "rc_sound R (heap r) \<Longrightarrow> safe m plain \<Longrightarrow> safe (ret r m) (gives R)"
  unfolding ret_def by (rule safe_obind, assumption) (simp add: gives_plain)

lemma safe_ret_str: "rc_sound R (heap r) \<Longrightarrow> reads m \<Longrightarrow> safe (ret_str r m) (gives R)"
  unfolding ret_str_def
  by (rule safe_obind, assumption, rule safe_with_heap_val) (auto intro: sound_new(1) split: prod.split)

lemma safe_plain: "rc_sound R (heap r') \<Longrightarrow> plain v \<Longrightarrow> safe (Ok (v, r')) (gives R)"
  by (simp add: gives_plain)

lemma safe_new_array_of: "rc_sound R (heap r) \<Longrightarrow> set xs \<subseteq> elems R (heap r) \<Longrightarrow> safe (new_array_of xs r) (gives R)"
  unfolding new_array_of_def
  by (rule safe_with_heap_val, erule (1) safe_obind [OF safe_copy_array]) (auto intro: hand_out_array)

lemma safe_leaked_array: "rc_sound R (heap r) \<Longrightarrow> safe (leaked_array ss r) (gives R)"
  unfolding leaked_array_def by (rule safe_with_heap_val, rule safe_build_array) (simp_all add: safe_push_str)

lemma reads_str_arg:
  assumes "rc_sound R (heap r)" "set vs \<subseteq> set R"
  shows "reads (str_arg vs k r)"
  unfolding str_arg_def
  by (rule safe_obind [OF safe_arg [OF assms(2)]]) (rule reads_values(1) [OF rc_sound_heap_ok [OF assms(1)] owned_ok [OF assms(1)]])

lemma safe_bind_arg: "set vs \<subseteq> set R \<Longrightarrow> (\<And>v. v \<in> set R \<Longrightarrow> safe (f v) Q) \<Longrightarrow> safe (obind (arg vs k) f) Q"
  by (rule safe_obind [OF safe_arg]) auto

lemma plain_int_val: "safe (int_val i) plain"
  unfolding int_val_def by (intro reads_obind reads_as_i) simp

lemma own_numbers:
  "list_all own_builtin [native_sqrt, native_pow os, native_abs, native_min, native_max, native_floor,
     native_ceil, native_round, native_clamp, native_sign, native_gcd, native_hypot os]"
  unfolding list.pred_inject native_num_defs
  by (intro conjI own_builtinI TrueI safe_ret reads_obind safe_flow plain_int_val reads_plain) simp_all

lemma own_conversions: "list_all own_builtin [native_to_int, native_to_number]"
  unfolding list.pred_inject native_num_defs
  by (intro conjI own_builtinI TrueI safe_ret safe_bind_arg,
      (assumption | rule safe_case_val reads_obind safe_deref(1) reads_plain safe_done plain_simps | simp)+)

lemma own_texts:
  "list_all own_builtin [native_to_string, native_upper, native_lower, native_trim, native_contains, native_find, native_replace,
     native_substr, native_starts_with, native_ends_with, native_repeat, native_pad_case b, native_url_decode,
     native_url_encode, native_input]"
  unfolding list.pred_inject native_str_defs native_to_string_def
  by (intro conjI own_builtinI TrueI safe_ret safe_ret_str reads_obind reads_str_arg safe_flow reads_plain, (assumption | simp)+)


lemma own_remove: "own_builtin native_remove"
proof (rule own_builtinI)
  fix vs R and r :: rt assume inv: "rc_sound R (heap r)" and vs: "set vs \<subseteq> set R"
  have "safe (obind (with_heap (rc_map_remove a k) r) (\<lambda>r'. Ok (VNull, r'))) (gives R)" if "VMap a \<in> set R" "k \<in> set R" for a k
    unfolding with_heap_def by (auto intro!: safe_obind [OF safe_map_remove [OF inv that]] simp: gives_def rc_sound_null)
  then show "safe (native_remove vs r) (gives R)"
    unfolding native_remove_def
    by (intro safe_bind_arg [OF vs] safe_case_val safe_done) simp_all
qed

lemma own_join: "own_builtin native_join"
proof (rule own_builtinI)
  fix vs R and r :: rt assume inv: "rc_sound R (heap r)" and vs: "set vs \<subseteq> set R"
  have join: "reads (join_arr (heap r) xs sep)" if "VArr a \<in> set R" "deref_arr (heap r) a = Ok (xs, cap)" for a xs cap sep
    unfolding join_arr_def
    by (rule reads_obind, rule reads_omap, rule reads_values(1) [OF rc_sound_heap_ok [OF inv]])
      (use that in \<open>auto intro!: elems_ok [OF inv] simp: elems_def, blast\<close>)
  have new: "safe (let (b, h') = new_rc_string s (heap r) in val_str_rc b h') (\<lambda>(v, h'). rc_sound (v # R) h')" for s
  proof -
    obtain b h' where b: "new_rc_string s (heap r) = (b, h')" by fastforce
    have "rc_sound (VStr b # R) h'" using sound_new(1) [OF inv, of s "VStr b" h'] b by (simp add: val_str_def)
    from safe_incref [OF this, of "VStr b" b] show ?thesis
      unfolding b val_str_rc_def by (auto elim!: safe_obind dest: rc_sound_second)
  qed
  show "safe (native_join vs r) (gives R)"
    unfolding native_join_def
  proof (rule safe_bind_arg [OF vs], intro safe_case_val safe_done)
    fix v a assume v: "v \<in> set R" "v = VArr a"
    obtain xs cap where a: "deref_arr (heap r) a = Ok (xs, cap)" using owned_cell(1) [OF inv v(1), of a] v(2) by auto
    show "safe (obind (str_arg vs 1 r) (\<lambda>sep. obind (deref_arr (heap r) a) (\<lambda>(xs, cap). obind (join_arr (heap r) xs sep) (\<lambda>s.
        with_heap_val (\<lambda>h. let (b, h') = new_rc_string s h in val_str_rc b h') r)))) (gives R)"
      unfolding a obind.simps prod.case
      by (intro reads_obind reads_str_arg [OF inv vs] join [OF _ a] safe_with_heap_val new) (use v in simp)
  qed
qed

lemma own_json: "list_all own_builtin [native_json_encode, native_json_decode]"
  unfolding list.pred_inject
proof (intro conjI own_builtinI list.pred_inject(1))
  fix vs R and r :: rt assume inv: "rc_sound R (heap r)" and vs: "set vs \<subseteq> set R"
  show "safe (native_json_encode vs r) (gives R)"
    unfolding native_json_encode_def value_to_json_def
    by (intro safe_ret_str inv safe_bind_arg [OF vs] reads_obind reads_to_json_fuel rc_sound_heap_ok [OF inv] owned_ok [OF inv] safe_done) simp_all
  have parse: "safe (parse_json_value s (heap r)) (\<lambda>(v, t, h'). rc_sound (v # R) h')" for s
    unfolding parse_json_value_def using safe_json_value [THEN conjunct1] inv by blast
  have "safe (obind (parse_json_value s (heap r)) (\<lambda>(v, rest, h'). Ok (v, h'))) (\<lambda>(v, h'). rc_sound (v # R) h')" for s
    by (rule safe_obind [OF parse]) auto
  then show "safe (native_json_decode vs r) (gives R)"
    unfolding native_json_decode_def
    by (intro reads_obind [OF reads_str_arg [OF inv vs]] safe_with_heap_val)
qed

lemma own_split: "own_builtin native_split" "own_builtin native_args"
  unfolding native_split_def native_args_def
  by (intro own_builtinI reads_obind reads_str_arg safe_with_heap_val safe_strings_array, assumption+)+


section \<open>Arrays\<close>

lemma safe_sort_from:
  assumes "\<And>x y. x \<in> set xs \<Longrightarrow> y \<in> set xs \<Longrightarrow> reads (lt x y)"
  shows "safe (insertion_sort lt xs) (\<lambda>ys. mset ys = mset xs)"
proof -
  have sink: "safe (sink lt k ys) (\<lambda>zs. mset zs = add_mset k (mset ys))" if "k \<in> set xs" "set ys \<subseteq> set xs" for k ys
    using that(2)
  proof (induction ys)
    case (Cons y ys)
    have lt: "reads (lt k y)" using Cons.prems by (simp add: assms that(1))
    have "safe (obind (sink lt k ys) (\<lambda>zs. Ok (y # zs))) (\<lambda>zs. mset zs = add_mset k (mset (y # ys)))"
      by (rule safe_obind [OF Cons.IH]) (use Cons.prems in auto)
    then show ?case unfolding sink.simps by (intro reads_obind [OF lt] safe_if) simp_all
  qed simp
  have "safe (ofold (sink lt) zs ys) (\<lambda>us. mset us = mset zs + mset ys)" if "set zs \<subseteq> set xs" "set ys \<subseteq> set xs" for zs ys
    using that
  proof (induction zs arbitrary: ys)
    case (Cons z zs)
    have "safe (sink lt z ys) (\<lambda>us. mset us = add_mset z (mset ys))" by (rule sink) (use Cons.prems in simp_all)
    then show ?case unfolding ofold.simps
    proof (rule safe_obind)
      fix us assume us: "mset us = add_mset z (mset ys)"
      then have "set us = insert z (set ys)" by (metis set_mset_add_mset_insert set_mset_mset)
      with Cons.prems have "set us \<subseteq> set xs" by simp
      with Cons.IH [of us] Cons.prems us show "safe (ofold (sink lt) zs us) (\<lambda>vs. mset vs = mset (z # zs) + mset ys)" by simp
    qed
  qed simp
  from this [of xs "[]"] show ?thesis unfolding insertion_sort_def by (auto elim: safe_obind)
qed

lemma reads_native_less: "heap_ok h \<Longrightarrow> val_ok h a \<Longrightarrow> val_ok h b \<Longrightarrow> reads (native_less h a b)"
  unfolding native_less_def by (intro safe_flow reads_obind reads_as_i reads_values) simp_all

lemma own_sort: "own_builtin native_sort"
proof (rule own_builtinI)
  fix vs R and r :: rt assume inv: "rc_sound R (heap r)" and vs: "set vs \<subseteq> set R"
  show "safe (native_sort vs r) (gives R)"
    unfolding native_sort_def
  proof (rule safe_obind [OF safe_array_arg [OF inv vs]], elim exE conjE, rule safe_with_heap_val)
    fix xs a cap assume a: "VArr a \<in> set R" "deref_arr (heap r) a = Ok (xs, cap)"
    obtain b h1 cap1 where b: "copy_array xs (heap r) = Ok (b, h1)" "rc_sound (VArr b # R) h1" "deref_arr h1 b = Ok (xs, cap1)"
      using copy_array_sound [OF inv a] by blast
    have "val_ok h1 x" if "x \<in> set xs" for x by (rule child_arr [OF rc_sound_heap_ok [OF b(2)] b(3) that])
    then have "safe (insertion_sort (native_less h1) xs) (\<lambda>ys. mset ys = mset xs)"
      by (intro safe_sort_from reads_native_less rc_sound_heap_ok [OF b(2)])
    then show "safe (obind (copy_array xs (heap r)) (\<lambda>(a, h1). obind (insertion_sort (native_less h1) xs) (\<lambda>ys.
       obind (deref_arr h1 a) (\<lambda>(zs, cap). obind (hset_body h1 a (BArr ys cap)) (\<lambda>h2. val_array a h2))))) (\<lambda>(v, h'). rc_sound (v # R) h')"
      unfolding b obind.simps prod.case
    proof (rule safe_obind)
      fix ys assume "mset ys = mset xs"
      from permute_sound [OF b(2) _ b(3) this] hand_out_array
      show "safe (obind (hset_body h1 b (BArr ys cap1)) (\<lambda>h2. val_array b h2)) (\<lambda>(v, h'). rc_sound (v # R) h')" by simp
    qed
  qed
qed

lemma reads_find_index: "(\<And>x. x \<in> set xs \<Longrightarrow> reads (p x)) \<Longrightarrow> reads (find_index p i xs)"
  by (induction xs arbitrary: i) (auto intro!: reads_obind)

lemma elems_sub: "set xs \<subseteq> elems R h \<Longrightarrow> set (rev xs) \<subseteq> elems R h" "set xs \<subseteq> elems R h \<Longrightarrow> set (take n (drop m xs)) \<subseteq> elems R h"
  "set xs \<subseteq> elems R h \<Longrightarrow> set ys \<subseteq> elems R h \<Longrightarrow> set (xs @ ys) \<subseteq> elems R h"
  by (auto dest!: in_set_takeD in_set_dropD)

lemma own_new_arrays: "list_all own_builtin [native_reverse, native_concat, native_slice]"
  unfolding list.pred_inject
proof (intro conjI own_builtinI list.pred_inject(1))
  fix vs R and r :: rt assume inv: "rc_sound R (heap r)" and vs: "set vs \<subseteq> set R"
  note arr = safe_obind [OF safe_elems_arg [OF inv vs]] and new = safe_new_array_of [OF inv]
  show "safe (native_reverse vs r) (gives R)"
    unfolding native_reverse_def by (intro arr new elems_sub)
  show "safe (native_concat vs r) (gives R)"
    unfolding native_concat_def by (intro safe_bind_arg [OF vs] safe_case_val safe_done arr new elems_sub)
  show "safe (native_slice vs r) (gives R)"
    unfolding native_slice_def
  proof (rule safe_bind_arg [OF vs], rule safe_if)
    fix v assume "v \<in> set R"
    then show "safe (ret_str r (obind (value_to_string (heap r) v) (\<lambda>s. obind (int_arg vs 1) (\<lambda>st. obind (int_arg vs 2) (\<lambda>en.
            str_slice s (sint st) (sint en)))))) (gives R)"
      by (intro safe_ret_str inv reads_obind reads_values rc_sound_heap_ok [OF inv] owned_ok [OF inv] reads_plain)
  qed (intro arr reads_obind reads_plain safe_cases(1), simp only: new elems_sub)
qed

lemma own_queries: "list_all own_builtin [native_index_of, native_count, native_sum]"
  unfolding list.pred_inject
proof (intro conjI own_builtinI list.pred_inject(1))
  fix vs R and r :: rt assume inv: "rc_sound R (heap r)" and vs: "set vs \<subseteq> set R"
  note arr = safe_obind [OF safe_elems_arg [OF inv vs]]
  have eq: "reads (value_eq (heap r) e x)" if "set xs \<subseteq> elems R (heap r)" "e \<in> set xs" "x \<in> set R" for e x xs
    using that by (intro reads_value_eq rc_sound_heap_ok [OF inv] elems_ok [OF inv] owned_ok [OF inv]) auto
  show "safe (native_index_of vs r) (gives R)"
    unfolding native_index_of_def
    by (intro safe_ret inv arr safe_bind_arg [OF vs] reads_obind reads_find_index safe_done plain_simps) (rule eq)
  show "safe (native_count vs r) (gives R)"
    unfolding native_count_def
    by (intro safe_ret inv arr safe_bind_arg [OF vs] reads_obind reads_omap safe_done plain_simps) (rule eq)
  show "safe (native_sum vs r) (gives R)"
    unfolding native_sum_def
    by (intro safe_ret inv arr safe_if reads_obind reads_ofold reads_as_i safe_done plain_simps) simp_all
qed

lemma own_assets: "list_all own_builtin [native_asset, native_asset_names]"
  unfolding list.pred_inject
proof (intro conjI own_builtinI list.pred_inject(1))
  fix vs R and r :: rt assume inv: "rc_sound R (heap r)" and vs: "set vs \<subseteq> set R"
  show "safe (native_asset_names vs r) (gives R)"
    unfolding native_asset_names_def by (rule safe_leaked_array [OF inv])
  show "safe (native_asset vs r) (gives R)"
    unfolding native_asset_def
  proof (rule reads_obind [OF reads_str_arg [OF inv vs]], rule safe_obind [OF safe_ret_str [OF inv]])
    fix want x assume "gives R x"
    then show "safe (case x of (res, r1) \<Rightarrow> case List.find (\<lambda>a. as_name a = want) (assets r1) of
        None \<Rightarrow> Ok (res, r1) | Some a \<Rightarrow> ret_str r1 (Ok (as_data a))) (gives R)"
      by (cases x) (auto simp: gives_def intro!: safe_ret_str dest: rc_sound_drop split: option.split)
  qed simp
qed


section \<open>Clocks, files, processes and the network\<close>

lemma heap_snd [simp]:
  "heap (snd (try_call os c r)) = heap r" "heap (snd (splitmix64_next r)) = heap r" "heap (snd (pyro_get_now_ms os r)) = heap r"
  "heap (snd (http_client_request os url body r)) = heap r" "heap (snd (http_listen os port r)) = heap r"
  "heap (snd (http_respond os st ct pl r)) = heap r" "heap (snd (pyro_mkdir_all os p r)) = heap r"
  by (metis heap_asks(1) prod.collapse, metis heap_asks(2) prod.collapse, metis heap_asks(4) prod.collapse,
      metis heap_effects(1) prod.collapse, metis heap_effects(2) prod.collapse, metis heap_effects(3) prod.collapse,
      metis heap_mkdir_all prod.collapse)

lemma own_monotonic: "own_builtin (native_monotonic_ms os)"
  unfolding native_monotonic_ms_def pyro_get_mono_ms_def
  by (rule own_builtinI) (auto simp: Let_def case_prod_beta gives_plain intro!: reads_obind reads_as_i)

lemma own_write_bytes: "own_builtin (native_write_bytes os)"
proof (rule own_builtinI)
  fix vs R and r :: rt assume inv: "rc_sound R (heap r)" and vs: "set vs \<subseteq> set R"
  show "safe (native_write_bytes os vs r) (gives R)"
    unfolding native_write_bytes_def Let_def
    by (rule reads_obind [OF reads_str_arg [OF inv vs]], rule reads_obind [OF reads_gates(1)], rule safe_bind_arg [OF vs])
      (auto intro!: reads_obind safe_deref(2) [OF inv] reads_omap reads_args gives_plain [OF inv] split: val.split)
qed

lemma own_serve: "own_builtin (native_http_serve os)"
proof (rule own_builtinI)
  fix vs R and r :: rt assume inv: "rc_sound R (heap r)" and vs: "set vs \<subseteq> set R"
  have serve: "safe (http_serve_dir os d p r1) (\<lambda>_. False)" for d p r1 by (rule reads_serve)
  show "safe (native_http_serve os vs r) (gives R)"
    unfolding native_http_serve_def Let_def
    by (rule reads_obind [OF reads_str_arg [OF inv vs]], rule reads_obind [OF reads_gates(2)],
        rule reads_obind [OF reads_gates(1)], rule reads_obind [OF reads_args(9)], rule safe_obind [OF serve]) simp
qed

lemma own_system:
  "list_all own_builtin [native_http_get os, native_http_post os, native_sleep os, native_read_file os, native_now_ms os,
     native_random, native_random_int, native_seed, native_http_listen os, native_http_respond os,
     native_file_exists os, native_is_dir os, native_list_dir os, native_make_dir os, native_delete_file os,
     native_file_size os, native_write_file os, native_env os, native_exec os, native_write_file_atomic os]"
  unfolding list.pred_inject native_sys_defs Let_def case_prod_beta
  by (intro conjI own_builtinI list.pred_inject(1) reads_obind reads_str_arg reads_gates reads_args reads_as_i safe_if
      safe_cases(3) safe_plain safe_ret_str safe_leaked_array safe_done(1) TrueI)
    simp_all

lemma own_accept: "own_builtin (native_http_accept os)"
  unfolding native_http_accept_def http_accept_def
  by (rule own_builtinI, intro reads_obind safe_cases reads_plain safe_done TrueI safe_with_heap_val safe_request_map) simp_all

section \<open>All builtins\<close>

lemma own_builtins: "list_all own_builtin (builtins os)"
  using own_numbers [of os] own_conversions own_texts [of True] own_texts [of False] own_remove own_split own_join own_json
    own_sort own_new_arrays own_queries own_assets own_monotonic [of os] own_write_bytes [of os] own_serve [of os]
    own_system [of os] own_accept [of os]
  by (simp only: builtins_def list.pred_inject simp_thms)

lemma owning_native: "owning (native os)"
  unfolding owning_def
proof (intro allI impI)
  fix i vs R and r :: rt assume inv: "rc_sound R (heap r)" and vs: "set vs \<subseteq> set R"
  have "safe ((builtins os ! i) vs r) (gives R)" if "i < length (builtins os)"
    using own_builtins [of os] that inv vs by (simp add: list_all_length own_builtin_def)
  then have "safe (native os i vs r) (gives R)" by (simp add: native_def)
  then show "safe (native os i vs r) (\<lambda>(v, r'). rc_sound (v # R) (heap r'))"
    by (rule safe_mono) (simp add: gives_def case_prod_beta)
qed

end
