(* ===== verification/Sockets.thy ===== *)
theory Sockets
  imports Http
begin

text \<open>
  The socket layer of \<open>vm/pyro_runtime.c\<close>: the deadline (\<open>http_env_ms\<close>), \<open>sock_wait\<close>, the loops of
  \<open>sock_recv\<close> and \<open>sock_send_all\<close> (POSIX branch) and \<open>http_dial\<close>. The system calls are logged, newest first,
  and answered by the record \<open>kernel\<close>, whose functions see the log. A loop that does not return is
  \<open>None\<close>. \<open>Http\<close> uses an abstract view of these loops (a connection is a list of pieces, a response
  is sent or not); the properties below justify it.
\<close>

section \<open>System calls\<close>

datatype fd = Conn | In_r | In_w | Out_r | Out_w

datatype syscall =
    Clock                              \<comment> \<open>\<open>clock_gettime(CLOCK_MONOTONIC)\<close>\<close>
  | Select bool bool int               \<comment> \<open>for writing, with the exception set, the timeout in ms\<close>
  | Receive nat
  | Transmit string
  | Resolve string                     \<comment> \<open>\<open>gethostbyname\<close>\<close>
  | Create "fd list"                   \<comment> \<open>\<open>socket\<close>, \<open>pipe\<close>\<close>
  | Close fd
  | Connect "32 word" "16 word"
  | Sock_error                         \<comment> \<open>\<open>getsockopt(SO_ERROR)\<close>\<close>
  | Spawn "string list"                \<comment> \<open>\<open>fork\<close> and, in the child, \<open>execvp\<close>\<close>
  | Pipe_write string | Pipe_read | Wait_child

datatype 'a answer =
    Got 'a
  | Would_block                        \<comment> \<open>\<open>EAGAIN\<close>, \<open>EWOULDBLOCK\<close>, \<open>EINTR\<close> (\<open>EINPROGRESS\<close> of \<open>connect\<close>)\<close>
  | Failed

datatype readiness = Ready | Timed_out | Interrupted | Select_failed

record kernel =
  k_clock :: "syscall list \<Rightarrow> int"
  k_select :: "syscall list \<Rightarrow> readiness"
  k_recv :: "syscall list \<Rightarrow> string answer"
  k_send :: "syscall list \<Rightarrow> nat answer"
  k_addr :: "string \<Rightarrow> 32 word option"             \<comment> \<open>\<open>inet_addr\<close>: \<open>None\<close> is \<open>INADDR_NONE\<close>\<close>
  k_lookup :: "syscall list \<Rightarrow> 32 word option"
  k_made :: "syscall list \<Rightarrow> bool"                  \<comment> \<open>\<open>socket\<close>, \<open>pipe\<close>, \<open>fork\<close> succeeded\<close>
  k_connect :: "syscall list \<Rightarrow> unit answer"
  k_status :: "syscall list \<Rightarrow> int option"          \<comment> \<open>\<open>SO_ERROR\<close>, an exit status\<close>
  k_read :: "syscall list \<Rightarrow> string answer"
  k_write :: "syscall list \<Rightarrow> nat answer"

section \<open>Deadlines\<close>

definition http_env_ms :: "string \<Rightarrow> int \<Rightarrow> int" where
  \<comment> \<open>of the text of the variable; an unset one is empty\<close>
  "http_env_ms s dflt =
     (if s = [] then dflt
      else let (v, rest, range) = strtoll s in if rest \<noteq> [] \<or> v \<le> 0 then dflt else v)"

definition http_deadline :: "int \<Rightarrow> string \<Rightarrow> int outcome" where
  "http_deadline now s = (let d = now + http_env_ms s 15000 in if in_i64 d then Ok d else UB SignedOverflow)"

partial_function (option) sock_wait ::
    "kernel \<Rightarrow> bool \<Rightarrow> bool \<Rightarrow> int \<Rightarrow> syscall list \<Rightarrow> (bool \<times> syscall list) option" where
  "sock_wait k for_write exc deadline h =
     (let h1 = Clock # h; left = deadline - k_clock k h1
      in if left \<le> 0 then Some (False, h1)
         else let h2 = Select for_write exc left # h1
         in case k_select k h2 of
              Ready \<Rightarrow> Some (True, h2)
            | Timed_out \<Rightarrow> Some (False, h2)
            | Interrupted \<Rightarrow> sock_wait k for_write exc deadline h2
            | Select_failed \<Rightarrow> Some (False, h2))"

partial_function (option) recv_loop ::
    "kernel \<Rightarrow> nat \<Rightarrow> int \<Rightarrow> syscall list \<Rightarrow> (string option \<times> syscall list) option" where
  \<comment> \<open>\<open>sock_recv\<close>: \<open>None\<close> inside is -1\<close>
  "recv_loop k n deadline h =
     (let h1 = Receive n # h
      in case k_recv k h1 of
           Got s \<Rightarrow> Some (Some s, h1)
         | Would_block \<Rightarrow>
             Option.bind (sock_wait k False False deadline h1) (\<lambda>(ready, h2).
               if ready then recv_loop k n deadline h2 else Some (None, h2))
         | Failed \<Rightarrow> Some (None, h1))"

definition send_chunk :: "string \<Rightarrow> string" where
  "send_chunk s = take (2 ^ 30) s"

partial_function (option) send_loop ::
    "kernel \<Rightarrow> int \<Rightarrow> string \<Rightarrow> syscall list \<Rightarrow> (bool \<times> syscall list) option" where
  \<comment> \<open>\<open>sock_send_all\<close>\<close>
  "send_loop k deadline s h =
     (if s = [] then Some (True, h)
      else let h1 = Transmit (send_chunk s) # h
      in case k_send k h1 of
           Got put \<Rightarrow> if 0 < put then send_loop k deadline (drop put s) h1 else Some (False, h1)
         | Would_block \<Rightarrow>
             Option.bind (sock_wait k True False deadline h1) (\<lambda>(ready, h2).
               if ready then send_loop k deadline s h2 else Some (False, h2))
         | Failed \<Rightarrow> Some (False, h1))"

section \<open>What a log says\<close>

definition readings :: "syscall list \<Rightarrow> nat" where
  "readings h = length (filter ((=) Clock) h)"

primrec accepted :: "kernel \<Rightarrow> syscall list \<Rightarrow> string" where
  \<comment> \<open>the bytes the kernel took, oldest first\<close>
  "accepted k [] = []"
| "accepted k (c # h) = accepted k h @
     (case c of Transmit s \<Rightarrow> (case k_send k (c # h) of Got n \<Rightarrow> take n s | _ \<Rightarrow> []) | _ \<Rightarrow> [])"

primrec opened :: "kernel \<Rightarrow> syscall list \<Rightarrow> fd list" where
  "opened k [] = []"
| "opened k (c # h) =
     (case c of Create fs \<Rightarrow> if k_made k (c # h) then fs @ opened k h else opened k h
      | Close f \<Rightarrow> remove1 f (opened k h) | _ \<Rightarrow> opened k h)"

definition time_passes :: "kernel \<Rightarrow> int \<Rightarrow> nat \<Rightarrow> bool" where
  \<comment> \<open>the clock is past the deadline when it has been read \<open>N\<close> times\<close>
  "time_passes k deadline N \<longleftrightarrow> (\<forall>h. N \<le> readings h \<longrightarrow> deadline \<le> k_clock k h)"

definition keeps_counts :: "kernel \<Rightarrow> bool" where
  \<comment> \<open>\<open>send\<close> takes and \<open>recv\<close> delivers at most what it was asked for\<close>
  "keeps_counts k \<longleftrightarrow>
     (\<forall>s h n. k_send k (Transmit s # h) = Got n \<longrightarrow> n \<le> length s) \<and>
     (\<forall>m h s. k_recv k (Receive m # h) = Got s \<longrightarrow> length s \<le> m)"

lemma readings_simps [simp]:
  "readings [] = 0" "readings (Clock # h) = Suc (readings h)" "c \<noteq> Clock \<Longrightarrow> readings (c # h) = readings h"
  by (auto simp: readings_def)

lemma accepted_quiet [simp]: "(\<And>s. c \<noteq> Transmit s) \<Longrightarrow> accepted k (c # h) = accepted k h"
  by (cases c) auto

definition same_wire :: "kernel \<Rightarrow> syscall list \<Rightarrow> syscall list \<Rightarrow> bool" where
  "same_wire k h h' \<longleftrightarrow> accepted k h' = accepted k h \<and> opened k h' = opened k h"

lemma same_wire_refl [simp]: "same_wire k h h"
  by (simp add: same_wire_def)

lemma same_wire_wait [simp]: "same_wire k (Clock # h) h' = same_wire k h h'"
    "same_wire k (Select w e t # h) h' = same_wire k h h'" "same_wire k (Receive n # h) h' = same_wire k h h'"
    "same_wire k h (Clock # h') = same_wire k h h'" "same_wire k h (Select w e t # h') = same_wire k h h'"
    "same_wire k h (Receive n # h') = same_wire k h h'"
  by (simp_all add: same_wire_def)

lemma same_wire_trans: "same_wire k h h1 \<Longrightarrow> same_wire k h1 h2 \<Longrightarrow> same_wire k h h2"
  by (simp add: same_wire_def)

section \<open>The loops return\<close>

lemma sock_wait_returns:
  assumes "time_passes k d N"
  shows "\<exists>b h'. sock_wait k w e d h = Some (b, h') \<and> same_wire k h h' \<and> readings h < readings h' \<and>
    (b \<longrightarrow> readings h' < N)"
proof (induction "N - readings h" arbitrary: h rule: less_induct)
  case less
  show ?case
  proof (cases "d \<le> k_clock k (Clock # h)")
    case True
    then show ?thesis by (intro exI [of _ False] exI [of _ "Clock # h"]) (simp add: sock_wait.simps [of k w e d h] Let_def)
  next
    case False
    then have early: "Suc (readings h) < N"
      using assms unfolding time_passes_def by (metis not_le readings_simps(2))
    let ?h2 = "Select w e (d - k_clock k (Clock # h)) # Clock # h"
    have "\<exists>b h'. sock_wait k w e d ?h2 = Some (b, h') \<and> same_wire k ?h2 h' \<and>
        readings ?h2 < readings h' \<and> (b \<longrightarrow> readings h' < N)"
      by (rule less) (use early in simp)
    with False early show ?thesis
      by (auto simp: sock_wait.simps [of k w e d h] Let_def split: readiness.split)
  qed
qed

lemma recv_loop_returns:
  assumes "time_passes k d N" "keeps_counts k"
  shows "\<exists>s h'. recv_loop k n d h = Some (s, h') \<and> same_wire k h h' \<and> (\<forall>t. s = Some t \<longrightarrow> length t \<le> n)"
proof (induction "N - readings h" arbitrary: h rule: less_induct)
  case less
  show ?case
  proof (cases "k_recv k (Receive n # h)")
    case Would_block
    obtain b h' where w: "sock_wait k False False d (Receive n # h) = Some (b, h')"
        "same_wire k h h'" "readings h < readings h'" "b \<longrightarrow> readings h' < N"
      using sock_wait_returns [OF assms(1), of False False "Receive n # h"] by auto
    show ?thesis
    proof (cases b)
      case True
      with w have "N - readings h' < N - readings h" by simp
      from less [OF this] True w show ?thesis
        by (auto simp: recv_loop.simps [of k n d h] Would_block intro: same_wire_trans)
    qed (use w in \<open>simp add: recv_loop.simps [of k n d h] Would_block\<close>)
  qed (use assms(2) in \<open>auto simp: recv_loop.simps [of k n d h] keeps_counts_def\<close>)
qed

lemma send_step:
  assumes "keeps_counts k" "k_send k (Transmit (send_chunk s) # h) = Got put"
  shows "put \<le> length s" "accepted k (Transmit (send_chunk s) # h) = accepted k h @ take put s"
proof -
  have put: "put \<le> length (send_chunk s)" using assms unfolding keeps_counts_def by blast
  then show "put \<le> length s" by (simp add: send_chunk_def)
  show "accepted k (Transmit (send_chunk s) # h) = accepted k h @ take put s"
  proof -
    have "take put (send_chunk s) = take put s" using put by (simp add: send_chunk_def min_absorb1)
    then show ?thesis by (simp add: assms(2))
  qed
qed

text \<open>C11. When time passes, sending returns whatever select and send answer; the bytes the kernel took are a prefix of the data, in order and none twice, and all of it exactly when sending reports success.\<close>

theorem sock_send_all_delivers:
  assumes "time_passes k d N" "keeps_counts k"
  shows "\<exists>b h' sent rest. send_loop k d s h = Some (b, h') \<and> s = sent @ rest \<and>
    accepted k h' = accepted k h @ sent \<and> (b \<longleftrightarrow> rest = [])"
proof (induction "length s + (N - readings h)" arbitrary: s h rule: less_induct)
  case less
  let ?h1 = "Transmit (send_chunk s) # h"
  show ?case
  proof (cases "s = []")
    case False
    show ?thesis
    proof (cases "k_send k ?h1")
      case (Got put)
      note put = send_step [OF assms(2) Got]
      show ?thesis
      proof (cases "0 < put")
        case True
        with False put(1) have "length (drop put s) + (N - readings ?h1) < length s + (N - readings h)" by simp
        from less [OF this] obtain b h' sent rest where s: "send_loop k d (drop put s) ?h1 = Some (b, h')"
            "drop put s = sent @ rest" "accepted k h' = accepted k ?h1 @ sent" "b \<longleftrightarrow> rest = []"
          by blast
        have "s = (take put s @ sent) @ rest" using s(2) by (metis append_assoc append_take_drop_id)
        moreover have "accepted k h' = accepted k h @ take put s @ sent" using s(3) put(2) by simp
        moreover have "send_loop k d s h = Some (b, h')"
          using s(1) True False Got by (simp add: send_loop.simps [of k d s h])
        ultimately show ?thesis using s(4) by blast
      next
        case False
        with \<open>s \<noteq> []\<close> put Got have "send_loop k d s h = Some (False, ?h1)" "accepted k ?h1 = accepted k h @ []"
          by (simp_all add: send_loop.simps [of k d s h])
        with \<open>s \<noteq> []\<close> show ?thesis by (metis append_Nil)
      qed
    next
      case Would_block
      obtain b h' where w: "sock_wait k True False d ?h1 = Some (b, h')"
          "accepted k h' = accepted k h" "readings h < readings h'" "b \<longrightarrow> readings h' < N"
        using sock_wait_returns [OF assms(1), of True False ?h1] by (auto simp: Would_block same_wire_def)
      show ?thesis
      proof (cases b)
        case True
        with w have "length s + (N - readings h') < length s + (N - readings h)" by simp
        from less [OF this] w True False show ?thesis by (simp add: send_loop.simps [of k d s h] Would_block)
      next
        case False
        with w \<open>s \<noteq> []\<close> have "send_loop k d s h = Some (False, h')" "accepted k h' = accepted k h @ []"
          by (simp_all add: send_loop.simps [of k d s h] Would_block)
        with \<open>s \<noteq> []\<close> show ?thesis by (metis append_Nil)
      qed
    next
      case Failed
      with False have "send_loop k d s h = Some (False, ?h1)" "accepted k ?h1 = accepted k h @ []"
        by (simp_all add: send_loop.simps [of k d s h])
      with False show ?thesis by (metis append_Nil)
    qed
  next
    case True
    then have "send_loop k d s h = Some (True, h)" "accepted k h = accepted k h @ []"
      by (simp_all add: send_loop.simps [of k d "[]" h])
    with True show ?thesis by blast
  qed
qed

text \<open>A kernel that blocks before every byte it takes and delivers two pieces, and whose clock moves by 10 a reading.\<close>

definition slow_kernel :: kernel where
  "slow_kernel = \<lparr>k_clock = (\<lambda>h. 10 * int (readings h)), k_select = (\<lambda>_. Ready),
     k_recv = (\<lambda>h. case h of
        Receive m # g \<Rightarrow> if readings h = 0 then Would_block else if length h < 6 then Got (take m ''ok'') else Failed
      | _ \<Rightarrow> Failed),
     k_send = (\<lambda>h. case h of
        Transmit s # Select w e t # g \<Rightarrow> Got (min 1 (length s))
      | _ \<Rightarrow> Would_block),
     k_addr = (\<lambda>_. None), k_lookup = (\<lambda>_. None), k_made = (\<lambda>_. True), k_connect = (\<lambda>_. Would_block),
     k_status = (\<lambda>_. Some 0), k_read = (\<lambda>_. Got []), k_write = (\<lambda>_. Failed)\<rparr>"

lemma send_chunk_code [code]: "send_chunk s = (if int (length s) \<le> 2 ^ 30 then s else take (2 ^ 30) s)"
  by (simp add: send_chunk_def)

declare sock_wait.simps [code] recv_loop.simps [code] send_loop.simps [code]

lemma slow_kernel_laws: "time_passes slow_kernel 100 10" "keeps_counts slow_kernel"
  subgoal by (auto simp: time_passes_def slow_kernel_def)
  subgoal by (auto simp: keeps_counts_def slow_kernel_def split: list.splits syscall.splits if_splits)
  done

lemma slow_kernel_sends: "case send_loop slow_kernel 100 ''abc'' [] of Some (b, h) \<Rightarrow> b | None \<Rightarrow> False"
  by code_simp

theorem sock_send_all_delivers_witness:
  "\<exists>h'. send_loop slow_kernel 100 ''abc'' [] = Some (True, h') \<and> accepted slow_kernel h' = ''abc''"
proof -
  obtain b h' sent rest where "send_loop slow_kernel 100 ''abc'' [] = Some (b, h')" "''abc'' = sent @ rest"
      "accepted slow_kernel h' = accepted slow_kernel [] @ sent" "b \<longleftrightarrow> rest = []"
    using sock_send_all_delivers [OF slow_kernel_laws, of "''abc''" "[]"] by blast
  with slow_kernel_sends show ?thesis by auto
qed

section \<open>A connection as a list of pieces\<close>

fun piece_reads :: "(string list \<Rightarrow> nat) \<Rightarrow> nat \<Rightarrow> string list \<Rightarrow> string list \<Rightarrow> string option list" where
  \<comment> \<open>what \<open>m\<close> calls of the abstract \<open>sock_recv\<close> give; \<open>sz\<close> chooses a size from the pieces read so far\<close>
  "piece_reads sz 0 acc ps = []"
| "piece_reads sz (Suc m) acc ps =
     (case sock_recv (sz acc) ps of None \<Rightarrow> [None] | Some (s, ps') \<Rightarrow> Some s # piece_reads sz m (s # acc) ps')"

fun loop_reads ::
    "kernel \<Rightarrow> int \<Rightarrow> (string list \<Rightarrow> nat) \<Rightarrow> nat \<Rightarrow> string list \<Rightarrow> syscall list \<Rightarrow> string option list option" where
  \<comment> \<open>the same with the loop over the system calls\<close>
  "loop_reads k d sz 0 acc h = Some []"
| "loop_reads k d sz (Suc m) acc h =
     Option.bind (recv_loop k (sz acc) d h) (\<lambda>(r, h').
       case r of None \<Rightarrow> Some [None] | Some s \<Rightarrow> map_option ((#) (Some s)) (loop_reads k d sz m (s # acc) h'))"


lemma slow_kernel_reads:
  "loop_reads slow_kernel 100 (\<lambda>_. 5) 9 [] [] = Some [Some ''ok'', Some ''ok'', None]"
  by code_simp


section \<open>Connecting\<close>

definition host_ip :: "kernel \<Rightarrow> string \<Rightarrow> syscall list \<Rightarrow> 32 word option \<times> syscall list" where
  "host_ip k host h =
     (case k_addr k host of
        Some ip \<Rightarrow> (Some ip, h)
      | None \<Rightarrow> if host = ''localhost'' then (Some 0x7F000001, h)
                else let h1 = Resolve host # h in (k_lookup k h1, h1))"

definition http_dial :: "kernel \<Rightarrow> string \<Rightarrow> 16 word \<Rightarrow> int \<Rightarrow> syscall list \<Rightarrow> (bool \<times> syscall list) option" where
  "http_dial k host port deadline h =
     (let (ip, h1) = host_ip k host h
      in case ip of
           None \<Rightarrow> Some (False, h1)
         | Some a \<Rightarrow>
             let h2 = Create [Conn] # h1
             in if \<not> k_made k h2 then Some (False, h2)
                else let h3 = Connect a port # h2
                in case k_connect k h3 of
                     Got _ \<Rightarrow> Some (True, h3)
                   | Failed \<Rightarrow> Some (False, Close Conn # h3)
                   | Would_block \<Rightarrow>
                       Option.bind (sock_wait k True True deadline h3) (\<lambda>(ready, h4).
                         if \<not> ready then Some (False, Close Conn # h4)
                         else let h5 = Sock_error # h4
                         in if k_status k h5 \<noteq> Some 0 then Some (False, Close Conn # h5) else Some (True, h5)))"

lemma host_ip_wire: "host_ip k host h = (ip, h1) \<Longrightarrow> same_wire k h h1"
  by (auto simp: host_ip_def Let_def same_wire_def split: option.splits if_splits)

lemma http_dial_returns:
  assumes "time_passes k d N"
  shows "\<exists>b h'. http_dial k host port d h = Some (b, h') \<and> accepted k h' = accepted k h \<and>
    opened k h' = (if b then [Conn] else []) @ opened k h"
proof -
  obtain ip h1 where ip: "host_ip k host h = (ip, h1)" by (cases "host_ip k host h")
  note w1 = host_ip_wire [OF ip]
  show ?thesis
  proof (cases ip)
    case None
    then have "http_dial k host port d h = Some (False, h1)" by (simp add: http_dial_def ip)
    with w1 show ?thesis by (auto simp: same_wire_def)
  next
    case (Some a)
    let ?h3 = "Connect a port # Create [Conn] # h1"
    obtain b h4 where "sock_wait k True True d ?h3 = Some (b, h4)" "same_wire k ?h3 h4"
      using sock_wait_returns [OF assms, of True True ?h3] by blast
    then show ?thesis using w1
      by (cases "k_connect k ?h3") (auto simp: http_dial_def ip Some same_wire_def Let_def)
  qed
qed

section \<open>The client's deadline\<close>

text \<open>The variable's value is added to the clock without a check.\<close>

lemma http_deadline_overflows:
  "0 < now \<Longrightarrow> http_deadline now ''9223372036854775807'' = UB SignedOverflow"
proof -
  have "http_env_ms ''9223372036854775807'' 15000 = 2 ^ 63 - 1" by code_simp
  then show "0 < now \<Longrightarrow> ?thesis" by (simp add: http_deadline_def in_i64_def)
qed

section \<open>The growing buffer\<close>

record hbuf =
  hb_text :: string
  hb_cap :: nat

function grow :: "nat \<Rightarrow> nat \<Rightarrow> nat" where
  \<comment> \<open>\<open>while (need > cap) cap *= 2\<close>, for sizes below \<open>2 ^ 63\<close>\<close>
  "grow cap need = (if 0 < cap \<and> cap < need then grow (cap * 2) need else cap)"
  by pat_completeness auto
termination
  by (relation "measure (\<lambda>(cap, need). need - cap)") auto

declare grow.simps [simp del]

definition hbuf_add :: "hbuf \<Rightarrow> string \<Rightarrow> hbuf" where
  "hbuf_add b s =
     (let need = length (hb_text b) + length s + 1
      in \<lparr>hb_text = hb_text b @ s,
          hb_cap = if hb_cap b < need then grow (if hb_cap b = 0 then 1024 else hb_cap b) need else hb_cap b\<rparr>)"

lemma grow_bounds: "0 < cap \<Longrightarrow> need \<le> grow cap need \<and> grow cap need \<le> max cap (2 * need)"
proof (induction cap need rule: grow.induct)
  case (1 cap need)
  then show ?case by (auto simp: grow.simps [of cap need])
qed

text \<open>The text and its NUL fit, and the capacity is at most twice what is needed, or the first block.\<close>

lemma hbuf_add_fits:
  "length (hb_text (hbuf_add b s)) < hb_cap (hbuf_add b s)"
  "hb_cap b \<le> max 1024 (2 * length (hb_text b) + 2) \<Longrightarrow>
     hb_cap (hbuf_add b s) \<le> max 1024 (2 * length (hb_text (hbuf_add b s)) + 2)"
  using grow_bounds [of "if hb_cap b = 0 then 1024 else hb_cap b" "length (hb_text b) + length s + 1"]
  by (auto simp: hbuf_add_def Let_def)

end
