(* ===== verification/Curl.thy ===== *)
theory Curl
  imports Sockets
begin

text \<open>
  \<open>https://\<close> requests (\<open>http_via_curl\<close>, \<open>win_quote_arg\<close> of \<open>vm/pyro_runtime.c\<close>): the argument vector of the
  \<open>curl\<close> process, the POSIX branch that starts it and moves the bytes, over the system calls of
  \<open>Sockets\<close>, and the command line of the Windows branch. \<open>argv_read\<close> is the documented convention by
  which the Microsoft C runtime splits a command line again; it is the specification of the quoting.
\<close>

section \<open>The argument vector\<close>

definition curl_seconds :: "int \<Rightarrow> int" where
  "curl_seconds left = (left + 999) div 1000"           \<comment> \<open>\<open>left\<close> is positive where it is used\<close>

definition curl_argv :: "string \<Rightarrow> string option \<Rightarrow> int \<Rightarrow> string list" where
  "curl_argv url body left =
     [''curl'', ''-s'', ''-L'', ''--max-redirs'', ''10'', ''--proto'', ''=http,https'',
      ''--proto-redir'', ''=http,https'', ''-m'', show_int (curl_seconds left)] @
     (if body = None then [] else [''-H'', ''Content-Type: application/json'', ''--data-binary'', ''@-'']) @
     [''--url'', url]"

section \<open>The process (POSIX)\<close>

function feed_child :: "kernel \<Rightarrow> string \<Rightarrow> syscall list \<Rightarrow> syscall list" where
  "feed_child k s h =
     (if s = [] then h
      else let h1 = Pipe_write s # h
      in case k_write k h1 of
           Got put \<Rightarrow> if 0 < put then feed_child k (drop put s) h1 else h1
         | _ \<Rightarrow> h1)"
  by pat_completeness auto
termination
  by (relation "measure (\<lambda>(k, s, h). length s)") auto

declare feed_child.simps [simp del]

partial_function (option) drain_child :: "kernel \<Rightarrow> string \<Rightarrow> syscall list \<Rightarrow> (string \<times> syscall list) option" where
  "drain_child k got h =
     (let h1 = Pipe_read # h
      in case k_read k h1 of
           Got s \<Rightarrow> if s = [] then Some (got, h1) else drain_child k (got @ s) h1
         | Would_block \<Rightarrow> Some (got, h1)
         | Failed \<Rightarrow> Some (got, h1))"

definition http_via_curl ::
    "kernel \<Rightarrow> string \<Rightarrow> string option \<Rightarrow> int \<Rightarrow> syscall list \<Rightarrow> (string option \<times> syscall list) option" where
  "http_via_curl k url body deadline h =
     (let h0 = Clock # h; left = deadline - k_clock k h0
      in if left \<le> 0 then Some (None, h0)
         else let h1 = Create [In_r, In_w] # h0
         in if \<not> k_made k h1 then Some (None, h1)
         else let h2 = Create [Out_r, Out_w] # h1
         in if \<not> k_made k h2 then Some (None, Close In_w # Close In_r # h2)
         else let h3 = Spawn (curl_argv url body left) # h2; h4 = Close Out_w # Close In_r # h3
         in if \<not> k_made k h3 then Some (None, Close Out_r # Close In_w # h4)
         else let h5 = Close In_w # feed_child k (case body of None \<Rightarrow> [] | Some b \<Rightarrow> b) h4
         in Option.bind (drain_child k [] h5) (\<lambda>(got, h6).
              let h7 = Wait_child # h6
              in Some (if k_status k h7 = Some 0 then Some got else None, Close Out_r # h7)))"

definition spawned :: "syscall list \<Rightarrow> string list list" where
  "spawned h = concat (map (\<lambda>c. case c of Spawn a \<Rightarrow> [a] | _ \<Rightarrow> []) h)"

definition child_ends :: "kernel \<Rightarrow> nat \<Rightarrow> bool" where
  \<comment> \<open>the output of a process is at its end after \<open>N\<close> reads\<close>
  "child_ends k N \<longleftrightarrow> (\<forall>h. N \<le> length (filter ((=) Pipe_read) h) \<longrightarrow> k_read k h = Got [])"

definition only_pipes :: "kernel \<Rightarrow> syscall list \<Rightarrow> syscall list \<Rightarrow> bool" where
  "only_pipes k h h' \<longleftrightarrow> same_wire k h h' \<and> spawned h' = spawned h"

lemma only_pipes_refl [simp]: "only_pipes k h h"
  by (simp add: only_pipes_def)

lemma only_pipes_io [simp]:
  "only_pipes k (Pipe_write s # h) h' = only_pipes k h h'" "only_pipes k (Pipe_read # h) h' = only_pipes k h h'"
  "only_pipes k h (Pipe_write s # h') = only_pipes k h h'" "only_pipes k h (Pipe_read # h') = only_pipes k h h'"
  by (simp_all add: only_pipes_def same_wire_def spawned_def)

lemma feed_child_only: "only_pipes k h (feed_child k s h)"
proof (induction k s h rule: feed_child.induct)
  case (1 k s h)
  then show ?case by (subst feed_child.simps) (auto simp: Let_def split: answer.split)
qed

lemma drain_child_returns:
  assumes "child_ends k N"
  shows "\<exists>got' h'. drain_child k got h = Some (got', h') \<and> only_pipes k h h'"
proof (induction "N - length (filter ((=) Pipe_read) h)" arbitrary: got h rule: less_induct)
  case less
  let ?h1 = "Pipe_read # h"
  show ?case
  proof (cases "\<exists>s. k_read k ?h1 = Got s \<and> s \<noteq> []")
    case True
    then obtain s where s: "k_read k ?h1 = Got s" "s \<noteq> []" by blast
    then have "\<not> N \<le> length (filter ((=) Pipe_read) ?h1)"
      using assms unfolding child_ends_def by (metis answer.inject)
    then have "N - length (filter ((=) Pipe_read) ?h1) < N - length (filter ((=) Pipe_read) h)" by simp
    from less [OF this, of "got @ s"] s show ?thesis by (simp add: drain_child.simps [of k got h])
  next
    case False
    then have "drain_child k got h = Some (got, ?h1)"
      by (cases "k_read k ?h1") (auto simp: drain_child.simps [of k got h])
    then show ?thesis by simp
  qed
qed

section \<open>The command line (Windows)\<close>

abbreviation backslash :: char where "backslash \<equiv> CHR 0x5C"
abbreviation dquote :: char where "dquote \<equiv> CHR 0x22"

fun quote_from :: "nat \<Rightarrow> string \<Rightarrow> string" where
  \<comment> \<open>the loop of \<open>win_quote_arg\<close>, with the backslashes it holds back\<close>
  "quote_from bs [] = replicate (bs * 2) backslash"
| "quote_from bs (c # s) =
     (if c = backslash then quote_from (Suc bs) s
      else if c = dquote then replicate (bs * 2) backslash @ [backslash, dquote] @ quote_from 0 s
      else replicate bs backslash @ c # quote_from 0 s)"

definition win_quote_arg :: "string \<Rightarrow> string" where
  "win_quote_arg a = [CHR '' '', dquote] @ quote_from 0 (c_str a) @ [dquote]"

definition curl_command_line :: "string list \<Rightarrow> string" where
  "curl_command_line args = ''curl.exe'' @ concat (map win_quote_arg (tl args))"

definition blank :: "char \<Rightarrow> bool" where
  "blank c \<longleftrightarrow> c = CHR '' '' \<or> c = CHR 0x09"

fun read_arg :: "bool \<Rightarrow> nat \<Rightarrow> string \<Rightarrow> string \<Rightarrow> string \<times> string" where
  \<comment> \<open>inside quotes, the backslashes not yet decided, the argument so far, the rest of the line\<close>
  "read_arg q b cur [] = (cur @ replicate b backslash, [])"
| "read_arg q b cur (c # s) =
     (if c = backslash then read_arg q (Suc b) cur s
      else if c = dquote then
        (let cur' = cur @ replicate (b div 2) backslash
         in if odd b then read_arg q 0 (cur' @ [dquote]) s
            else case s of
                d # t \<Rightarrow> if q \<and> d = dquote then read_arg q 0 (cur' @ [dquote]) t else read_arg (\<not> q) 0 cur' s
              | [] \<Rightarrow> (cur', []))
      else
        (let cur' = cur @ replicate b backslash
         in if blank c \<and> \<not> q then (cur', s) else read_arg q 0 (cur' @ [c]) s))"

declare read_arg.simps(2) [simp del]

lemma read_arg_shorter: "length (snd (read_arg q b cur s)) \<le> length s"
proof (induction q b cur s rule: read_arg.induct)
  case (2 q b cur c s)
  then show ?case
    by (cases s) (auto simp: read_arg.simps(2) [of q b cur c] Let_def intro: le_SucI)
qed simp

lemma read_arg_progress: "length (snd (read_arg q b cur (c # s))) < length (c # s)"
proof -
  have "length (snd (read_arg q' b' cur' (tl s))) \<le> length s" for q' b' cur'
    using read_arg_shorter [of q' b' cur' "tl s"] by simp
  then show ?thesis using read_arg_shorter [of _ _ _ s]
    by (cases s) (auto simp: read_arg.simps(2) [of q b cur c] Let_def less_Suc_eq_le)
qed

function argv_read :: "string \<Rightarrow> string list" where
  "argv_read s =
     (case dropWhile blank s of
        [] \<Rightarrow> []
      | c # t \<Rightarrow> fst (read_arg False 0 [] (c # t)) # argv_read (snd (read_arg False 0 [] (c # t))))"
  by pat_completeness auto
termination
proof (relation "measure length")
  fix s c t assume "dropWhile blank s = c # t"
  moreover from this have "length (c # t) \<le> length s" by (metis length_dropWhile_le)
  moreover have "length (snd (read_arg False 0 [] (c # t))) < length (c # t)" by (rule read_arg_progress)
  ultimately show "(snd (read_arg False 0 [] (c # t)), s) \<in> measure length" by simp
qed simp

declare argv_read.simps [simp del]

lemma read_backslash [simp]: "read_arg q b cur (backslash # s) = read_arg q (Suc b) cur s"
  by (simp add: read_arg.simps(2))

lemma read_backslashes: "read_arg q b cur (replicate n backslash @ s) = read_arg q (b + n) cur s"
  by (induction n arbitrary: b) simp_all

lemma read_escaped_quote [simp]:
  "odd b \<Longrightarrow> read_arg q b cur (dquote # s) = read_arg q 0 (cur @ replicate (b div 2) backslash @ [dquote]) s"
  by (simp add: read_arg.simps(2))

lemma read_closing_quote:
  "take 1 s \<noteq> [dquote] \<Longrightarrow>
     read_arg True (n * 2) cur (dquote # s) = read_arg False 0 (cur @ replicate n backslash) s"
  by (cases s) (simp_all add: read_arg.simps(2) [of _ _ _ dquote])

lemma read_plain [simp]:
  "c \<noteq> backslash \<Longrightarrow> c \<noteq> dquote \<Longrightarrow> q \<or> \<not> blank c \<Longrightarrow>
     read_arg q b cur (c # s) = read_arg q 0 (cur @ replicate b backslash @ [c]) s"
  by (auto simp: read_arg.simps(2))

text \<open>The reader, inside quotes, takes what the quoter wrote for one argument, up to the closing quote.\<close>

lemma read_quoted:
  assumes "take 1 rest \<noteq> [dquote]"
  shows "read_arg True 0 cur (quote_from bs a @ dquote # rest) =
    read_arg False 0 (cur @ replicate bs backslash @ a) rest"
proof (induction bs a arbitrary: cur rule: quote_from.induct)
  case (1 bs)
  show ?case by (simp add: read_backslashes read_closing_quote [OF assms])
next
  case (2 bs c s)
  then show ?case by (simp add: read_backslashes replicate_app_Cons_same)
qed

lemma read_opening_quote: "s \<noteq> [] \<Longrightarrow> read_arg False 0 cur (dquote # s) = read_arg True 0 cur s"
  by (cases s) (simp_all add: read_arg.simps(2) [of _ _ _ dquote])

lemma read_end_of_arg: "read_arg False 0 cur (CHR '' '' # s) = (cur, s)"
  by (simp add: read_arg.simps(2) blank_def)

lemma argv_read_blank [simp]: "argv_read (CHR '' '' # s) = argv_read s" "argv_read [] = []"
  by (subst (1 2) argv_read.simps, simp add: blank_def) (simp add: argv_read.simps)

lemma argv_read_Cons:
  "\<not> blank c \<Longrightarrow> read_arg False 0 [] (c # s) = (a, rest) \<Longrightarrow> argv_read (c # s) = a # argv_read rest"
  by (simp add: argv_read.simps [of "c # s"])

definition quoted_args :: "string list \<Rightarrow> string" where
  "quoted_args args = concat (map win_quote_arg args)"

lemma quoted_args_cases: obtains "quoted_args args = []" | t where "quoted_args args = CHR '' '' # t"
  by (cases args) (auto simp: quoted_args_def win_quote_arg_def)

lemma read_end_of_quoted:
  "\<exists>rest. read_arg False 0 cur (quoted_args args) = (cur, rest) \<and> argv_read rest = argv_read (quoted_args args)"
  by (cases rule: quoted_args_cases [of args]) (simp_all add: read_end_of_arg)

lemma argv_read_quoted: "argv_read (quoted_args args) = map c_str args"
proof (induction args)
  case (Cons a args)
  have "take 1 (quoted_args args) \<noteq> [dquote]" by (cases rule: quoted_args_cases [of args]) simp_all
  from read_quoted [OF this, of "[]" 0 "c_str a"] obtain rest where
      "read_arg False 0 [] (dquote # quote_from 0 (c_str a) @ dquote # quoted_args args) = (c_str a, rest)"
      "argv_read rest = argv_read (quoted_args args)"
    using read_end_of_quoted [of "c_str a" args] by (auto simp: read_opening_quote)
  then have "argv_read (dquote # quote_from 0 (c_str a) @ dquote # quoted_args args) = c_str a # map c_str args"
    using argv_read_Cons [of dquote] Cons by (simp add: blank_def)
  then show ?case by (simp add: quoted_args_def win_quote_arg_def)
qed (simp add: quoted_args_def)

section \<open>Properties\<close>

text \<open>C9. The command line built for curl on Windows, read back by the documented rules of the C runtime, is the argument vector: no URL, whatever quotes, blanks and backslashes it has, becomes another argument.\<close>

theorem curl_command_line_round_trip:
  "argv_read (curl_command_line args) = ''curl.exe'' # map c_str (tl args)"
proof -
  obtain rest where r: "read_arg False 0 ''curl.exe'' (quoted_args (tl args)) = (''curl.exe'', rest)"
      "argv_read rest = argv_read (quoted_args (tl args))"
    using read_end_of_quoted by blast
  have "read_arg False 0 [] (''curl.exe'' @ quoted_args (tl args)) = (''curl.exe'', rest)"
    using r(1) by (simp add: blank_def)
  with r(2) argv_read_Cons [of "CHR ''c''"] show ?thesis
    by (simp add: curl_command_line_def quoted_args_def [symmetric] argv_read_quoted blank_def)
qed

lemma spawned_simps [simp]:
  "spawned (Spawn a # h) = a # spawned h" "(\<And>a. c \<noteq> Spawn a) \<Longrightarrow> spawned (c # h) = spawned h"
  subgoal by (simp add: spawned_def)
  subgoal by (cases c) (auto simp: spawned_def)
  done

text \<open>C10. When the output of the process ends, http_via_curl() returns, starts at most one process, and that one with the fixed argument vector, and has closed every pipe it made, on every path.\<close>

theorem http_via_curl_contained:
  assumes "child_ends k N"
  shows "\<exists>r h'. http_via_curl k url body d h = Some (r, h') \<and> opened k h' = opened k h \<and>
    spawned h' \<in> {spawned h, curl_argv url body (d - k_clock k (Clock # h)) # spawned h}"
proof -
  let ?h3 = "Spawn (curl_argv url body (d - k_clock k (Clock # h))) # Create [Out_r, Out_w] # Create [In_r, In_w] # Clock # h"
  let ?h5 = "Close In_w # feed_child k (case body of None \<Rightarrow> [] | Some b \<Rightarrow> b) (Close Out_w # Close In_r # ?h3)"
  obtain got h6 where drain: "drain_child k [] ?h5 = Some (got, h6)" "only_pipes k ?h5 h6"
    using drain_child_returns [OF assms] by blast
  note fed = feed_child_only [of k "Close Out_w # Close In_r # ?h3" "case body of None \<Rightarrow> [] | Some b \<Rightarrow> b"]
  show ?thesis using drain fed
    by (auto simp: http_via_curl_def Let_def only_pipes_def same_wire_def)
qed

declare drain_child.simps [code] feed_child.simps [code]

lemma slow_kernel_curl:
  "case http_via_curl slow_kernel ''https://h/'' None 100 [] of
     Some (r, h) \<Rightarrow> r = Some [] \<and> length (spawned h) = 1 | None \<Rightarrow> False"
  by code_simp

theorem http_via_curl_contained_witness:
  "\<exists>h'. http_via_curl slow_kernel ''https://h/'' None 100 [] = Some (Some [], h') \<and> opened slow_kernel h' = [] \<and>
     spawned h' = [curl_argv ''https://h/'' None 90]"
proof -
  have "child_ends slow_kernel 0" by (simp add: child_ends_def slow_kernel_def)
  moreover have "k_clock slow_kernel [Clock] = 10" by (simp add: slow_kernel_def)
  moreover have "spawned [] = []" by (simp add: spawned_def)
  ultimately show ?thesis
    using http_via_curl_contained [of slow_kernel 0 "''https://h/''" None 100 "[]"] slow_kernel_curl by auto
qed

lemma curl_seconds_covers: "0 < left \<Longrightarrow> left \<le> 1000 * curl_seconds left \<and> 1000 * curl_seconds left < left + 1000"
  by (simp add: curl_seconds_def) linarith

end
