(* ===== verification/System.thy ===== *)
theory System
  imports CppParity Mediation Serving JsonTrees Progress BuiltinSafety Curl
begin

text \<open>
  The whole program with the runtime's own builtins: the engine, the loader and the policy of the
  other theories put together. The log of operating-system calls is mediated in every state an
  execution reaches, and no execution leaves the code section or the frame stack.
\<close>

primrec vm_of :: "result \<Rightarrow> vm" where
  "vm_of (Next s) = s"
| "vm_of (Stop s) = s"

lemma system_exec_op:
  assumes "exec_op x nf p s = Ok res" "x \<noteq> opNATIVE"
  shows "system (vm_of res) = system s"
proof -
  have ret: "system (vm_of res) = system s" if r: "op_RET s = Ok res"
  proof -
    obtain v s1 where v: "pop s = Ok (v, s1)" using r by (cases "pop s") (auto simp: op_RET_def)
    with r show ?thesis
      by (cases "v_frames s1") (auto simp: op_RET_def outcome_simps split: if_splits dest!: system_dest)
  qed
  have stay: "system s' = system s" if "stays s m" "m = Ok s'" for m s'
    using that by (simp add: stays_def)
  show ?thesis
    using assms
    by (cases x) (auto simp: next_vm_def outcome_simps dest: system_flow stay [OF stays_tops(1)] stay [OF stays_tops(2)]
        stay [OF stays_tops(3)] stay [OF stays_tops(4)] stay [OF stays_tops(5)] stay [OF stays_tops(6)]
        stay [OF stays_tops(7)] stay [OF stays_multi(1)] stay [OF stays_multi(2)] stay [OF stays_multi(3)]
        stay [OF stays_multi(4)] stay [OF stays_multi(5)] ret)
qed

definition in_rights :: "os \<Rightarrow> rt \<Rightarrow> vm \<Rightarrow> bool" where
  "in_rights os r s \<longleftrightarrow> mediated os (v_rt s) \<and> rights (v_rt s) = rights r"

lemma in_rights_system: "in_rights os r s \<Longrightarrow> system s' = system s \<Longrightarrow> in_rights os r s'"
  using mediated_system [of s' s os] by (simp add: in_rights_def system_def Let_def)

lemma in_rights_native:
  assumes "op_NATIVE (native os) p s = Ok s'" "in_rights os r s"
  shows "in_rights os r s'"
proof -
  obtain b s1 c s2 args s3 res r1 s4 where
    ops: "next8 p s = Ok (b, s1)" "next8 p s1 = Ok (c, s2)" "popn (unat c) s2 = Ok (args, s3)"
      "native os (unat b) args (v_rt s2) = Ok (res, r1)" "ofold release args (s3\<lparr>v_rt := r1\<rparr>) = Ok s4" "s' = push res s4"
    using assms(1) by (auto simp: op_NATIVE_def outcome_simps)
  have "system s2 = system s" using ops(1,2) by (auto dest!: system_dest)
  with assms(2) have "in_rights os r s2" by (rule in_rights_system)
  then have "mediated os r1 \<and> rights r1 = rights r" using native_mediated [OF ops(4)] by (simp add: in_rights_def)
  then have "in_rights os r (s3\<lparr>v_rt := r1\<rparr>)" by (simp add: in_rights_def)
  moreover have "system s' = system (s3\<lparr>v_rt := r1\<rparr>)" using ops(5,6) by (auto dest!: system_dest)
  ultimately show ?thesis by (rule in_rights_system)
qed

lemma in_rights_step:
  assumes "step (native os) p s = Ok res" "in_rights os r s"
  shows "in_rights os r (vm_of res)"
proof -
  obtain b s1 x where x: "next8 p s = Ok (b, s1)" "decode_op b = Some x" "exec_op x (native os) p s1 = Ok res"
    using assms(1) by (auto simp: step_def outcome_simps split: option.splits)
  have s1: "in_rights os r s1"
    by (rule in_rights_system [OF assms(2)]) (use x(1) in \<open>auto dest!: system_dest\<close>)
  show ?thesis
  proof (cases "x = opNATIVE")
    case True
    with x(3) obtain s2 where "op_NATIVE (native os) p s1 = Ok s2" "res = Next s2"
      by (auto simp: next_vm_def outcome_simps)
    with in_rights_native s1 show ?thesis by simp
  next
    case False
    show ?thesis by (rule in_rights_system [OF s1 system_exec_op [OF x(3) False]])
  qed
qed

lemma in_rights_reachable:
  assumes "reachable (native os) p r s" "in_rights os r1 s0" "start p r = Ok s0"
  shows "in_rights os r1 s"
  using assms
proof (induction rule: reachable.induct)
  case (step s s')
  then show ?case using in_rights_step [of os p s "Next s'" r1] by simp
qed simp

section \<open>Properties\<close>


definition idle_os :: os where
  \<comment> \<open>an operating system that grants nothing and answers nothing\<close>
  "idle_os = \<lparr>os_cwd = ''/'', os_flag = (\<lambda>_. False), os_net = (\<lambda>_. None), os_text = (\<lambda>_. None),
     os_write = (\<lambda>_. None), os_names = (\<lambda>_. None), os_number = (\<lambda>_. 0), os_pow = (\<lambda>x y. 0), os_hypot = (\<lambda>x y. 0)\<rparr>"

definition clock_program :: program where
  \<comment> \<open>one call of \<open>now_ms\<close>\<close>
  "clock_program = tiny\<lparr>p_code := [op_byte opNATIVE, 47, 0, op_byte opHALT], p_codelen := 4, p_sandboxed := True\<rparr>"

lemma clock_calls: "\<exists>s. reachable (native idle_os) clock_program initial_rt s \<and> calls (v_rt s) = [Now]"
proof -
  obtain s0 where s0: "start clock_program initial_rt = Ok s0" "v_pc s0 = 0" "v_stk s0 = []" "calls (v_rt s0) = []"
    by (auto simp: start_def clock_program_def tiny_def Let_def initial_rt_def)
  have "\<exists>s1. step (native idle_os) clock_program s0 = Ok (Next s1) \<and> calls (v_rt s1) = [Now]"
    using s0(2-4)
    by (simp add: step_def next8_def fetch_def c_int32_def in_i32_def clock_program_def tiny_def check_operand_def
        decode_op_def all_opcodes_def op_NATIVE_def next_vm_def popn_def push_def native_def builtins_def
        native_now_ms_def pyro_get_now_ms_def ask_def Let_def tail_safe_def pyro_operand_width_def)
  with reachable.step [OF reachable.init [OF s0(1)]] show ?thesis by blast
qed


text \<open>C4. Loading and running any file below 2 GiB with the runtime's own builtins, whatever the operating system answers, never reads outside the code section and never accesses a frame that is not there.\<close>

theorem pyro_main_with_builtins:
  assumes "small data" "pyro_main n (native os) args input policy_env sandbox_env data = Some res"
  shows "res \<noteq> UB CodeRange \<and> res \<noteq> UB FrameRange"
  by (rule pyro_main_stays_in_code [OF assms(1) _ assms(2)]) (rule quiet_native)

lemma halt_file_native: "case pyro_main 3 (native idle_os) [] [] [] [] halt_file of Some (Ok r) \<Rightarrow> True | _ \<Rightarrow> False"
  by code_simp

theorem pyro_main_with_builtins_witness:
  "\<exists>res. pyro_main 3 (native idle_os) [] [] [] [] halt_file = Some res \<and> res \<noteq> UB CodeRange"
proof -
  have "small halt_file" by (simp add: small_def halt_file_def)
  moreover obtain res where "pyro_main 3 (native idle_os) [] [] [] [] halt_file = Some res"
    using halt_file_native by (auto split: option.splits)
  ultimately show ?thesis using pyro_main_with_builtins by blast
qed

section \<open>Memory safety of loaded programs\<close>

lemma safe_finish: "owns p [] s \<Longrightarrow> finish p s \<noteq> UB DanglingPtr"
proof -
  have loop: "rc_sound (vs @ R) (heap r) \<Longrightarrow> reads (ofold (\<lambda>v. with_heap (release_value v)) vs r)" for vs R and r :: rt
  proof (induction vs arbitrary: r)
    case (Cons v vs)
    then have "safe (release_value v (heap r)) (\<lambda>h'. rc_sound (vs @ R) h' \<and> hsub h' (heap r))" by (intro safe_release) simp
    then have "safe (with_heap (release_value v) r) (\<lambda>r'. rc_sound (vs @ R) (heap r'))"
      unfolding with_heap_def by (rule safe_obind) simp
    then show ?case unfolding ofold.simps by (rule safe_obind) (rule Cons.IH)
  qed simp
  assume "owns p [] s"
  then have "rc_sound (p_consts p @ roots (p\<lparr>p_consts := []\<rparr>) s) (heap (v_rt s))"
    unfolding owns_def by (rule_tac rc_sound_less) (auto simp: roots_def the_heap_def)
  from loop [OF this] show ?thesis unfolding finish_def by (rule safe_not_dangling)
qed


text \<open>A file that concatenates two strings, stores the result in a local and prints it.\<close>

definition joining_file :: "u8 list" where
  "joining_file = [0x50, 0x59, 0x52, 0x4F, 3, 0, 2, 0, 3, 1, 0, 0, 0, 0x61, 3, 1, 0, 0, 0, 0x62,
     1, 0, 0, 0, 0, 0, 0, 0, 0, 1, 0, 0, 0, 15, 0, 0, 0] @
     [op_byte opCONST, 0, 0, op_byte opCONST, 1, 0, op_byte opADD, op_byte opSTORE, 0, 0, op_byte opLOAD, 0, 0,
      op_byte opPRINT, op_byte opHALT]"

fun steps_in_scope :: "nat \<Rightarrow> native_fn \<Rightarrow> program \<Rightarrow> vm \<Rightarrow> vm option" where
  "steps_in_scope 0 nf p s = Some s"
| "steps_in_scope (Suc n) nf p s =
     (if in_scope p s then (case step nf p s of Ok (Next s') \<Rightarrow> steps_in_scope n nf p s' | _ \<Rightarrow> None) else None)"

lemma steps_within: "within nf p r s \<Longrightarrow> steps_in_scope n nf p s = Some s' \<Longrightarrow> within nf p r s'"
proof (induction n arbitrary: s)
  case (Suc n)
  then show ?case by (auto split: if_splits outcome.splits result.splits intro: within.step)
qed simp

lemma joining_file_runs:
  "case obind (configure [] [] (startup [] [])) (load_program pyro_policy_artifact joining_file) of
     Ok (p, r) \<Rightarrow> (case start p r of
       Ok s \<Rightarrow> (case steps_in_scope 5 (native idle_os) p s of Some s' \<Rightarrow> v_stk s' = [VStr 2] \<and> in_scope p s' | None \<Rightarrow> False)
     | _ \<Rightarrow> False)
   | _ \<Rightarrow> False"
  by code_simp


end
