(* ===== verification/Spec2Isabelle.thy ===== *)
theory Spec2Isabelle
  imports System
begin

text \<open>
  The Pyro virtual machines in C and C++: a model of \<open>vm/main.c\<close>, \<open>vm/main.cpp\<close>, \<open>vm/pyro_runtime.c\<close> and
  \<open>vm/pyro_runtime.h\<close>, and the properties that make them correct.

  \<^bold>\<open>The program.\<close> A \<open>.pyro\<close> file holds constants, a function table, obfuscated bytecode, and optionally
  debug lines, embedded assets and a permission list. An engine (\<open>main.c\<close>, and its twin \<open>main.cpp\<close>) checks
  and loads the file and runs a stack machine over it. Values, reference counting, containers, the operators,
  the 69 builtins and the capability policy live in the runtime library, which both engines share.

  \<^bold>\<open>How it is modelled.\<close> A piece of C code is a function into \<open>outcome\<close> (theory \<open>Prelude\<close>): \<open>Ok\<close> is a
  return, \<open>Fatal m\<close> is a call of \<open>fatal(m)\<close>, \<open>UB u\<close> is a step the C standard leaves undefined, each with its
  kind, and \<open>Diverge\<close> is an unbounded recursion. Integers are words of their width; signed overflow, bad shift
  counts, reads outside a buffer, overruns of fixed buffers and accesses to freed objects are all explicit.
  Objects live in a heap of counted cells; strings are byte strings, and \<open>c_str\<close> is what a C string function
  sees of one. Doubles are IEEE bit patterns computed by the development's own arithmetic. The operating
  system is a parameter: the record \<open>os\<close> answers from the log of everything asked so far, and every use of
  it is first appended to that log (\<open>calls\<close>), so that statements about effects are statements about the log.

  \<^bold>\<open>Theories, in the order they build on each other.\<close>

  \<^item> \<open>Prelude\<close>, \<open>Doubles\<close>: outcomes, loops, machine integers, C strings; binary64 and \<open>printf("%.14g")\<close>.
  \<^item> \<open>Values\<close>, \<open>RefCount\<close>: the \<open>Value\<close> union and the heap; \<open>retain_value\<close>, \<open>release_value\<close>. \<open>rc_inv\<close> and
    \<open>rc_sound\<close> say that every live cell's counter is at least the number of references to it, and that every
    reference points to a live cell of its kind; releasing keeps that, ends within its fuel (the number of
    cells) and touches no freed cell.
  \<^item> \<open>Text\<close>: \<open>value_to_string\<close>, \<open>value_eq\<close>, \<open>value_truthy\<close>, \<open>hash_value\<close>, \<open>value_length\<close>. The fuel of the
    rendering is the size of the heap; running out of it is the unbounded recursion of a cyclic value.
  \<^item> \<open>Table\<close>, \<open>Containers\<close>, \<open>Growth\<close>: the bucket algorithms over any hash and equality (locale \<open>hash_table\<close>,
    interpreted on the runtime's own functions for integer and for string keys), and \<open>rc_array_*\<close>, \<open>rc_map_*\<close>,
    \<open>index_get\<close>, \<open>index_set\<close> on the heap; maps refine finite maps, resize included. \<open>Growth\<close> says what
    building new objects leaves alone.
  \<^item> \<open>Bytecode\<close>, \<open>Loader\<close>: opcodes, byte readers, \<open>xor_decode\<close>, and \<open>load_program\<close>, one definition per section
    of the file; no read leaves the file, and what the loader accepts is well formed (\<open>prog_ok\<close>).
  \<^item> \<open>Arith\<close>: \<open>bin_op\<close> on every pair of kinds and the overflow tests in both builds.
  \<^item> \<open>Runtime\<close>: the file-scope state of the runtime (\<open>rt\<close>), assets, the generator, the \<open>os\<close> record.
  \<^item> \<open>Machine\<close>, \<open>Engine\<close>, \<open>Execution\<close>: \<open>run_program\<close> of \<open>main.c\<close>, one definition \<open>op_X\<close> per \<open>case\<close>, the guards of
    the loop (\<open>step\<close>), exceptions, stack traces, the loop as \<open>run\<close> with fuel and as the relation \<open>reachable\<close>;
    the control invariant (\<open>ctl_ok\<close>), which every instruction keeps, and \<open>quiet\<close> computations, which do not
    index the engine's arrays; calls, returns and unwinding.
  \<^item> \<open>Policy\<close>: \<open>policy_parse\<close>, the path normalisation \<open>cap_abs\<close> and the four gates \<open>cap_fs\<close>, \<open>cap_net\<close>,
    \<open>cap_exec\<close>, \<open>cap_env\<close>; \<open>resolve\<close> is the specification of the path check.
  \<^item> \<open>Driver\<close>: \<open>main\<close> of \<open>main.c\<close>: the command line and the file (\<open>c_process\<close>), then the policies, the loader,
    the execution and the release of the constants (\<open>pyro_main\<close>).
  \<^item> \<open>CppEngine\<close>, \<open>CppParity\<close>: \<open>main.cpp\<close>, translated on its own with its arrays and counters, and the proof that
    it treats every process as \<open>main.c\<close> does. The locale \<open>view\<close> is interpreted for the whole state and for the
    state below a height of the value stack.
  \<^item> \<open>Strings\<close>, \<open>Numbers\<close>, \<open>Json\<close>, \<open>Http\<close>, \<open>Server\<close>: the algorithms behind the builtins: splitting and
    replacing, percent encoding, \<open>strtoll\<close> and \<open>strtod\<close>, JSON in both directions, the HTTP client (URLs,
    responses, chunked bodies, redirects), the request reader and the static file server.
  \<^item> \<open>Sockets\<close>, \<open>Curl\<close>: below the \<open>os\<close> record: deadlines, the loops of \<open>sock_wait\<close>, \<open>sock_recv\<close>, \<open>sock_send_all\<close>
    and \<open>http_dial\<close>, and the \<open>curl\<close> process, over a record \<open>kernel\<close> that answers each system call from the log
    of the calls. They return when time passes (\<open>time_passes\<close>), a connection is a list of pieces for its reader,
    and the quoted command line reads back as the argument vector.
  \<^item> \<open>Natives\<close>, \<open>Builtins\<close>: one definition \<open>native_X\<close> per \<open>case\<close> of \<open>native\<close>, and the dispatch.
  \<^item> \<open>Serving\<close>, \<open>Sorting\<close>: the file server reads below its directory only; \<open>sort()\<close> sorts stably and keeps the
    reference counts.
  \<^item> \<open>JsonTrees\<close>: JSON trees, what a value stands for, the text of a tree, and the round trip of \<open>json_encode()\<close>
    and \<open>json_decode()\<close>; every parsing function of the code is proved on the text of every tree.
  \<^item> \<open>Progress\<close>: an instruction that does not go back raises the program counter, so a program without loops
    and calls ends within its length.
  \<^item> \<open>Ownership\<close>, \<open>MemorySafety\<close>, \<open>BuiltinSafety\<close>: which functions touch live objects only (\<open>safe\<close>, with a rule
    per runtime function); the references an engine state holds (\<open>roots\<close>) and the rule for each instruction; and
    the same for all 69 builtins (\<open>owning (native os)\<close>). The engine does not check that the slot of a load, a
    store or a handler lies in its frame: \<open>in_scope\<close> is that condition, and \<open>stale_slot\<close> is a file the loader
    accepts that reads a freed string without it.
  \<^item> \<open>Quiet\<close>, \<open>Mediation\<close>, \<open>System\<close>: no builtin indexes the engine's arrays; every effect has passed its gate
    (\<open>mediated\<close>); and the facts about whole runs with the runtime's own builtins: control, effects, memory.

  \<^bold>\<open>Bounds and fuel.\<close> \<open>run n\<close> executes at most \<open>n\<close> instructions and is \<open>None\<close> when the program has not ended;
  a program may run for ever, so no bound is claimed. The HTTP client follows at most ten redirects, so its
  eleven rounds are all there are. The JSON parser and the socket readers recurse on what is left to read;
  the fuel \<open>2 * length s + 2\<close> covers the depth of the JSON parser. The loops over system calls are
  partial functions whose value \<open>None\<close> is not returning; they are proved to return. All other recursions are
  structural or have a termination proof.

  \<^bold>\<open>Not modelled.\<close> The builtins and the servers see the operating system through the \<open>os\<close> record, whose
  answers \<open>Sockets\<close> and \<open>Curl\<close> justify for connections and for \<open>curl\<close>. What only passes a call on is left out:
  clocks, \<open>popen\<close>, the Win32 variants of the file calls with their conversion to UTF-16, the set-up of WinSock
  and of non-blocking sockets, and the creation of the process on Windows, of which the command line is
  modelled. The \<open>.pyro\<close> file is a seekable one.
  Allocation does not fail. Reads of memory the standard leaves indeterminate are not given a value but a
  kind of \<open>UB\<close>. The Go and C# engines, the compiler and the ahead-of-time translator are other programs.
\<close>

end
